(* ===== verification/Prelude.thy ===== *)
theory Prelude
  imports
    Main
    "HOL-Library.AList"
    "HOL-Library.Char_ord"
    "HOL-Library.List_Lexorder"
    "HOL-Library.Multiset"
    "HOL-Library.Word"
begin

text \<open>
  Shared vocabulary of the development: the machine types of the Go sources, the fact
  collections the component proofs draw on, and generic lemmas on association lists, sorting
  and lists that several components use.

  Go maps that the code iterates over are association lists whose list order stands for the
  iteration order of one run (Go leaves that order unspecified, so theorems that matter are
  stated for any two lists with the same \<^const>\<open>map_of\<close>); Go maps that are only
  looked up are functions.
\<close>

type_synonym u64 = "64 word"
type_synonym rune = "32 word"

named_theorems gopad_defs \<open>definitions unfolded by the component proofs\<close>
named_theorems gopad_inv \<open>preservation lemmas of the component invariants\<close>

section \<open>Association lists as Go maps\<close>

lemma map_of_update [simp]: "map_of (AList.update k v m) = (map_of m)(k \<mapsto> v)"
  by (rule update_conv')

lemma distinct_keys_update [simp]:
  "distinct (map fst m) \<Longrightarrow> distinct (map fst (AList.update k v m))"
  by (rule distinct_update)

lemma map_of_delete [simp]: "map_of (AList.delete k m) = (map_of m)(k := None)"
  by (rule delete_conv')

lemma distinct_keys_delete [simp]:
  "distinct (map fst m) \<Longrightarrow> distinct (map fst (AList.delete k m))"
  by (rule distinct_delete)

lemma update_fresh: "map_of m k = None \<Longrightarrow> AList.update k v m = m @ [(k, v)]"
  by (induction m) (auto split: if_splits)

lemma distinct_keys_mset:
  assumes "distinct (map fst m)" "distinct (map fst m')" "map_of m = map_of m'"
  shows "mset m = mset m'"
proof -
  have "distinct m" "distinct m'"
    using assms(1,2) by (auto simp: distinct_map)
  moreover have "set m = set m'"
    using map_of_inject_set [OF assms(1,2)] assms(3) by simp
  ultimately show ?thesis
    by (simp add: set_eq_iff_mset_eq_distinct)
qed

section \<open>Sorting by a key that is injective on the list\<close>

lemma sort_key_mset_cong:
  assumes "mset xs = mset ys" "inj_on f (set xs)"
  shows "sort_key f xs = sort_key f ys"
  by (rule sort_key_inj_key_eq) (simp_all add: assms)

section \<open>Lists\<close>

lemma find_filter_hd: "find P xs = (case filter P xs of [] \<Rightarrow> None | x # _ \<Rightarrow> Some x)"
  by (induction xs) auto

lemma filter_remove1_distinct:
  "distinct xs \<Longrightarrow> filter (\<lambda>y. y \<noteq> x \<and> P y) xs = filter P (remove1 x xs)"
  by (auto simp: distinct_remove1_removeAll removeAll_filter_not_eq intro: filter_cong)

lemma sorted_wrt_remove1: "sorted_wrt P xs \<Longrightarrow> sorted_wrt P (remove1 a xs)"
  by (induction xs) (auto dest: subsetD [OF set_remove1_subset])

lemma mset_filter_disj:
  "(\<And>x. x \<in> set xs \<Longrightarrow> P x \<Longrightarrow> \<not> Q x) \<Longrightarrow>
   mset (filter (\<lambda>x. P x \<or> Q x) xs) = mset (filter P xs) + mset (filter Q xs)"
  by (induction xs) auto

lemma mset_eq_distinct: "distinct xs \<Longrightarrow> distinct ys \<Longrightarrow> set xs = set ys \<Longrightarrow> mset xs = mset ys"
  by (simp add: set_eq_iff_mset_eq_distinct)

section \<open>Replaying a log of fallible steps\<close>

text \<open>Apply steps from the left and stop at the first error.\<close>

fun replay :: "('s \<Rightarrow> 'op \<Rightarrow> 'e + 's) \<Rightarrow> 's \<Rightarrow> 'op list \<Rightarrow> 'e + 's" where
  "replay step s [] = Inr s"
| "replay step s (x # xs) = (case step s x of Inl e \<Rightarrow> Inl e | Inr s' \<Rightarrow> replay step s' xs)"

lemma replay_append:
  "replay step s (xs @ ys) =
     (case replay step s xs of Inl e \<Rightarrow> Inl e | Inr s' \<Rightarrow> replay step s' ys)"
  by (induction xs arbitrary: s) (auto split: sum.splits)

lemma replay_snocE:
  assumes "replay step s (xs @ [x]) = Inr s'"
  obtains t where "replay step s xs = Inr t" "step t x = Inr s'"
  using assms by (auto simp: replay_append split: sum.splits)

text \<open>
  What a log of operations needs of the state it is replayed into: the step function keeps an
  invariant and cannot tell equivalent states apart. Then whole replays behave the same way.
\<close>

locale op_log =
  fixes step :: "'s \<Rightarrow> 'op \<Rightarrow> 'e + 's"
    and invar :: "'s \<Rightarrow> bool"
    and eqv :: "'s \<Rightarrow> 's \<Rightarrow> bool"
  assumes invar_step: "invar s \<Longrightarrow> step s x = Inr s' \<Longrightarrow> invar s'"
    and eqv_refl: "eqv s s"
    and eqv_error: "eqv s t \<Longrightarrow> step s x = Inl e \<Longrightarrow> step t x = Inl e"
    and eqv_step: "eqv s t \<Longrightarrow> step s x = Inr s' \<Longrightarrow> \<exists>t'. step t x = Inr t' \<and> eqv s' t'"
begin

lemma invar_replay: "invar s \<Longrightarrow> replay step s xs = Inr s' \<Longrightarrow> invar s'"
  by (induction xs arbitrary: s) (auto split: sum.splits dest: invar_step)

lemma eqv_replay:
  "eqv s t \<Longrightarrow> replay step s xs = Inr s' \<Longrightarrow> \<exists>t'. replay step t xs = Inr t' \<and> eqv s' t'"
proof (induction xs arbitrary: s t)
  case (Cons x xs)
  then obtain s1 where s1: "step s x = Inr s1" "replay step s1 xs = Inr s'"
    by (auto split: sum.splits)
  obtain t1 where "step t x = Inr t1" "eqv s1 t1"
    using eqv_step [OF Cons.prems(1) s1(1)] by blast
  then show ?case using Cons.IH [of s1 t1] s1(2) by simp
qed simp

lemma eqv_replay_error: "eqv s t \<Longrightarrow> replay step s xs = Inl e \<Longrightarrow> replay step t xs = Inl e"
proof (induction xs arbitrary: s t)
  case (Cons x xs)
  show ?case
  proof (cases "step s x")
    case (Inl e')
    then show ?thesis using Cons.prems eqv_error [OF Cons.prems(1) Inl] by simp
  next
    case (Inr s1)
    then obtain t1 where "step t x = Inr t1" "eqv s1 t1"
      using eqv_step [OF Cons.prems(1) Inr] by blast
    then show ?thesis using Cons.IH [of s1 t1] Cons.prems(2) Inr by simp
  qed
qed simp

end

section \<open>Sequencing fallible steps\<close>

text \<open>Go's \<open>if err != nil { return err }\<close> between two steps.\<close>

definition andThen :: "'e + 'a \<Rightarrow> ('a \<Rightarrow> 'e + 'b) \<Rightarrow> 'e + 'b" where
  "andThen r f = (case r of Inl e \<Rightarrow> Inl e | Inr a \<Rightarrow> f a)"

lemma andThen_simps [simp]: "andThen (Inl e) f = Inl e" "andThen (Inr a) f = f a"
  by (simp_all add: andThen_def)

lemma andThen_Inr: "andThen r f = Inr b \<longleftrightarrow> (\<exists>a. r = Inr a \<and> f a = Inr b)"
  by (cases r) auto

lemma andThen_cong [fundef_cong]:
  "r = r' \<Longrightarrow> (\<And>a. r' = Inr a \<Longrightarrow> f a = f' a) \<Longrightarrow> andThen r f = andThen r' f'"
  by (cases r) auto

section \<open>Formatting\<close>

text \<open>The verb \<open>%d\<close> of \<open>fmt\<close> on a non-negative integer.\<close>

fun decimal :: "nat \<Rightarrow> string" where
  "decimal n =
     (if n < 10 then [char_of (48 + n)]
      else decimal (n div 10) @ [char_of (48 + n mod 10)])"

declare decimal.simps [simp del]

definition decimalInt :: "int \<Rightarrow> string" where
  "decimalInt i = (if i < 0 then ''-'' @ decimal (nat (- i)) else decimal (nat i))"

end
