(* ===== verification/Crdt_Document.thy ===== *)
theory Crdt_Document
  imports Prelude
begin

text \<open>
  The CRDT document of \<open>internal/crdt/document.go\<close>: character identities, characters,
  operations, and the operations \<open>Apply\<close> and \<open>Compact\<close> that change a document, with
  the invariants they keep. Ordering and text are in the theory \<open>Crdt_Snapshot\<close>.

  A method with a pointer receiver takes an \<^typ>\<open>'a option\<close>, \<^const>\<open>None\<close> being the nil
  receiver; a method that mutates its receiver returns the new value.
\<close>

section \<open>Data\<close>

text \<open>\<open>CharID\<close>: the site and the per-site counter, a 64-bit unsigned integer.\<close>

datatype CharID = CharID (SiteID: string) (Counter: u64)

text \<open>
  \<open>lessCharID\<close>: counters first, then sites byte by byte, as Go compares strings. It is a
  linear order, which is declared as the order of the type so that the sorting library applies.
\<close>

definition lessCharID :: "CharID \<Rightarrow> CharID \<Rightarrow> bool" where
  "lessCharID left right =
     (if Counter left \<noteq> Counter right then Counter left < Counter right
      else SiteID left < SiteID right)"

instantiation CharID :: linorder
begin

definition less_CharID :: "CharID \<Rightarrow> CharID \<Rightarrow> bool" where
  "less_CharID x y = lessCharID x y"

definition less_eq_CharID :: "CharID \<Rightarrow> CharID \<Rightarrow> bool" where
  "less_eq_CharID x y = (x = y \<or> lessCharID x y)"

instance
proof
  fix x y z :: CharID
  show "(x < y) = (x \<le> y \<and> \<not> y \<le> x)"
    by (auto simp: less_CharID_def less_eq_CharID_def lessCharID_def split: if_splits)
  show "x \<le> x" by (simp add: less_eq_CharID_def)
  show "x \<le> z" if "x \<le> y" "y \<le> z"
    using that by (auto simp: less_eq_CharID_def lessCharID_def split: if_splits)
  show "x = y" if "x \<le> y" "y \<le> x"
    using that by (auto simp: less_eq_CharID_def lessCharID_def split: if_splits)
  show "x \<le> y \<or> y \<le> x"
    by (cases x; cases y) (auto simp: less_eq_CharID_def lessCharID_def)
qed

end

text \<open>\<open>Char\<close>: one character; pointers to identities are options.\<close>

record crdt_char =
  ID :: CharID
  Value :: rune
  LeftID :: "CharID option"
  RightID :: "CharID option"
  Deleted :: bool

text \<open>\<open>OperationType\<close> is a string type with two named constants.\<close>

type_synonym OperationType = string

definition Insert :: OperationType where "Insert = ''insert''"

definition Delete :: OperationType where "Delete = ''delete''"

record Operation =
  opType :: OperationType
  opID :: CharID
  opValue :: rune
  opLeftID :: "CharID option"
  opRightID :: "CharID option"

text \<open>The sentinel errors and \<open>ApplyError\<close>, which wraps one of them.\<close>

datatype crdt_error =
  ErrInvalidOperation | ErrMissingParent | ErrUnknownCharacter | ErrConflictingDuplicate

record ApplyError =
  Cause :: crdt_error
  errID :: CharID
  Parent :: "CharID option"

fun crdt_error_text :: "crdt_error \<Rightarrow> string" where
  "crdt_error_text ErrInvalidOperation = ''invalid operation''"
| "crdt_error_text ErrMissingParent = ''missing parent''"
| "crdt_error_text ErrUnknownCharacter = ''unknown character''"
| "crdt_error_text ErrConflictingDuplicate = ''conflicting duplicate character''"

definition id_text :: "CharID \<Rightarrow> string" where
  "id_text i = SiteID i @ ''/'' @ decimal (unat (Counter i))"

definition ApplyError_Error :: "ApplyError \<Rightarrow> string" where
  "ApplyError_Error e =
     (case Parent e of
        Some p \<Rightarrow> crdt_error_text (Cause e) @ '': character '' @ id_text (errID e)
                  @ '' references missing parent '' @ id_text p
      | None \<Rightarrow> crdt_error_text (Cause e) @ '': character '' @ id_text (errID e))"

record Document =
  chars :: "(CharID \<times> crdt_char) list"

definition New :: Document where
  "New = \<lparr>chars = []\<rparr>"

section \<open>Helpers\<close>

definition sameCharID :: "CharID option \<Rightarrow> CharID option \<Rightarrow> bool" where
  "sameCharID left right =
     (if left = None \<or> right = None then left = None \<and> right = None
      else the left = the right)"

lemma sameCharID_eq [simp]: "sameCharID left right \<longleftrightarrow> left = right"
  by (cases left; cases right) (auto simp: sameCharID_def)

text \<open>\<open>cloneCharID\<close> and \<open>cloneChar\<close> copy what a pointer refers to.\<close>

definition cloneCharID :: "CharID option \<Rightarrow> CharID option" where
  "cloneCharID i = (case i of None \<Rightarrow> None | Some c \<Rightarrow> Some c)"

lemma cloneCharID_id [simp]: "cloneCharID i = i"
  by (cases i) (simp_all add: cloneCharID_def)

definition cloneChar :: "crdt_char \<Rightarrow> crdt_char" where
  "cloneChar c = c\<lparr>LeftID := cloneCharID (LeftID c), RightID := cloneCharID (RightID c)\<rparr>"

lemma cloneChar_id [simp]: "cloneChar c = c"
  by (simp add: cloneChar_def)

section \<open>Applying operations\<close>

definition invalidID :: "CharID \<Rightarrow> bool" where
  "invalidID i \<longleftrightarrow> SiteID i = '''' \<or> Counter i = 0"

text \<open>The two anchor checks of \<open>applyInsert\<close>: \<^const>\<open>None\<close> when the anchor passes.\<close>

definition leftAnchorError :: "Document \<Rightarrow> Operation \<Rightarrow> ApplyError option" where
  "leftAnchorError d op =
     (case opLeftID op of
        None \<Rightarrow> None
      | Some l \<Rightarrow>
          if SiteID l = '''' \<or> Counter l = 0 \<or> opID op = l
          then Some \<lparr>Cause = ErrInvalidOperation, errID = opID op, Parent = cloneCharID (Some l)\<rparr>
          else if map_of (chars d) l = None
          then Some \<lparr>Cause = ErrMissingParent, errID = opID op, Parent = cloneCharID (Some l)\<rparr>
          else None)"

definition rightAnchorError :: "Operation \<Rightarrow> ApplyError option" where
  "rightAnchorError op =
     (case opRightID op of
        None \<Rightarrow> None
      | Some r \<Rightarrow>
          if SiteID r = '''' \<or> Counter r = 0 \<or> opID op = r \<or> sameCharID (opLeftID op) (Some r)
          then Some \<lparr>Cause = ErrInvalidOperation, errID = opID op, Parent = cloneCharID (Some r)\<rparr>
          else None)"

definition newChar :: "Operation \<Rightarrow> crdt_char" where
  "newChar op =
     \<lparr>ID = opID op, Value = opValue op, LeftID = cloneCharID (opLeftID op),
      RightID = cloneCharID (opRightID op), Deleted = False\<rparr>"

definition applyInsert :: "Document \<Rightarrow> Operation \<Rightarrow> ApplyError + Document" where
  "applyInsert d op =
     (case map_of (chars d) (opID op) of
        Some existing \<Rightarrow>
          if Value existing = opValue op \<and> sameCharID (LeftID existing) (opLeftID op)
             \<and> sameCharID (RightID existing) (opRightID op)
          then Inr d
          else Inl \<lparr>Cause = ErrConflictingDuplicate, errID = opID op, Parent = None\<rparr>
      | None \<Rightarrow>
          (case leftAnchorError d op of
             Some e \<Rightarrow> Inl e
           | None \<Rightarrow>
               (case rightAnchorError op of
                  Some e \<Rightarrow> Inl e
                | None \<Rightarrow> Inr (d\<lparr>chars := AList.update (opID op) (newChar op) (chars d)\<rparr>))))"

definition applyDelete :: "Document \<Rightarrow> CharID \<Rightarrow> ApplyError + Document" where
  "applyDelete d i =
     (case map_of (chars d) i of
        None \<Rightarrow> Inl \<lparr>Cause = ErrUnknownCharacter, errID = i, Parent = None\<rparr>
      | Some c \<Rightarrow>
          if Deleted c then Inr d
          else Inr (d\<lparr>chars := AList.update i (c\<lparr>Deleted := True\<rparr>) (chars d)\<rparr>))"

definition Apply :: "Document option \<Rightarrow> Operation \<Rightarrow> ApplyError + Document" where
  "Apply receiver op =
     (case receiver of
        None \<Rightarrow> Inl \<lparr>Cause = ErrInvalidOperation, errID = opID op, Parent = None\<rparr>
      | Some d \<Rightarrow>
          if SiteID (opID op) = '''' \<or> Counter (opID op) = 0
          then Inl \<lparr>Cause = ErrInvalidOperation, errID = opID op, Parent = None\<rparr>
          else if opType op = Insert then applyInsert d op
          else if opType op = Delete then applyDelete d (opID op)
          else Inl \<lparr>Cause = ErrInvalidOperation, errID = opID op, Parent = None\<rparr>)"

section \<open>Compaction\<close>

fun compactLoop :: "CharID list \<Rightarrow> Document \<Rightarrow> nat \<Rightarrow> nat \<times> Document" where
  "compactLoop [] d purged = (purged, d)"
| "compactLoop (i # ids) d purged =
     (case map_of (chars d) i of
        None \<Rightarrow> compactLoop ids d purged
      | Some c \<Rightarrow>
          if \<not> Deleted c then compactLoop ids d purged
          else compactLoop ids (d\<lparr>chars := AList.delete i (chars d)\<rparr>) (purged + 1))"

definition Compact :: "Document option \<Rightarrow> CharID list \<Rightarrow> crdt_error + (nat \<times> Document)" where
  "Compact receiver ids =
     (case receiver of
        None \<Rightarrow> Inl ErrInvalidOperation
      | Some d \<Rightarrow> Inr (compactLoop ids d 0))"

section \<open>What an operation does to the stored characters\<close>

definition lookupChar :: "Document \<Rightarrow> CharID \<rightharpoonup> crdt_char" where
  "lookupChar d = map_of (chars d)"

text \<open>The map an operation leads to, given that it is accepted.\<close>

definition afterOp :: "(CharID \<rightharpoonup> crdt_char) \<Rightarrow> Operation \<Rightarrow> (CharID \<rightharpoonup> crdt_char)" where
  "afterOp m op =
     (if opType op = Insert
      then (if m (opID op) = None then m(opID op \<mapsto> newChar op) else m)
      else (case m (opID op) of None \<Rightarrow> m | Some c \<Rightarrow> m(opID op \<mapsto> c\<lparr>Deleted := True\<rparr>)))"

lemma Insert_neq_Delete [simp]: "Insert \<noteq> Delete" "Delete \<noteq> Insert"
  by (simp_all add: Insert_def Delete_def)

text \<open>Case analysis of an accepted operation.\<close>

lemma Apply_InrE [consumes 1, case_names duplicate insert tombstone delete]:
  assumes "Apply (Some d) op = Inr d'"
  obtains
    (duplicate) c where "opType op = Insert" "\<not> invalidID (opID op)" "lookupChar d (opID op) = Some c"
      "c\<lparr>Deleted := False\<rparr> = (newChar op)\<lparr>ID := ID c\<rparr>" "d' = d"
  | (insert) "opType op = Insert" "\<not> invalidID (opID op)" "lookupChar d (opID op) = None"
      "\<And>l. opLeftID op = Some l \<Longrightarrow> \<not> invalidID l \<and> l \<noteq> opID op \<and> lookupChar d l \<noteq> None"
      "\<And>r. opRightID op = Some r \<Longrightarrow> \<not> invalidID r \<and> r \<noteq> opID op \<and> opLeftID op \<noteq> Some r"
      "d' = d\<lparr>chars := AList.update (opID op) (newChar op) (chars d)\<rparr>"
  | (tombstone) c where "opType op = Delete" "\<not> invalidID (opID op)" "lookupChar d (opID op) = Some c"
      "Deleted c" "d' = d"
  | (delete) c where "opType op = Delete" "\<not> invalidID (opID op)" "lookupChar d (opID op) = Some c"
      "\<not> Deleted c" "d' = d\<lparr>chars := AList.update (opID op) (c\<lparr>Deleted := True\<rparr>) (chars d)\<rparr>"
proof -
  have valid: "\<not> invalidID (opID op)"
    using assms by (auto simp: Apply_def invalidID_def split: if_splits)
  consider "opType op = Insert" "applyInsert d op = Inr d'"
    | "opType op = Delete" "applyDelete d (opID op) = Inr d'"
    using assms by (auto simp: Apply_def split: if_splits)
  then show ?thesis
  proof cases
    case 1
    show ?thesis
    proof (cases "map_of (chars d) (opID op)")
      case None
      with 1 have e: "leftAnchorError d op = None" "rightAnchorError op = None"
        and d': "d' = d\<lparr>chars := AList.update (opID op) (newChar op) (chars d)\<rparr>"
        by (auto simp: applyInsert_def split: option.splits)
      show ?thesis
        using 1 valid None d' e
        by (intro insert)
          (auto simp: lookupChar_def leftAnchorError_def rightAnchorError_def invalidID_def
            split: option.splits if_splits)
    next
      case (Some c)
      with 1 have "Value c = opValue op" "LeftID c = opLeftID op" "RightID c = opRightID op" "d' = d"
        by (auto simp: applyInsert_def split: if_splits)
      with 1 valid Some show ?thesis
        by (intro duplicate [of c]) (auto simp: lookupChar_def newChar_def)
    qed
  next
    case 2
    then obtain c where c: "map_of (chars d) (opID op) = Some c"
      by (auto simp: applyDelete_def split: option.splits)
    show ?thesis
    proof (cases "Deleted c")
      case True
      with 2 c valid show ?thesis by (intro tombstone [of c]) (auto simp: applyDelete_def lookupChar_def)
    next
      case False
      with 2 c valid show ?thesis by (intro delete [of c]) (auto simp: applyDelete_def lookupChar_def)
    qed
  qed
qed

lemma lookup_Apply: "Apply (Some d) op = Inr d' \<Longrightarrow> lookupChar d' = afterOp (lookupChar d) op"
proof (induction rule: Apply_InrE)
  case (tombstone c)
  then have "c\<lparr>Deleted := True\<rparr> = c" by simp
  with tombstone show ?case by (auto simp: afterOp_def fun_eq_iff)
qed (auto simp: afterOp_def lookupChar_def)

section \<open>Well-formed documents\<close>

text \<open>
  Every entry is stored under its own identity, identities and anchors are non-zero, and no
  character is anchored to itself or to one character on both sides.
\<close>

definition wfChar :: "CharID \<Rightarrow> crdt_char \<Rightarrow> bool" where
  "wfChar k c \<longleftrightarrow> ID c = k \<and> \<not> invalidID k
     \<and> (case LeftID c of None \<Rightarrow> True | Some l \<Rightarrow> \<not> invalidID l \<and> l \<noteq> k)
     \<and> (case RightID c of None \<Rightarrow> True | Some r \<Rightarrow> \<not> invalidID r \<and> r \<noteq> k \<and> LeftID c \<noteq> Some r)"

definition wfDoc :: "Document \<Rightarrow> bool" where
  "wfDoc d \<longleftrightarrow> distinct (map fst (chars d)) \<and> list_all (\<lambda>(k, c). wfChar k c) (chars d)"

lemma wfDocI:
  "distinct (map fst (chars d)) \<Longrightarrow> (\<And>k c. lookupChar d k = Some c \<Longrightarrow> wfChar k c) \<Longrightarrow> wfDoc d"
  by (auto simp: wfDoc_def lookupChar_def list_all_iff)

lemma wfDoc_lookup: "wfDoc d \<Longrightarrow> lookupChar d k = Some c \<Longrightarrow> wfChar k c"
  by (auto simp: wfDoc_def lookupChar_def list_all_iff dest: map_of_SomeD)

lemma wfDoc_distinct: "wfDoc d \<Longrightarrow> distinct (map fst (chars d))"
  by (simp add: wfDoc_def)

lemma wfDoc_lookup_ID: "wfDoc d \<Longrightarrow> lookupChar d k = Some c \<Longrightarrow> ID c = k"
  by (auto dest: wfDoc_lookup simp: wfChar_def)

lemma wfDoc_New [gopad_inv]: "wfDoc New"
  by (simp add: wfDoc_def New_def)

lemma wfDoc_Apply [gopad_inv]:
  assumes "wfDoc d" "Apply (Some d) op = Inr d'"
  shows "wfDoc d'"
  using assms(2)
proof (cases rule: Apply_InrE)
  case insert
  have "wfChar (opID op) (newChar op)"
    using insert by (auto simp: wfChar_def newChar_def split: option.splits)
  then show ?thesis
    using insert(6) wfDoc_lookup [OF assms(1)] wfDoc_distinct [OF assms(1)]
    by (intro wfDocI) (auto simp: lookupChar_def split: if_splits)
next
  case (delete c)
  have "wfChar (opID op) (c\<lparr>Deleted := True\<rparr>)"
    using wfDoc_lookup [OF assms(1) delete(3)] by (auto simp: wfChar_def split: option.splits)
  then show ?thesis
    using delete(5) wfDoc_lookup [OF assms(1)] wfDoc_distinct [OF assms(1)]
    by (intro wfDocI) (auto simp: lookupChar_def split: if_splits)
qed (use assms in simp_all)

text \<open>Documents that store the same characters are the same replica state.\<close>

definition sameChars :: "Document \<Rightarrow> Document \<Rightarrow> bool" where
  "sameChars d e \<longleftrightarrow> lookupChar d = lookupChar e"

lemma Apply_cong_lookup:
  assumes "lookupChar d = lookupChar e"
  shows "map_sum id lookupChar (Apply (Some d) op) = map_sum id lookupChar (Apply (Some e) op)"
  using assms
  by (auto simp: Apply_def applyInsert_def applyDelete_def leftAnchorError_def lookupChar_def
      split: option.splits if_splits)

interpretation crdt: op_log "\<lambda>d. Apply (Some d)" wfDoc sameChars
proof
  fix d e op err
  assume same: "sameChars d e"
  note cong = Apply_cong_lookup [OF same [unfolded sameChars_def], of op]
  show "Apply (Some e) op = Inl err" if "Apply (Some d) op = Inl err"
    using cong that by (cases "Apply (Some e) op") auto
  show "\<exists>e'. Apply (Some e) op = Inr e' \<and> sameChars d' e'" if "Apply (Some d) op = Inr d'" for d'
    using cong that by (cases "Apply (Some e) op") (auto simp: sameChars_def)
qed (auto simp: sameChars_def intro: wfDoc_Apply)

section \<open>Characters anchored at the start of the document\<close>

text \<open>
  The left anchors form a forest; a character is anchored when its chain of left anchors
  reaches the start of the document inside the document.
\<close>

inductive anchored :: "(CharID \<rightharpoonup> crdt_char) \<Rightarrow> CharID \<Rightarrow> bool" for m where
  start: "m k = Some c \<Longrightarrow> LeftID c = None \<Longrightarrow> anchored m k"
| after: "m k = Some c \<Longrightarrow> LeftID c = Some l \<Longrightarrow> anchored m l \<Longrightarrow> anchored m k"

inductive_cases anchoredE: "anchored m k"

definition rooted :: "Document \<Rightarrow> bool" where
  "rooted d \<longleftrightarrow> (\<forall>k \<in> dom (lookupChar d). anchored (lookupChar d) k)"

lemma anchored_mono:
  assumes "anchored m k"
    and "\<And>k c. m k = Some c \<Longrightarrow> \<exists>c'. m' k = Some c' \<and> LeftID c' = LeftID c"
  shows "anchored m' k"
  using assms(1)
proof (induction rule: anchored.induct)
  case (start k c)
  with assms(2) show ?case by (metis anchored.start)
next
  case (after k c l)
  with assms(2) show ?case by (metis anchored.after)
qed

lemma anchored_afterOp:
  assumes "anchored m k" shows "anchored (afterOp m op) k"
  using assms by (rule anchored_mono) (auto simp: afterOp_def split: option.splits)

lemma rooted_New [gopad_inv]: "rooted New"
  by (simp add: rooted_def New_def lookupChar_def)

lemma rooted_Apply [gopad_inv]:
  assumes "rooted d" "Apply (Some d) op = Inr d'"
  shows "rooted d'"
proof -
  have eq: "lookupChar d' = afterOp (lookupChar d) op" using assms(2) by (rule lookup_Apply)
  have old: "anchored (lookupChar d') k" if "k \<in> dom (lookupChar d)" for k
    using assms(1) that unfolding eq rooted_def by (blast intro: anchored_afterOp)
  from assms(2) show ?thesis
  proof (cases rule: Apply_InrE)
    case insert
    have new: "lookupChar d' (opID op) = Some (newChar op)"
      using insert(1,3) by (simp add: eq afterOp_def)
    have "anchored (lookupChar d') (opID op)"
    proof (cases "opLeftID op")
      case None
      then show ?thesis using new by (auto intro: anchored.start simp: newChar_def)
    next
      case (Some l)
      then have "anchored (lookupChar d') l" using insert(4) old by blast
      then show ?thesis using new Some by (auto intro: anchored.after simp: newChar_def)
    qed
    moreover have "dom (lookupChar d') = Set.insert (opID op) (dom (lookupChar d))"
      using insert(1,3) by (simp add: eq afterOp_def)
    ultimately show ?thesis using old by (auto simp: rooted_def)
  next
    case (delete c)
    then have "dom (lookupChar d') = dom (lookupChar d)" by (auto simp: lookupChar_def)
    then show ?thesis using old by (simp add: rooted_def)
  qed (use assms in simp_all)
qed

lemma rooted_replay:
  "rooted d \<Longrightarrow> replay (\<lambda>d. Apply (Some d)) d ops = Inr d' \<Longrightarrow> rooted d'"
  by (induction ops arbitrary: d) (auto split: sum.splits dest: rooted_Apply)

section \<open>Replicas that received the same operations\<close>

text \<open>
  The abstract state of a replica: what the set of accepted operations says about each
  character, with no reference to the order of delivery.
\<close>

definition insertsOf :: "Operation set \<Rightarrow> CharID \<Rightarrow> Operation set" where
  "insertsOf S k = {op \<in> S. opType op = Insert \<and> opID op = k}"

definition deletesOf :: "Operation set \<Rightarrow> CharID \<Rightarrow> Operation set" where
  "deletesOf S k = {op \<in> S. opType op = Delete \<and> opID op = k}"

definition stateOf :: "Operation set \<Rightarrow> CharID \<Rightarrow> crdt_char \<Rightarrow> bool" where
  "stateOf S k c \<longleftrightarrow>
     (\<exists>op \<in> insertsOf S k. c = (newChar op)\<lparr>Deleted := deletesOf S k \<noteq> {}\<rparr>)"

lemma insertsOf_insert [simp]:
  "insertsOf (Set.insert op S) k =
     (if opType op = Insert \<and> opID op = k then Set.insert op (insertsOf S k) else insertsOf S k)"
  by (auto simp: insertsOf_def)

lemma deletesOf_insert [simp]:
  "deletesOf (Set.insert op S) k =
     (if opType op = Delete \<and> opID op = k then Set.insert op (deletesOf S k) else deletesOf S k)"
  by (auto simp: deletesOf_def)

lemma stateOf_other:
  "opID op \<noteq> k \<Longrightarrow> stateOf (Set.insert op S) k c = stateOf S k c"
  by (simp add: stateOf_def)

text \<open>
  A run from the empty document: a delete is accepted only after its insert, and inserts that
  share an identity agree.
\<close>

lemma replay_state:
  assumes "replay (\<lambda>d. Apply (Some d)) New ops = Inr d"
  shows "lookupChar d k = Some c \<longleftrightarrow> stateOf (set ops) k c"
    and "lookupChar d k = None \<Longrightarrow> deletesOf (set ops) k = {}"
proof -
  have "(\<forall>k c. lookupChar d k = Some c \<longleftrightarrow> stateOf (set ops) k c) \<and>
        (\<forall>k. lookupChar d k = None \<longrightarrow> deletesOf (set ops) k = {})"
    using assms
  proof (induction ops arbitrary: d rule: rev_induct)
    case Nil
    then show ?case
      by (auto simp: New_def lookupChar_def stateOf_def insertsOf_def deletesOf_def)
  next
    case (snoc op ops)
    obtain e where e: "replay (\<lambda>d. Apply (Some d)) New ops = Inr e" "Apply (Some e) op = Inr d"
      using snoc.prems by (rule replay_snocE)
    note IH = snoc.IH [OF e(1)]
    have wf: "wfDoc e" using crdt.invar_replay [OF wfDoc_New e(1)] .
    have eq: "lookupChar d = afterOp (lookupChar e) op" using e(2) by (rule lookup_Apply)
    from e(2) show ?case
    proof (cases rule: Apply_InrE)
      case (duplicate c0)
      have "ID c0 = opID op" using wf duplicate(3) by (rule wfDoc_lookup_ID)
      with duplicate(4) have c0: "c0 = (newChar op)\<lparr>Deleted := Deleted c0\<rparr>"
        by (cases c0) (simp add: newChar_def)
      have "stateOf (set ops) (opID op) c0" using IH duplicate(3) by blast
      then have "Deleted c0 = (deletesOf (set ops) (opID op) \<noteq> {})"
        by (auto simp: stateOf_def)
      with c0 IH duplicate show ?thesis
        by (auto simp: stateOf_def)
    next
      case insert
      have none: "insertsOf (set ops) (opID op) = {}"
        using IH [THEN conjunct1, rule_format, of "opID op"] insert(3)
        unfolding stateOf_def by (metis (no_types, lifting) equals0I option.distinct(1))
      have nodel: "deletesOf (set ops) (opID op) = {}" using IH insert(3) by blast
      have l: "lookupChar d = (lookupChar e)(opID op \<mapsto> newChar op)"
        using insert(1,3) by (simp add: eq afterOp_def)
      have "newChar op\<lparr>Deleted := False\<rparr> = newChar op" by (simp add: newChar_def)
      with none nodel IH insert(1) show ?thesis
        by (auto simp: l stateOf_def)
    next
      case (tombstone c0)
      then have "stateOf (set ops) (opID op) c0" using IH by blast
      then have "deletesOf (set ops) (opID op) \<noteq> {}" using tombstone(4) by (auto simp: stateOf_def)
      with IH tombstone show ?thesis by (auto simp: stateOf_def)
    next
      case (delete c0)
      have l: "lookupChar d = (lookupChar e)(opID op \<mapsto> c0\<lparr>Deleted := True\<rparr>)"
        using delete(1,3) by (simp add: eq afterOp_def)
      have c0: "stateOf (set ops) (opID op) c0" using IH delete(3) by blast
      have uniq: "stateOf (set ops) (opID op) c \<Longrightarrow> c = c0" for c using IH delete(3) by (metis option.inject)
      have same: "(newChar x)\<lparr>Deleted := True\<rparr> = c0\<lparr>Deleted := True\<rparr>"
        if "x \<in> insertsOf (set ops) (opID op)" for x
        using uniq that arg_cong [where f = "\<lambda>c. c\<lparr>Deleted := True\<rparr>"]
        by (fastforce simp: stateOf_def)
      obtain x where "x \<in> insertsOf (set ops) (opID op)" using c0 by (auto simp: stateOf_def)
      then have "stateOf (Set.insert op (set ops)) (opID op) c \<longleftrightarrow> c = c0\<lparr>Deleted := True\<rparr>" for c
        using same delete(1) by (auto simp: stateOf_def)
      then show ?thesis using IH delete(1) by (auto simp: l stateOf_other)
    qed
  qed
  then show "lookupChar d k = Some c \<longleftrightarrow> stateOf (set ops) k c"
    and "lookupChar d k = None \<Longrightarrow> deletesOf (set ops) k = {}" by blast+
qed

lemma replay_same_set:
  assumes "replay (\<lambda>d. Apply (Some d)) New ops = Inr d"
    and "replay (\<lambda>d. Apply (Some d)) New ops' = Inr d'"
    and "set ops = set ops'"
  shows "lookupChar d = lookupChar d'"
proof
  fix k
  show "lookupChar d k = lookupChar d' k"
    using replay_state(1) [OF assms(1), of k] replay_state(1) [OF assms(2), of k] assms(3)
    by (cases "lookupChar d k"; cases "lookupChar d' k") auto
qed

section \<open>Compaction\<close>

definition isTombstone :: "Document \<Rightarrow> CharID \<Rightarrow> bool" where
  "isTombstone d k \<longleftrightarrow> (\<exists>c. lookupChar d k = Some c \<and> Deleted c)"

lemma isTombstone_code [code]:
  "isTombstone d k = (case lookupChar d k of None \<Rightarrow> False | Some c \<Rightarrow> Deleted c)"
  by (auto simp: isTombstone_def split: option.splits)

lemma compactLoop_spec:
  assumes "compactLoop ids d n = (purged, d')"
  shows "lookupChar d' k = (if k \<in> set ids \<and> isTombstone d k then None else lookupChar d k)"
    and "purged = n + card {k \<in> set ids. isTombstone d k}"
    and "wfDoc d \<Longrightarrow> wfDoc d'"
proof -
  have "(\<forall>k. lookupChar d' k = (if k \<in> set ids \<and> isTombstone d k then None else lookupChar d k))
     \<and> purged = n + card {k \<in> set ids. isTombstone d k} \<and> (wfDoc d \<longrightarrow> wfDoc d')"
    using assms
  proof (induction ids arbitrary: d n)
    case (Cons i ids)
    show ?case
    proof (cases "isTombstone d i")
      case False
      then have "compactLoop ids d n = (purged, d')"
        using Cons.prems by (auto simp: isTombstone_def lookupChar_def split: option.splits)
      moreover have "{k \<in> set (i # ids). isTombstone d k} = {k \<in> set ids. isTombstone d k}"
        using False by auto
      ultimately show ?thesis using Cons.IH [of d n] False by auto
    next
      case True
      define e where "e = d\<lparr>chars := AList.delete i (chars d)\<rparr>"
      have run: "compactLoop ids e (n + 1) = (purged, d')"
        using Cons.prems True
        by (auto simp: isTombstone_def lookupChar_def e_def split: option.splits)
      have le: "lookupChar e = (lookupChar d)(i := None)" by (simp add: e_def lookupChar_def)
      have te: "isTombstone e k \<longleftrightarrow> k \<noteq> i \<and> isTombstone d k" for k
        by (auto simp: isTombstone_def le)
      have "{k \<in> set (i # ids). isTombstone d k} = Set.insert i {k \<in> set ids. isTombstone e k}"
        using True te by auto
      then have "card {k \<in> set (i # ids). isTombstone d k} = Suc (card {k \<in> set ids. isTombstone e k})"
        by (simp add: te)
      moreover have "wfDoc d \<Longrightarrow> wfDoc e"
        by (rule wfDocI) (auto simp: e_def lookupChar_def wfDoc_def list_all_iff
            split: if_splits dest: map_of_SomeD)
      ultimately show ?thesis using Cons.IH [OF run] True by (auto simp: te le)
    qed
  qed simp
  then show "lookupChar d' k = (if k \<in> set ids \<and> isTombstone d k then None else lookupChar d k)"
    and "purged = n + card {k \<in> set ids. isTombstone d k}"
    and "wfDoc d \<Longrightarrow> wfDoc d'" by blast+
qed

end
