(* ===== verification/Heap.thy ===== *)
theory Heap
  imports Prelude
begin

text \<open>
  The binary heap of Go's standard package \<open>container/heap\<close>, which
  \<open>Document.Snapshot\<close> uses as its ready queue, over a slice of items compared by an
  integer key, and the interface \<open>ready_queue\<close> its client relies on: an item popped has
  the least key, and pushing and popping change the stored items by exactly that item.
\<close>

section \<open>The heap operations\<close>

text \<open>\<open>Swap(i, j)\<close> of a slice.\<close>

definition heapSwap :: "'a list \<Rightarrow> nat \<Rightarrow> nat \<Rightarrow> 'a list" where
  "heapSwap xs i j = xs[i := xs ! j, j := xs ! i]"

text \<open>
  \<open>up\<close>: move item \<open>j\<close> towards the root while it is smaller than its parent. Go computes
  the parent as \<open>(j - 1) / 2\<close>, which truncates to \<open>0\<close> at \<open>j = 0\<close>, as natural
  subtraction does here.
\<close>

function up :: "('a \<Rightarrow> nat) \<Rightarrow> 'a list \<Rightarrow> nat \<Rightarrow> 'a list" where
  "up key xs j =
     (let i = (j - 1) div 2
      in if i = j \<or> \<not> key (xs ! j) < key (xs ! i) then xs
         else up key (heapSwap xs i j) i)"
  by pat_completeness auto
termination
  by (relation "measure (\<lambda>(key, xs, j). j)") auto

text \<open>\<open>down\<close>: move item \<open>i\<close> towards the leaves among the first \<open>n\<close> items.\<close>

function down :: "('a \<Rightarrow> nat) \<Rightarrow> 'a list \<Rightarrow> nat \<Rightarrow> nat \<Rightarrow> 'a list" where
  "down key xs i n =
     (let j1 = 2 * i + 1
      in if j1 \<ge> n then xs
         else let j2 = j1 + 1;
                  j = (if j2 < n \<and> key (xs ! j2) < key (xs ! j1) then j2 else j1)
              in if \<not> key (xs ! j) < key (xs ! i) then xs
                 else down key (heapSwap xs i j) j n)"
  by pat_completeness auto
termination
  by (relation "measure (\<lambda>(key, xs, i, n). n - i)") (auto simp: Let_def)

declare up.simps [simp del] down.simps [simp del]

text \<open>\<open>heap.Init\<close>: \<open>down\<close> from the last inner node to the root.\<close>

fun init_from :: "('a \<Rightarrow> nat) \<Rightarrow> 'a list \<Rightarrow> nat \<Rightarrow> 'a list" where
  "init_from key xs 0 = xs"
| "init_from key xs (Suc i) = init_from key (down key xs i (length xs)) i"

definition heap_Init :: "('a \<Rightarrow> nat) \<Rightarrow> 'a list \<Rightarrow> 'a list" where
  "heap_Init key xs = init_from key xs (length xs div 2)"

text \<open>\<open>heap.Push\<close>: append the item, then \<open>up\<close> from the last index.\<close>

definition heap_Push :: "('a \<Rightarrow> nat) \<Rightarrow> 'a \<Rightarrow> 'a list \<Rightarrow> 'a list" where
  "heap_Push key x xs = up key (xs @ [x]) (length xs)"

text \<open>
  \<open>heap.Pop\<close>: swap the root with the last item, restore the order of the others with
  \<open>down\<close>, and take the last item off. It panics on an empty heap (index \<open>-1\<close>).
\<close>

definition heap_Pop :: "('a \<Rightarrow> nat) \<Rightarrow> 'a list \<Rightarrow> ('a \<times> 'a list) option" where
  "heap_Pop key xs =
     (if xs = [] then None
      else let n = length xs - 1; ys = down key (heapSwap xs 0 n) 0 n
           in Some (last ys, butlast ys))"

section \<open>Lengths and contents\<close>

lemma length_heapSwap [simp]: "length (heapSwap xs i j) = length xs"
  by (simp add: heapSwap_def)

lemma mset_heapSwap [simp]:
  "i < length xs \<Longrightarrow> j < length xs \<Longrightarrow> mset (heapSwap xs i j) = mset xs"
  by (simp add: heapSwap_def mset_swap)

lemma nth_heapSwap:
  assumes "i < length xs" "j < length xs"
  shows "heapSwap xs i j ! k = (if k = j then xs ! i else if k = i then xs ! j else xs ! k)"
  using assms by (cases "k = j") (auto simp: heapSwap_def nth_list_update)

lemma length_up [simp]: "length (up key xs j) = length xs"
  by (induction key xs j rule: up.induct) (subst up.simps, simp add: Let_def)

lemma mset_up: "j < length xs \<Longrightarrow> mset (up key xs j) = mset xs"
proof (induction key xs j rule: up.induct)
  case (1 key xs j)
  then show ?case by (subst up.simps) (simp add: Let_def)
qed

lemma length_down [simp]: "length (down key xs i n) = length xs"
  by (induction key xs i n rule: down.induct) (subst down.simps, simp add: Let_def)

lemma mset_down: "n \<le> length xs \<Longrightarrow> mset (down key xs i n) = mset xs"
proof (induction key xs i n rule: down.induct)
  case (1 key xs i n)
  then show ?case by (subst down.simps) (auto simp: Let_def)
qed

text \<open>\<open>down\<close> leaves everything at index \<open>n\<close> and above in place.\<close>

lemma nth_down_beyond: "n \<le> k \<Longrightarrow> n \<le> length xs \<Longrightarrow> down key xs i n ! k = xs ! k"
proof (induction key xs i n rule: down.induct)
  case (1 key xs i n)
  then show ?case by (subst down.simps) (auto simp: Let_def nth_heapSwap)
qed

section \<open>The heap order\<close>

definition parent_le :: "('a \<Rightarrow> nat) \<Rightarrow> 'a list \<Rightarrow> nat \<Rightarrow> bool" where
  "parent_le key xs k \<longleftrightarrow> key (xs ! ((k - 1) div 2)) \<le> key (xs ! k)"

definition heap_ok :: "('a \<Rightarrow> nat) \<Rightarrow> 'a list \<Rightarrow> nat \<Rightarrow> bool" where
  "heap_ok key xs n \<longleftrightarrow> (\<forall>k. 0 < k \<and> k < n \<longrightarrow> parent_le key xs k)"

definition is_heap :: "('a \<Rightarrow> nat) \<Rightarrow> 'a list \<Rightarrow> bool" where
  "is_heap key xs \<longleftrightarrow> heap_ok key xs (length xs)"

text \<open>
  The state inside \<open>up\<close>: only index \<open>j\<close> may be below its parent, and the children of
  \<open>j\<close> are not below the parent of \<open>j\<close>.
\<close>

definition up_inv :: "('a \<Rightarrow> nat) \<Rightarrow> 'a list \<Rightarrow> nat \<Rightarrow> bool" where
  "up_inv key xs j \<longleftrightarrow>
     (\<forall>k. 0 < k \<and> k < length xs \<and> k \<noteq> j \<longrightarrow> parent_le key xs k) \<and>
     (\<forall>k. 0 < k \<and> k < length xs \<and> (k - 1) div 2 = j \<and> 0 < j \<longrightarrow>
        key (xs ! ((j - 1) div 2)) \<le> key (xs ! k))"

lemma up_inv_step:
  assumes inv: "up_inv key xs j" and j: "j < length xs" "0 < j"
    and less: "key (xs ! j) < key (xs ! ((j - 1) div 2))"
  shows "up_inv key (heapSwap xs ((j - 1) div 2) j) ((j - 1) div 2)"
proof -
  let ?i = "(j - 1) div 2" and ?ys = "heapSwap xs ((j - 1) div 2) j"
  have i: "?i < j" using j by auto
  have 1: "parent_le key ?ys k" if k: "0 < k" "k < length xs" "k \<noteq> ?i" for k
  proof -
    have pk: "(k - 1) div 2 \<noteq> k" using k by auto
    have old: "k \<noteq> j \<Longrightarrow> key (xs ! ((k - 1) div 2)) \<le> key (xs ! k)"
      using inv k unfolding up_inv_def parent_le_def by blast
    have grand: "(k - 1) div 2 = j \<Longrightarrow> key (xs ! ?i) \<le> key (xs ! k)"
      using inv k j unfolding up_inv_def by blast
    consider "k = j" | "k \<noteq> j" "(k - 1) div 2 = ?i" | "k \<noteq> j" "(k - 1) div 2 = j"
      | "k \<noteq> j" "(k - 1) div 2 \<noteq> ?i" "(k - 1) div 2 \<noteq> j" by blast
    then show ?thesis
      using k(3) pk old grand less i j unfolding parent_le_def by cases (auto simp: nth_heapSwap)
  qed
  have 2: "key (?ys ! ((?i - 1) div 2)) \<le> key (?ys ! k)"
    if k: "0 < k" "k < length xs" "(k - 1) div 2 = ?i" "0 < ?i" for k
  proof -
    have ii: "(?i - 1) div 2 < ?i" using k(4) by auto
    have "k \<noteq> ?i" using k by auto
    have le: "key (xs ! ((?i - 1) div 2)) \<le> key (xs ! ?i)"
      using inv j i k(4) unfolding up_inv_def parent_le_def by auto
    show ?thesis
    proof (cases "k = j")
      case True
      then show ?thesis using le ii i j by (auto simp: nth_heapSwap)
    next
      case False
      then have "key (xs ! ?i) \<le> key (xs ! k)"
        using inv k unfolding up_inv_def parent_le_def by metis
      then show ?thesis using le ii i j False \<open>k \<noteq> ?i\<close> by (auto simp: nth_heapSwap)
    qed
  qed
  show ?thesis
    unfolding up_inv_def using 1 2 by simp
qed

lemma heap_ok_up:
  "up_inv key xs j \<Longrightarrow> j < length xs \<Longrightarrow> heap_ok key (up key xs j) (length xs)"
proof (induction key xs j rule: up.induct)
  case (1 key xs j)
  let ?i = "(j - 1) div 2"
  show ?case
  proof (cases "?i = j \<or> \<not> key (xs ! j) < key (xs ! ?i)")
    case True
    have "parent_le key xs k" if k: "0 < k" "k < length xs" for k
    proof (cases "k = j")
      case True
      with \<open>?i = j \<or> _\<close> k show ?thesis by (auto simp: parent_le_def)
    qed (use "1.prems" k in \<open>auto simp: up_inv_def\<close>)
    then show ?thesis using True by (subst up.simps) (auto simp: heap_ok_def)
  next
    case False
    then have "0 < j" by (cases j) auto
    with False "1.prems" have "up_inv key (heapSwap xs ?i j) ?i" by (intro up_inv_step) auto
    with False "1.IH" [of ?i] "1.prems"(2) show ?thesis
      by (subst up.simps) (auto simp: Let_def)
  qed
qed

text \<open>
  The state inside \<open>down\<close>: only the children of \<open>i\<close> may be below \<open>i\<close>, and they are
  not below the parent of \<open>i\<close>.
\<close>

definition down_inv :: "('a \<Rightarrow> nat) \<Rightarrow> 'a list \<Rightarrow> nat \<Rightarrow> nat \<Rightarrow> bool" where
  "down_inv key xs i n \<longleftrightarrow>
     (\<forall>k. 0 < k \<and> k < n \<and> (k - 1) div 2 \<noteq> i \<longrightarrow> parent_le key xs k) \<and>
     (\<forall>k. 0 < k \<and> k < n \<and> (k - 1) div 2 = i \<and> 0 < i \<longrightarrow>
        key (xs ! ((i - 1) div 2)) \<le> key (xs ! k))"

lemma heap_child_cases:
  "0 < k \<Longrightarrow> (k - 1) div 2 = i \<Longrightarrow> k = 2 * i + 1 \<or> k = 2 * i + 2" for k i :: nat
  by arith

lemma down_inv_step:
  assumes inv: "down_inv key xs i n" and n: "n \<le> length xs" "j < n"
    and j: "0 < j" "(j - 1) div 2 = i"
    and least: "\<And>k. 0 < k \<Longrightarrow> k < n \<Longrightarrow> (k - 1) div 2 = i \<Longrightarrow> key (xs ! j) \<le> key (xs ! k)"
    and less: "key (xs ! j) < key (xs ! i)"
  shows "down_inv key (heapSwap xs i j) j n"
proof -
  have i: "i < j" using j by auto
  have 1: "parent_le key (heapSwap xs i j) k" if k: "0 < k" "k < n" "(k - 1) div 2 \<noteq> j" for k
  proof -
    have pk: "(k - 1) div 2 \<noteq> k" using k by auto
    have old: "(k - 1) div 2 \<noteq> i \<Longrightarrow> key (xs ! ((k - 1) div 2)) \<le> key (xs ! k)"
      using inv k unfolding down_inv_def parent_le_def by blast
    have up: "k = i \<Longrightarrow> key (xs ! ((i - 1) div 2)) \<le> key (xs ! j)"
      using inv j n k unfolding down_inv_def by blast
    consider "k = j" | "k \<noteq> j" "(k - 1) div 2 = i" | "k = i"
      | "k \<noteq> j" "k \<noteq> i" "(k - 1) div 2 \<noteq> i" by blast
    then show ?thesis
      using k pk old up least [of k] less i j n unfolding parent_le_def
      by cases (auto simp: nth_heapSwap)
  qed
  have 2: "key (heapSwap xs i j ! ((j - 1) div 2)) \<le> key (heapSwap xs i j ! k)"
    if k: "0 < k" "k < n" "(k - 1) div 2 = j" for k
  proof -
    have "k \<noteq> j" "k \<noteq> i" using k i by auto
    moreover have "key (xs ! j) \<le> key (xs ! k)"
      using inv k i unfolding down_inv_def parent_le_def by auto
    ultimately show ?thesis using i j n by (simp add: nth_heapSwap)
  qed
  show ?thesis unfolding down_inv_def using 1 2 by blast
qed

lemma down_inv_stop:
  assumes "down_inv key xs i n"
    and "\<And>k. 0 < k \<Longrightarrow> k < n \<Longrightarrow> (k - 1) div 2 = i \<Longrightarrow> key (xs ! i) \<le> key (xs ! k)"
  shows "heap_ok key xs n"
  using assms unfolding down_inv_def heap_ok_def parent_le_def by metis

lemma heap_ok_down:
  "down_inv key xs i n \<Longrightarrow> n \<le> length xs \<Longrightarrow> heap_ok key (down key xs i n) n"
proof (induction key xs i n rule: down.induct)
  case (1 key xs i n)
  define j where "j = (if 2 * i + 2 < n \<and> key (xs ! (2 * i + 2)) < key (xs ! (2 * i + 1))
                       then 2 * i + 2 else 2 * i + 1)"
  have least: "key (xs ! j) \<le> key (xs ! k)" if "0 < k" "k < n" "(k - 1) div 2 = i" for k
    using heap_child_cases [OF that(1,3)] that by (auto simp: j_def)
  have eq: "down key xs i n =
      (if 2 * i + 1 \<ge> n \<or> \<not> key (xs ! j) < key (xs ! i) then xs else down key (heapSwap xs i j) j n)"
    by (subst down.simps) (simp add: Let_def j_def)
  show ?case
  proof (cases "2 * i + 1 \<ge> n \<or> \<not> key (xs ! j) < key (xs ! i)")
    case True
    have "key (xs ! i) \<le> key (xs ! k)" if k: "0 < k" "k < n" "(k - 1) div 2 = i" for k
      using heap_child_cases [OF k(1,3)] least [OF k] True k by auto
    then show ?thesis using True "1.prems" by (simp add: eq down_inv_stop)
  next
    case False
    then have j: "j < n" "0 < j" "(j - 1) div 2 = i" by (auto simp: j_def)
    then have "down_inv key (heapSwap xs i j) j n"
      using "1.prems" least False by (intro down_inv_step) auto
    then have "heap_ok key (down key (heapSwap xs i j) j n) n"
      using "1.IH" [OF refl _ refl, of j] False "1.prems"(2) by (auto simp: j_def)
    then show ?thesis using False by (simp add: eq)
  qed
qed

lemma heap_root_least: "heap_ok key xs n \<Longrightarrow> k < n \<Longrightarrow> key (xs ! 0) \<le> key (xs ! k)"
proof (induction k rule: less_induct)
  case (less k)
  show ?case
  proof (cases "k = 0")
    case False
    then have "key (xs ! 0) \<le> key (xs ! ((k - 1) div 2))"
      using less by (intro less.IH) auto
    then show ?thesis
      using False less.prems by (fastforce simp: heap_ok_def parent_le_def)
  qed simp
qed

section \<open>The ready-queue interface\<close>

text \<open>
  What a client of the ready queue relies on. The client of this program scans a base list
  whose keys increase: \<open>pop_first\<close> says that popping then gives the first item of the base
  list that is ready.
\<close>

locale ready_queue =
  fixes key :: "'a \<Rightarrow> nat"
    and push :: "'a \<Rightarrow> 'q \<Rightarrow> 'q"
    and pop :: "'q \<Rightarrow> ('a \<times> 'q) option"
    and invar :: "'q \<Rightarrow> bool"
    and elems :: "'q \<Rightarrow> 'a multiset"
  assumes invar_push: "invar q \<Longrightarrow> invar (push x q)"
    and elems_push: "elems (push x q) = add_mset x (elems q)"
    and pop_None: "pop q = None \<longleftrightarrow> elems q = {#}"
    and elems_pop: "pop q = Some (x, q') \<Longrightarrow> elems q = add_mset x (elems q')"
    and invar_pop: "invar q \<Longrightarrow> pop q = Some (x, q') \<Longrightarrow> invar q'"
    and pop_least: "invar q \<Longrightarrow> pop q = Some (x, q') \<Longrightarrow> y \<in># elems q \<Longrightarrow> key x \<le> key y"
begin

lemma push_all:
  "invar q \<Longrightarrow> invar (fold push xs q) \<and> elems (fold push xs q) = mset xs + elems q"
  by (induction xs arbitrary: q) (auto simp: invar_push elems_push)

lemma pop_first:
  assumes "invar q" "elems q = mset (filter P base)" "pop q = Some (x, q')"
    and "sorted_wrt (\<lambda>a b. key a < key b) base"
  shows "find P base = Some x"
proof -
  have x: "x \<in> set (filter P base)"
    using elems_pop [OF assms(3)] assms(2) by (metis set_mset_mset union_single_eq_member)
  then obtain z zs where zs: "filter P base = z # zs" by (cases "filter P base") auto
  have "key x \<le> key z"
    using pop_least [OF assms(1,3), of z] assms(2) zs by simp
  moreover have "sorted_wrt (\<lambda>a b. key a < key b) (z # zs)"
    using sorted_wrt_filter [OF assms(4)] zs by metis
  ultimately have "x = z" using x zs by auto
  then show ?thesis by (simp add: find_filter_hd zs)
qed

end

section \<open>The heap is a ready queue\<close>

lemma is_heap_Push: "is_heap key xs \<Longrightarrow> is_heap key (heap_Push key x xs)"
proof -
  assume "is_heap key xs"
  moreover have "(k - 1) div 2 \<noteq> length xs" if "0 < k" "k \<le> length xs" for k
    using that by auto
  ultimately have "up_inv key (xs @ [x]) (length xs)"
    unfolding up_inv_def is_heap_def heap_ok_def parent_le_def
    by (auto simp: nth_append less_Suc_eq_le)
  then show ?thesis
    unfolding is_heap_def heap_Push_def using heap_ok_up by fastforce
qed

lemma mset_Push: "mset (heap_Push key x xs) = add_mset x (mset xs)"
  by (simp add: heap_Push_def mset_up)

lemma heap_Pop_split:
  assumes "xs \<noteq> []"
  shows "heap_Pop key xs = Some (hd xs, butlast (down key (heapSwap xs 0 (length xs - 1)) 0 (length xs - 1)))"
    and "mset xs = add_mset (hd xs) (mset (butlast (down key (heapSwap xs 0 (length xs - 1)) 0 (length xs - 1))))"
proof -
  let ?n = "length xs - 1"
  let ?ys = "down key (heapSwap xs 0 ?n) 0 ?n"
  have n: "?n < length xs" "0 < length xs" using assms by auto
  have ne: "?ys \<noteq> []" using n by (metis length_0_conv length_down length_heapSwap less_irrefl)
  have "last ?ys = heapSwap xs 0 ?n ! ?n"
    using n ne by (simp add: last_conv_nth nth_down_beyond)
  also have "\<dots> = hd xs" using n assms by (auto simp: nth_heapSwap hd_conv_nth)
  finally have last: "last ?ys = hd xs" .
  show "heap_Pop key xs = Some (hd xs, butlast ?ys)"
    using assms last by (simp add: heap_Pop_def Let_def)
  have "mset ?ys = mset xs" using n by (simp add: mset_down)
  then show "mset xs = add_mset (hd xs) (mset (butlast ?ys))"
    using ne last by (metis append_butlast_last_id add_mset_add_single mset.simps(1,2) mset_append)
qed

lemma is_heap_Pop:
  assumes "is_heap key xs" "xs \<noteq> []"
  shows "is_heap key (butlast (down key (heapSwap xs 0 (length xs - 1)) 0 (length xs - 1)))"
proof -
  let ?n = "length xs - 1"
  have "down_inv key (heapSwap xs 0 ?n) 0 ?n"
    using assms unfolding down_inv_def is_heap_def heap_ok_def parent_le_def
    by (auto simp: nth_heapSwap)
  then have "heap_ok key (down key (heapSwap xs 0 ?n) 0 ?n) ?n"
    by (rule heap_ok_down) simp
  then show ?thesis
    unfolding is_heap_def heap_ok_def parent_le_def by (auto simp: nth_butlast)
qed

interpretation heapq: ready_queue key "heap_Push key" "heap_Pop key" "is_heap key" mset
  for key :: "'a \<Rightarrow> nat"
proof
  show "heap_Pop key q = None \<longleftrightarrow> mset q = {#}" for q :: "'a list"
    by (simp add: heap_Pop_def Let_def)
  show "mset q = add_mset x (mset q')" if "heap_Pop key q = Some (x, q')" for q q' :: "'a list" and x
  proof -
    have "q \<noteq> []" using that by (auto simp: heap_Pop_def)
    with that heap_Pop_split [of q key] show ?thesis by simp
  qed
  show "is_heap key q'" if "is_heap key q" "heap_Pop key q = Some (x, q')" for q q' :: "'a list" and x
  proof -
    have "q \<noteq> []" using that by (auto simp: heap_Pop_def)
    with that heap_Pop_split(1) [of q key] is_heap_Pop [of key q] show ?thesis by simp
  qed
  show "key x \<le> key y"
    if "is_heap key q" "heap_Pop key q = Some (x, q')" "y \<in># mset q" for q q' :: "'a list" and x y
  proof -
    have q: "q \<noteq> []" using that by (auto simp: heap_Pop_def)
    obtain k where k: "k < length q" "y = q ! k" using \<open>y \<in># mset q\<close> by (auto simp: in_set_conv_nth)
    have "key (q ! 0) \<le> key (q ! k)"
      using that(1) k(1) unfolding is_heap_def by (rule heap_root_least)
    then show ?thesis using that(2) heap_Pop_split(1) [OF q, of key] q k by (simp add: hd_conv_nth)
  qed
qed (simp_all add: is_heap_Push mset_Push)

lemma length_Push [simp]: "length (heap_Push key x xs) = Suc (length xs)"
  by (simp add: heap_Push_def)

lemma length_Pop: "heap_Pop key xs = Some (x, ys) \<Longrightarrow> length xs = Suc (length ys)"
  using heapq.elems_pop [of key xs x ys] by (metis mset.simps(2) size_mset length_Cons)

end
