(* ===== verification/Greedy_Order.thy ===== *)
theory Greedy_Order
  imports Prelude
begin

text \<open>
  The reference order of a list of nodes under precedence constraints, against which the
  topological sort of \<open>Document.Snapshot\<close> is verified: repeatedly emit the first
  remaining node that no remaining node must precede; when every remaining node is blocked,
  keep the remaining ones in their given order.
\<close>

function greedy :: "('a \<Rightarrow> 'a \<Rightarrow> bool) \<Rightarrow> 'a list \<Rightarrow> 'a list" where
  "greedy R xs =
     (case find (\<lambda>y. \<forall>x \<in> set xs. \<not> R x y) xs of
        None \<Rightarrow> xs
      | Some y \<Rightarrow> y # greedy R (remove1 y xs))"
  by pat_completeness auto
termination
  by (relation "measure (\<lambda>(R, xs). length xs)")
    (auto simp: find_Some_iff length_remove1 intro: Suc_lessD)

declare greedy.simps [simp del]

lemma find_SomeD: "find P xs = Some y \<Longrightarrow> y \<in> set xs \<and> P y"
  by (auto simp: find_Some_iff)

lemma greedy_None: "find (\<lambda>y. \<forall>x \<in> set xs. \<not> R x y) xs = None \<Longrightarrow> greedy R xs = xs"
  by (subst greedy.simps) simp

lemma greedy_Some:
  "find (\<lambda>y. \<forall>x \<in> set xs. \<not> R x y) xs = Some y \<Longrightarrow> greedy R xs = y # greedy R (remove1 y xs)"
  by (subst greedy.simps) simp

lemma mset_greedy [simp]: "mset (greedy R xs) = mset xs"
proof (induction R xs rule: greedy.induct)
  case (1 R xs)
  then show ?case
    by (subst greedy.simps) (auto split: option.splits dest: find_SomeD)
qed

lemma set_greedy [simp]: "set (greedy R xs) = set xs"
  by (metis mset_greedy set_mset_mset)

lemma distinct_greedy [simp]: "distinct (greedy R xs) = distinct xs"
  by (metis mset_greedy mset_eq_imp_distinct_iff)

section \<open>Parents before children\<close>

text \<open>Every node of the list has its parent in \<open>S\<close> or earlier in the list.\<close>

fun topdown :: "('a \<Rightarrow> 'b) \<Rightarrow> ('a \<Rightarrow> 'b) \<Rightarrow> 'b set \<Rightarrow> 'a list \<Rightarrow> bool" where
  "topdown key par S [] = True"
| "topdown key par S (x # xs) = (par x \<in> S \<and> topdown key par (Set.insert (key x) S) xs)"

lemma topdown_mono: "topdown key par S xs \<Longrightarrow> S \<subseteq> T \<Longrightarrow> topdown key par T xs"
proof (induction xs arbitrary: S T)
  case (Cons x xs)
  have "topdown key par (Set.insert (key x) T) xs"
    using Cons.prems by (rule_tac Cons.IH [of "Set.insert (key x) S"]) auto
  then show ?case using Cons.prems by auto
qed simp

lemma topdown_append:
  "topdown key par S (xs @ ys) \<longleftrightarrow>
     topdown key par S xs \<and> topdown key par (S \<union> key ` set xs) ys"
  by (induction xs arbitrary: S) simp_all

lemma topdown_par: "topdown key par S xs \<Longrightarrow> x \<in> set xs \<Longrightarrow> par x \<in> S \<union> key ` set xs"
  by (induction xs arbitrary: S) auto

lemma topdown_remove1:
  "topdown key par S xs \<Longrightarrow> y \<in> set xs \<Longrightarrow> topdown key par (Set.insert (key y) S) (remove1 y xs)"
proof (induction xs arbitrary: S)
  case (Cons x xs)
  show ?case
  proof (cases "x = y")
    case False
    then have "topdown key par (Set.insert (key y) (Set.insert (key x) S)) (remove1 y xs)"
      using Cons.prems False by (rule_tac Cons.IH) simp_all
    then show ?thesis using False Cons.prems by (simp add: insert_commute)
  qed (use Cons.prems in simp)
qed simp

lemma topdown_map: "topdown key par S (map f xs) = topdown (key \<circ> f) (par \<circ> f) S xs"
  by (induction xs arbitrary: S) auto

lemma topdown_cong:
  "(\<And>x. x \<in> set xs \<Longrightarrow> key x = key' x \<and> par x = par' x) \<Longrightarrow>
   topdown key par S xs = topdown key' par' S xs"
  by (induction xs arbitrary: S) auto

lemma topdown_greedy:
  assumes "topdown (\<lambda>x. x) par S xs" "\<And>y. y \<in> set xs \<Longrightarrow> par y \<in> set xs \<Longrightarrow> R (par y) y" "distinct xs"
  shows "topdown (\<lambda>x. x) par S (greedy R xs)"
  using assms
proof (induction R xs arbitrary: S rule: greedy.induct)
  case (1 R xs)
  show ?case
  proof (cases "find (\<lambda>y. \<forall>x \<in> set xs. \<not> R x y) xs")
    case None
    then show ?thesis using "1.prems" by (simp add: greedy_None)
  next
    case (Some y)
    then have y: "y \<in> set xs" "\<forall>x \<in> set xs. \<not> R x y" by (auto dest: find_SomeD)
    have "topdown (\<lambda>x. x) par (Set.insert y S) (greedy R (remove1 y xs))"
      using "1.IH" [OF Some] topdown_remove1 [OF "1.prems"(1) y(1)] "1.prems"(2,3)
      by (auto simp: set_remove1_eq)
    moreover have "par y \<in> S"
      using topdown_par [OF "1.prems"(1) y(1)] "1.prems"(2) y by auto
    ultimately show ?thesis by (simp add: greedy_Some [OF Some])
  qed
qed

section \<open>Constraints are met when they are acyclic\<close>

definition precedes :: "'a list \<Rightarrow> 'a \<Rightarrow> 'a \<Rightarrow> bool" where
  "precedes xs x y \<longleftrightarrow> (\<exists>us vs. xs = us @ x # vs \<and> y \<in> set vs)"

lemma precedes_Cons:
  "precedes (z # xs) x y \<longleftrightarrow> (z = x \<and> y \<in> set xs) \<or> precedes xs x y"
  unfolding precedes_def by (auto simp: Cons_eq_append_conv)

lemma acyclic_has_source:
  assumes "acyclicP R" "xs \<noteq> []"
  shows "\<exists>y \<in> set xs. \<forall>x \<in> set xs. \<not> R x y"
proof -
  let ?r = "{(x, y). R x y} \<inter> set xs \<times> set xs"
  have "acyclic ?r" using assms(1) by (rule acyclic_subset) auto
  moreover have "finite ?r" by (rule finite_subset [of _ "set xs \<times> set xs"]) auto
  ultimately have "wf ?r" by (simp add: finite_acyclic_wf)
  moreover have "hd xs \<in> set xs" using assms(2) by simp
  ultimately obtain y where "y \<in> set xs" "\<And>x. (x, y) \<in> ?r \<Longrightarrow> x \<notin> set xs"
    by (rule wfE_min) blast
  then show ?thesis by blast
qed

lemma greedy_precedes:
  assumes "acyclicP R" "R x y" "x \<in> set xs" "y \<in> set xs" "distinct xs"
  shows "precedes (greedy R xs) x y"
  using assms
proof (induction R xs rule: greedy.induct)
  case (1 R xs)
  have ne: "xs \<noteq> []" using "1.prems" by auto
  obtain z where z: "find (\<lambda>y. \<forall>x \<in> set xs. \<not> R x y) xs = Some z"
    using acyclic_has_source [OF "1.prems"(1) ne] by (cases "find (\<lambda>y. \<forall>x \<in> set xs. \<not> R x y) xs")
      (auto simp: find_None_iff)
  then have "z \<in> set xs" "\<forall>x \<in> set xs. \<not> R x z" by (auto dest: find_SomeD)
  then have zy: "z \<noteq> y" using "1.prems" by auto
  show ?case
  proof (cases "z = x")
    case True
    then show ?thesis using zy "1.prems" by (simp add: greedy_Some [OF z] precedes_Cons set_remove1_eq)
  next
    case False
    then have "precedes (greedy R (remove1 z xs)) x y"
      using "1.IH" [OF z] "1.prems" zy by (simp add: set_remove1_eq)
    then show ?thesis by (simp add: greedy_Some [OF z] precedes_Cons)
  qed
qed

end
