(* ===== verification/Crdt_Snapshot.thy ===== *)
theory Crdt_Snapshot
  imports Crdt_Document Heap Greedy_Order
begin

text \<open>
  \<open>Document.Snapshot\<close> and \<open>Document.Text\<close>: the definitions of the ordering
  pipeline. Characters are grouped under their left anchor and each group is sorted; a
  depth-first walk gives the base order; left and right anchors become edges of a graph; a
  topological sort with the base rank as priority gives the final order, and characters on a
  cycle of anchors keep the base order.
\<close>

section \<open>The base order\<close>

definition rootID :: CharID where
  "rootID = CharID '''' 0"

definition parentOf :: "crdt_char \<Rightarrow> CharID" where
  "parentOf c = (case LeftID c of None \<Rightarrow> rootID | Some l \<Rightarrow> l)"

text \<open>The loop that fills \<open>children\<close>, and the loop that sorts each group.\<close>

fun groupChildren :: "crdt_char list \<Rightarrow> (CharID \<Rightarrow> crdt_char list) \<Rightarrow> CharID \<Rightarrow> crdt_char list" where
  "groupChildren [] m = m"
| "groupChildren (c # cs) m =
     groupChildren cs (m(parentOf c := m (parentOf c) @ [cloneChar c]))"

definition sortedChildren :: "Document \<Rightarrow> CharID \<Rightarrow> crdt_char list" where
  "sortedChildren d = (\<lambda>p. sort_key ID (groupChildren (map snd (chars d)) (\<lambda>_. []) p))"

text \<open>
  The recursive closure \<open>visit\<close>, which appends to \<open>base\<close>. The first argument bounds
  the depth of the recursion; \<^const>\<open>None\<close> means that the recursion goes deeper.
\<close>

fun visitEach :: "(CharID \<Rightarrow> crdt_char list option) \<Rightarrow> crdt_char list \<Rightarrow> crdt_char list option" where
  "visitEach rec [] = Some []"
| "visitEach rec (c # cs) =
     (case rec (ID c) of
        None \<Rightarrow> None
      | Some below \<Rightarrow>
          (case visitEach rec cs of None \<Rightarrow> None | Some rest \<Rightarrow> Some (c # below @ rest)))"

fun visit :: "nat \<Rightarrow> (CharID \<Rightarrow> crdt_char list) \<Rightarrow> CharID \<Rightarrow> crdt_char list option" where
  "visit 0 children parent = None"
| "visit (Suc depth) children parent = visitEach (visit depth children) (children parent)"

definition baseOrder :: "Document \<Rightarrow> crdt_char list option" where
  "baseOrder d = visit (Suc (length (chars d))) (sortedChildren d) rootID"

section \<open>The constraint graph\<close>

record anchor_graph =
  indegree :: "(CharID \<times> int) list"
  edges :: "CharID \<Rightarrow> CharID list"

fun indexBase :: "crdt_char list \<Rightarrow> nat \<Rightarrow> (CharID \<rightharpoonup> nat) \<Rightarrow> (CharID \<rightharpoonup> nat)" where
  "indexBase [] i m = m"
| "indexBase (c # cs) i m = indexBase cs (Suc i) (m(ID c \<mapsto> i))"

definition initGraph :: "crdt_char list \<Rightarrow> anchor_graph" where
  "initGraph base =
     \<lparr>indegree = fold (\<lambda>c. AList.update (ID c) 0) base [], edges = (\<lambda>_. [])\<rparr>"

definition degreeOf :: "(CharID \<times> int) list \<Rightarrow> CharID \<Rightarrow> int" where
  "degreeOf ind k = (case map_of ind k of None \<Rightarrow> 0 | Some n \<Rightarrow> n)"

definition addEdge :: "CharID \<Rightarrow> CharID \<Rightarrow> anchor_graph \<Rightarrow> anchor_graph" where
  "addEdge from to g =
     (if from = to then g
      else if map_of (indegree g) from = None then g
      else if map_of (indegree g) to = None then g
      else if to \<in> set (edges g from) then g
      else g\<lparr>edges := (edges g)(from := edges g from @ [to]),
             indegree := AList.update to (degreeOf (indegree g) to + 1) (indegree g)\<rparr>)"

definition addAnchors :: "crdt_char \<Rightarrow> anchor_graph \<Rightarrow> anchor_graph" where
  "addAnchors c g =
     (let g1 = (case LeftID c of None \<Rightarrow> g | Some l \<Rightarrow> addEdge l (ID c) g)
      in case RightID c of None \<Rightarrow> g1 | Some r \<Rightarrow> addEdge (ID c) r g1)"

definition buildGraph :: "crdt_char list \<Rightarrow> anchor_graph" where
  "buildGraph base = fold addAnchors base (initGraph base)"

section \<open>The topological sort\<close>

record charIDHeap =
  items :: "CharID list"
  ranks :: "CharID \<rightharpoonup> nat"

text \<open>The key \<open>charIDHeap.Less\<close> compares: the rank, zero for an identity without one.\<close>

definition rankOf :: "(CharID \<rightharpoonup> nat) \<Rightarrow> CharID \<Rightarrow> nat" where
  "rankOf m i = (case m i of None \<Rightarrow> 0 | Some n \<Rightarrow> n)"

definition heapLess :: "charIDHeap \<Rightarrow> nat \<Rightarrow> nat \<Rightarrow> bool" where
  "heapLess h i j \<longleftrightarrow> rankOf (ranks h) (items h ! i) < rankOf (ranks h) (items h ! j)"

definition heapPush :: "CharID \<Rightarrow> charIDHeap \<Rightarrow> charIDHeap" where
  "heapPush i h = h\<lparr>items := heap_Push (rankOf (ranks h)) i (items h)\<rparr>"

definition heapPop :: "charIDHeap \<Rightarrow> (CharID \<times> charIDHeap) option" where
  "heapPop h =
     (case heap_Pop (rankOf (ranks h)) (items h) of
        None \<Rightarrow> None
      | Some (i, rest) \<Rightarrow> Some (i, h\<lparr>items := rest\<rparr>))"

fun seedReady :: "crdt_char list \<Rightarrow> (CharID \<times> int) list \<Rightarrow> charIDHeap \<Rightarrow> charIDHeap" where
  "seedReady [] ind h = h"
| "seedReady (c # cs) ind h =
     seedReady cs ind (if degreeOf ind (ID c) = 0 then heapPush (ID c) h else h)"

text \<open>The loop over the successors of a popped character.\<close>

fun relax :: "CharID list \<Rightarrow> charIDHeap \<Rightarrow> (CharID \<times> int) list \<Rightarrow> charIDHeap \<times> (CharID \<times> int) list" where
  "relax [] h ind = (h, ind)"
| "relax (child # cs) h ind =
     (let n = degreeOf ind child - 1; ind' = AList.update child n ind
      in relax cs (if n = 0 then heapPush child h else h) ind')"

text \<open>
  The loop \<open>for ready.Len() > 0\<close> always ends: an iteration takes one character off the
  heap, and puts one on it only when an entry of \<open>indegree\<close> stops being positive.
\<close>

definition blockedCount :: "(CharID \<times> int) list \<Rightarrow> nat" where
  "blockedCount ind = length (filter (\<lambda>(k, n). 0 < n) ind)"

lemma blockedCount_update:
  "blockedCount (AList.update k (degreeOf ind k - 1) ind) + (if degreeOf ind k = 1 then 1 else 0)
     = blockedCount ind"
  by (induction ind) (auto simp: blockedCount_def degreeOf_def)

lemma items_heapPush [simp]: "length (items (heapPush i h)) = Suc (length (items h))"
  by (simp add: heapPush_def)

lemma relax_measure:
  "relax cs h ind = (h', ind') \<Longrightarrow>
   length (items h') + blockedCount ind' = length (items h) + blockedCount ind"
proof (induction cs h ind rule: relax.induct)
  case (2 child cs h ind)
  let ?n = "degreeOf ind child - 1"
  have "length (items h') + blockedCount ind' =
      length (items (if ?n = 0 then heapPush child h else h)) + blockedCount (AList.update child ?n ind)"
    using "2.prems" by (intro "2.IH" [OF refl refl]) (simp add: Let_def)
  then show ?case using blockedCount_update [of child ind] by (auto split: if_splits)
qed simp

function drain ::
  "(CharID \<Rightarrow> crdt_char) \<Rightarrow> (CharID \<Rightarrow> CharID list) \<Rightarrow> charIDHeap \<Rightarrow> (CharID \<times> int) list
   \<Rightarrow> CharID list \<Rightarrow> crdt_char list \<Rightarrow> CharID list \<times> crdt_char list" where
  "drain look es h ind seen ordered =
     (case heapPop h of
        None \<Rightarrow> (seen, ordered)
      | Some (i, h1) \<Rightarrow>
          (case relax (es i) h1 ind of
             (h2, ind2) \<Rightarrow> drain look es h2 ind2 (seen @ [i]) (ordered @ [cloneChar (look i)])))"
  by pat_completeness auto
termination
proof (relation "measure (\<lambda>(look, es, h, ind, seen, ordered). length (items h) + blockedCount ind)")
  fix look :: "CharID \<Rightarrow> crdt_char" and es :: "CharID \<Rightarrow> CharID list"
    and h h1 h2 :: charIDHeap and ind ind2 seen ordered x i y
  assume pop: "heapPop h = Some x" "(i, h1) = x" and rel: "(h2, ind2) = relax (es i) h1 ind"
  have "length (items h) = Suc (length (items h1))"
    using pop by (auto simp: heapPop_def split: option.splits dest: length_Pop)
  then show "((look, es, h2, ind2, seen @ [i], ordered @ [cloneChar (look i)]),
      (look, es, h, ind, seen, ordered))
    \<in> measure (\<lambda>(look, es, h, ind, seen, ordered). length (items h) + blockedCount ind)"
    using relax_measure [OF rel [symmetric]] by simp
qed simp

declare drain.simps [simp del]

section \<open>Snapshot and Text\<close>

definition zeroChar :: crdt_char where
  "zeroChar = \<lparr>ID = rootID, Value = 0, LeftID = None, RightID = None, Deleted = False\<rparr>"

definition charAt :: "Document \<Rightarrow> CharID \<Rightarrow> crdt_char" where
  "charAt d i = (case map_of (chars d) i of None \<Rightarrow> zeroChar | Some c \<Rightarrow> c)"

definition orderBase :: "Document \<Rightarrow> crdt_char list \<Rightarrow> crdt_char list" where
  "orderBase d base =
     (let g = buildGraph base;
          empty = \<lparr>items = heap_Init (rankOf (indexBase base 0 Map.empty)) [],
                   ranks = indexBase base 0 Map.empty\<rparr>;
          ready = seedReady base (indegree g) empty;
          (seen, ordered) = drain (charAt d) (edges g) ready (indegree g) [] []
      in if length ordered \<noteq> length base
         then ordered @ map cloneChar (filter (\<lambda>c. ID c \<notin> set seen) base)
         else ordered)"

definition Snapshot :: "Document option \<Rightarrow> crdt_char list option" where
  "Snapshot receiver =
     (case receiver of
        None \<Rightarrow> Some []
      | Some d \<Rightarrow>
          if length (chars d) = 0 then Some []
          else map_option (orderBase d) (baseOrder d))"

definition visibleRunes :: "crdt_char list \<Rightarrow> rune list" where
  "visibleRunes cs = map Value (filter (\<lambda>c. \<not> Deleted c) cs)"

text \<open>
  \<open>string(text)\<close> for a slice of runes: each rune in UTF-8, and U+FFFD for a value that
  is no code point or a surrogate.
\<close>

definition runeBytes :: "rune \<Rightarrow> string" where
  "runeBytes r =
     (let i = unat r;
          v = (if i > 0x10FFFF \<or> 0xD800 \<le> i \<and> i \<le> 0xDFFF then 0xFFFD else i);
          tail = (\<lambda>n. char_of (0x80 + n mod 64))
      in if v \<le> 0x7F then [char_of v]
         else if v \<le> 0x7FF then [char_of (0xC0 + v div 64), tail v]
         else if v \<le> 0xFFFF then [char_of (0xE0 + v div 4096), tail (v div 64), tail v]
         else [char_of (0xF0 + v div 262144), tail (v div 4096), tail (v div 64), tail v])"

definition Text :: "Document option \<Rightarrow> string option" where
  "Text receiver =
     map_option (\<lambda>cs. concat (map runeBytes (visibleRunes cs))) (Snapshot receiver)"

end
