(* ===== verification/Crdt_Topo.thy ===== *)
theory Crdt_Topo
  imports Crdt_Snapshot
begin

text \<open>
  The topological sort of \<open>Document.Snapshot\<close> computes the reference order of
  \<open>Greedy_Order\<close>: the graph it builds holds exactly the anchor constraints, and its
  heap-driven loop emits the first unblocked character of the base order at every step.
\<close>

section \<open>The constraints the graph holds\<close>

definition anchorEdge :: "crdt_char list \<Rightarrow> CharID \<Rightarrow> CharID \<Rightarrow> bool" where
  "anchorEdge base x y \<longleftrightarrow> x \<noteq> y \<and> x \<in> ID ` set base \<and> y \<in> ID ` set base
     \<and> (\<exists>c \<in> set base. (LeftID c = Some x \<and> ID c = y) \<or> (ID c = x \<and> RightID c = Some y))"

definition graphRep :: "CharID set \<Rightarrow> (CharID \<times> CharID) set \<Rightarrow> anchor_graph \<Rightarrow> bool" where
  "graphRep N R g \<longleftrightarrow>
     dom (map_of (indegree g)) = N \<and> R \<subseteq> N \<times> N
     \<and> (\<forall>x. distinct (edges g x) \<and> set (edges g x) = R `` {x})
     \<and> (\<forall>y \<in> N. degreeOf (indegree g) y = int (card (R\<inverse> `` {y})))"

lemma degreeOf_update [simp]:
  "degreeOf (AList.update k n ind) k' = (if k = k' then n else degreeOf ind k')"
  by (simp add: degreeOf_def)

lemma graphRep_addEdge:
  assumes g: "graphRep N R g" and fin: "finite N"
  shows "graphRep N (R \<union> ({(from, to)} \<inter> {(x, y). x \<noteq> y} \<inter> N \<times> N)) (addEdge from to g)"
proof (cases "from \<noteq> to \<and> from \<in> N \<and> to \<in> N \<and> (from, to) \<notin> R")
  case False
  have "to \<in> set (edges g from) \<longleftrightarrow> (from, to) \<in> R" using g by (auto simp: graphRep_def)
  moreover have "map_of (indegree g) x = None \<longleftrightarrow> x \<notin> N" for x
    using g by (auto simp: graphRep_def)
  ultimately have "addEdge from to g = g" using False by (auto simp: addEdge_def)
  moreover have "R \<union> ({(from, to)} \<inter> {(x, y). x \<noteq> y} \<inter> N \<times> N) = R" using False by auto
  ultimately show ?thesis using g by simp
next
  case True
  have fresh: "to \<notin> set (edges g from)" using g True by (auto simp: graphRep_def)
  have dom: "dom (map_of (indegree g)) = N" using g by (simp add: graphRep_def)
  then have add: "addEdge from to g = g\<lparr>edges := (edges g)(from := edges g from @ [to]),
      indegree := AList.update to (degreeOf (indegree g) to + 1) (indegree g)\<rparr>"
    using True fresh by (auto simp: addEdge_def domIff)
  have R': "R \<union> ({(from, to)} \<inter> {(x, y). x \<noteq> y} \<inter> N \<times> N) = Set.insert (from, to) R"
    using True by auto
  have sub: "R\<inverse> `` {y} \<subseteq> N" for y using g by (auto simp: graphRep_def)
  have "(Set.insert (from, to) R)\<inverse> `` {to} = Set.insert from (R\<inverse> `` {to})" by auto
  then have "card ((Set.insert (from, to) R)\<inverse> `` {to}) = Suc (card (R\<inverse> `` {to}))"
    using True finite_subset [OF sub fin] by simp
  moreover have "(Set.insert (from, to) R)\<inverse> `` {y} = R\<inverse> `` {y}" if "y \<noteq> to" for y
    using that by auto
  ultimately show ?thesis
    using g True dom fresh unfolding R' add graphRep_def by (auto 0 3)
qed

definition anchorPairs :: "crdt_char \<Rightarrow> (CharID \<times> CharID) set" where
  "anchorPairs c = (\<lambda>l. (l, ID c)) ` set_option (LeftID c) \<union> (\<lambda>r. (ID c, r)) ` set_option (RightID c)"

lemma graphRep_addAnchors:
  assumes g: "graphRep N R g" and fin: "finite N"
  shows "graphRep N (R \<union> (anchorPairs c \<inter> {(x, y). x \<noteq> y} \<inter> N \<times> N)) (addAnchors c g)"
proof -
  let ?ok = "{(x, y). x \<noteq> y} \<inter> N \<times> N"
  let ?l = "(\<lambda>l. (l, ID c)) ` set_option (LeftID c) \<inter> ?ok"
  let ?r = "(\<lambda>r. (ID c, r)) ` set_option (RightID c) \<inter> ?ok"
  let ?g1 = "case LeftID c of None \<Rightarrow> g | Some l \<Rightarrow> addEdge l (ID c) g"
  have "graphRep N (R \<union> ?l) ?g1"
    using g graphRep_addEdge [OF g fin] by (cases "LeftID c") (simp_all add: Int_assoc)
  then have "graphRep N ((R \<union> ?l) \<union> ?r) (addAnchors c g)"
    using graphRep_addEdge [OF _ fin, of "R \<union> ?l" ?g1]
    by (cases "RightID c") (simp_all add: addAnchors_def Int_assoc)
  moreover have "(R \<union> ?l) \<union> ?r = R \<union> (anchorPairs c \<inter> {(x, y). x \<noteq> y} \<inter> N \<times> N)"
    by (auto simp: anchorPairs_def)
  ultimately show ?thesis by simp
qed

lemma graphRep_fold:
  assumes "graphRep N R g" "finite N"
  shows "graphRep N (R \<union> ((\<Union>c \<in> set cs. anchorPairs c) \<inter> {(x, y). x \<noteq> y} \<inter> N \<times> N)) (fold addAnchors cs g)"
  using assms
proof (induction cs arbitrary: g R)
  case (Cons c cs)
  from Cons.IH [OF graphRep_addAnchors [OF Cons.prems, of c] Cons.prems(2)] show ?case
    by (simp add: Int_Un_distrib2 Un_assoc)
qed simp

lemma initGraph_rep:
  assumes "distinct (map ID base)"
  shows "graphRep (ID ` set base) {} (initGraph base)"
proof -
  have "map_of (fold (\<lambda>c. AList.update (ID c) (0::int)) cs m) k =
      (if k \<in> ID ` set cs then Some 0 else map_of m k)" for cs :: "crdt_char list" and m k
    by (induction cs arbitrary: m) auto
  then show ?thesis
    by (auto simp: graphRep_def initGraph_def degreeOf_def dom_def)
qed

lemma buildGraph_rep:
  assumes "distinct (map ID base)"
  shows "graphRep (ID ` set base) {(x, y). anchorEdge base x y} (buildGraph base)"
proof -
  let ?N = "ID ` set base"
  have "{} \<union> ((\<Union>c \<in> set base. anchorPairs c) \<inter> {(x, y). x \<noteq> y} \<inter> ?N \<times> ?N) = {(x, y). anchorEdge base x y}"
    unfolding anchorPairs_def anchorEdge_def by (auto 0 4 simp: image_iff)
  then show ?thesis
    using graphRep_fold [OF initGraph_rep [OF assms], of base] by (simp add: buildGraph_def)
qed

section \<open>The heap and the successor loop\<close>

lemma ranks_heapPush [simp]: "ranks (heapPush i h) = ranks h"
  by (simp add: heapPush_def)

lemma seedReady_spec:
  assumes "is_heap (rankOf (ranks h)) (items h)"
  shows "ranks (seedReady cs ind h) = ranks h
    \<and> is_heap (rankOf (ranks h)) (items (seedReady cs ind h))
    \<and> mset (items (seedReady cs ind h))
        = mset (filter (\<lambda>i. degreeOf ind i = 0) (map ID cs)) + mset (items h)"
  using assms
proof (induction cs arbitrary: h)
  case (Cons c cs)
  let ?h = "if degreeOf ind (ID c) = 0 then heapPush (ID c) h else h"
  have "is_heap (rankOf (ranks ?h)) (items ?h)"
    using Cons.prems by (simp add: heapPush_def is_heap_Push)
  from Cons.IH [OF this] show ?case by (auto simp: heapPush_def mset_Push)
qed simp

lemma relax_spec:
  assumes "relax cs h ind = (h', ind')" "distinct cs" "is_heap (rankOf (ranks h)) (items h)"
  shows "ranks h' = ranks h \<and> is_heap (rankOf (ranks h)) (items h')
    \<and> mset (items h') = mset (filter (\<lambda>i. degreeOf ind i = 1) cs) + mset (items h)
    \<and> (\<forall>k. degreeOf ind' k = (if k \<in> set cs then degreeOf ind k - 1 else degreeOf ind k))"
  using assms
proof (induction cs arbitrary: h ind)
  case (Cons c cs)
  let ?n = "degreeOf ind c - 1"
  let ?h = "if ?n = 0 then heapPush c h else h" and ?ind = "AList.update c ?n ind"
  have run: "relax cs ?h ?ind = (h', ind')" using Cons.prems(1) by (simp add: Let_def)
  have h: "is_heap (rankOf (ranks ?h)) (items ?h)"
    using Cons.prems(3) by (auto simp: heapPush_def is_heap_Push)
  have rank: "ranks ?h = ranks h" by simp
  have filt: "mset (filter (\<lambda>i. degreeOf ?ind i = 1) cs) = mset (filter (\<lambda>i. degreeOf ind i = 1) cs)"
    using Cons.prems(2) by (intro arg_cong [where f = mset] filter_cong) auto
  have "ranks h' = ranks h" "is_heap (rankOf (ranks h)) (items h')"
    "mset (items h') = mset (filter (\<lambda>i. degreeOf ind i = 1) cs) + mset (items ?h)"
    "\<And>k. degreeOf ind' k = (if k \<in> set cs then degreeOf ?ind k - 1 else degreeOf ?ind k)"
    using Cons.IH [OF run _ h] Cons.prems(2) unfolding filt rank by auto
  then show ?case
    using Cons.prems(2) by (auto simp: heapPush_def mset_Push)
qed simp

section \<open>The loop computes the greedy order\<close>

text \<open>
  The state of the loop when the identities \<open>rem\<close> (in base order) are not emitted yet:
  the heap holds the unblocked ones, and each degree counts the remaining predecessors.
\<close>

definition loopInv ::
  "(CharID \<Rightarrow> CharID \<Rightarrow> bool) \<Rightarrow> (CharID \<Rightarrow> CharID list) \<Rightarrow> CharID list \<Rightarrow> charIDHeap
   \<Rightarrow> (CharID \<times> int) list \<Rightarrow> bool" where
  "loopInv R es rem h ind \<longleftrightarrow>
     distinct rem \<and> sorted_wrt (\<lambda>a b. rankOf (ranks h) a < rankOf (ranks h) b) rem
     \<and> is_heap (rankOf (ranks h)) (items h)
     \<and> mset (items h) = mset (filter (\<lambda>y. \<forall>x \<in> set rem. \<not> R x y) rem)
     \<and> (\<forall>y \<in> set rem. degreeOf ind y = int (card {x \<in> set rem. R x y}))
     \<and> (\<forall>x \<in> set rem. distinct (es x) \<and> set (es x) = {y. R x y} \<and> set (es x) \<subseteq> set rem)"

lemma loopInv_pop:
  assumes inv: "loopInv R es rem h ind" and pop: "heapPop h = Some (y, h1)"
  shows "find (\<lambda>y. \<forall>x \<in> set rem. \<not> R x y) rem = Some y"
    and "is_heap (rankOf (ranks h)) (items h1)" "ranks h1 = ranks h"
    and "mset (items h) = add_mset y (mset (items h1))"
proof -
  from pop obtain rest where rest: "heap_Pop (rankOf (ranks h)) (items h) = Some (y, rest)"
    "h1 = h\<lparr>items := rest\<rparr>"
    by (auto simp: heapPop_def split: option.splits)
  show "find (\<lambda>y. \<forall>x \<in> set rem. \<not> R x y) rem = Some y"
    using inv unfolding loopInv_def by (intro heapq.pop_first [OF _ _ rest(1)]) auto
  show "is_heap (rankOf (ranks h)) (items h1)" "ranks h1 = ranks h"
    "mset (items h) = add_mset y (mset (items h1))"
    using inv rest heapq.invar_pop [OF _ rest(1)] heapq.elems_pop [OF rest(1)]
    by (auto simp: loopInv_def)
qed

lemma loopInv_step:
  assumes inv: "loopInv R es rem h ind" and pop: "heapPop h = Some (y, h1)"
    and rel: "relax (es y) h1 ind = (h2, ind2)"
  shows "loopInv R es (remove1 y rem) h2 ind2"
proof -
  note p = loopInv_pop [OF inv pop]
  have y: "y \<in> set rem" "\<And>x. x \<in> set rem \<Longrightarrow> \<not> R x y" using p(1) by (auto dest: find_SomeD)
  have dist: "distinct rem" and es: "\<And>x. x \<in> set rem \<Longrightarrow> distinct (es x) \<and> set (es x) = {y. R x y}"
    and sub: "\<And>x z. x \<in> set rem \<Longrightarrow> R x z \<Longrightarrow> z \<in> set rem"
    and deg: "\<And>z. z \<in> set rem \<Longrightarrow> degreeOf ind z = int (card {x \<in> set rem. R x z})"
    and heap: "mset (items h) = mset (filter (\<lambda>y. \<forall>x \<in> set rem. \<not> R x y) rem)"
    using inv by (auto simp: loopInv_def)
  have rem: "set (remove1 y rem) = set rem - {y}" using dist by (simp add: set_remove1_eq)
  have r: "ranks h2 = ranks h" "is_heap (rankOf (ranks h)) (items h2)"
    "mset (items h2) = mset (filter (\<lambda>i. degreeOf ind i = 1) (es y)) + mset (items h1)"
    "\<And>k. degreeOf ind2 k = (if R y k then degreeOf ind k - 1 else degreeOf ind k)"
    using relax_spec [OF rel] es [OF y(1)] p(2,3) by auto
  have card: "card {x \<in> set rem - {y}. R x z} = card {x \<in> set rem. R x z} - (if R y z then 1 else 0)" for z
  proof -
    have "{x \<in> set rem - {y}. R x z} = {x \<in> set rem. R x z} - {y}" by auto
    then show ?thesis using y(1) by simp
  qed
  have pos: "R y z \<Longrightarrow> 0 < card {x \<in> set rem. R x z}" for z
    using y(1) by (auto simp: card_gt_0_iff)
  let ?ready = "\<lambda>z. \<forall>x \<in> set rem. \<not> R x z" and ?new = "\<lambda>z. R y z \<and> degreeOf ind z = 1"
  have one: "R y z \<Longrightarrow> z \<in> set rem \<Longrightarrow> degreeOf ind z = 1 \<longleftrightarrow> (\<forall>x \<in> set rem - {y}. \<not> R x z)" for z
  proof -
    assume z: "R y z" "z \<in> set rem"
    have "(\<forall>x \<in> set rem - {y}. \<not> R x z) \<longleftrightarrow> card {x \<in> set rem - {y}. R x z} = 0"
      by (auto simp: card_eq_0_iff)
    moreover have "card {x \<in> set rem - {y}. R x z} = card {x \<in> set rem. R x z} - 1"
      using card [of z] z(1) by (simp only: if_True)
    ultimately show "degreeOf ind z = 1 \<longleftrightarrow> (\<forall>x \<in> set rem - {y}. \<not> R x z)"
      using deg [OF z(2)] pos [OF z(1)] by linarith
  qed
  have "mset (items h1) = mset (filter ?ready (remove1 y rem))"
    using p(4) heap y(1) dist by (simp add: filter_remove1)
  moreover have "mset (filter (\<lambda>i. degreeOf ind i = 1) (es y)) = mset (filter ?new (remove1 y rem))"
    using es [OF y(1)] dist sub [OF y(1)] y(2) [OF y(1)]
    by (intro mset_eq_distinct) (auto simp: rem)
  moreover have "filter (\<lambda>z. \<forall>x \<in> set rem - {y}. \<not> R x z) (remove1 y rem)
      = filter (\<lambda>z. ?ready z \<or> ?new z) (remove1 y rem)"
    using one by (intro filter_cong refl) (auto simp: rem)
  ultimately have "mset (items h2) = mset (filter (\<lambda>z. \<forall>x \<in> set rem - {y}. \<not> R x z) (remove1 y rem))"
    using r(3) mset_filter_disj [of "remove1 y rem" ?ready ?new] y(1)
    by (auto simp del: mset_filter)
  moreover have "degreeOf ind2 z = int (card {x \<in> set rem - {y}. R x z})" if "z \<in> set rem" for z
    using r(4) [of z] deg [OF that] card [of z] pos [of z] by (cases "R y z") (simp_all add: of_nat_diff Suc_leI)
  moreover have "sorted_wrt (\<lambda>a b. rankOf (ranks h) a < rankOf (ranks h) b) (remove1 y rem)"
    using inv by (simp add: loopInv_def sorted_wrt_remove1)
  ultimately show ?thesis
    using r(1,2) es sub y(2) dist unfolding loopInv_def rem by (auto simp del: mset_filter)
qed

lemma drain_greedy:
  assumes "loopInv R es rem h ind" "length ordered = length seen"
    and "drain look es h ind seen ordered = (seen', ordered')"
  shows "\<exists>new left. greedy R rem = new @ left \<and> seen' = seen @ new \<and> ordered' = ordered @ map look new
    \<and> left = filter (\<lambda>i. i \<notin> set new) rem"
  using assms
proof (induction look es h ind seen ordered arbitrary: rem rule: drain.induct)
  case (1 look es h ind seen ordered)
  show ?case
  proof (cases "heapPop h")
    case None
    then have "items h = []" by (auto simp: heapPop_def heap_Pop_def Let_def split: if_splits option.splits)
    then have "filter (\<lambda>y. \<forall>x \<in> set rem. \<not> R x y) rem = []"
      using "1.prems"(1) by (simp add: loopInv_def del: mset_filter)
    then have "greedy R rem = rem" by (intro greedy_None) (simp add: find_filter_hd)
    moreover have "seen' = seen" "ordered' = ordered"
      using "1.prems"(3) None by (simp_all add: drain.simps [of look es h])
    ultimately show ?thesis by (intro exI [of _ "[]"] exI [of _ rem]) auto
  next
    case (Some p)
    obtain y h1 where y: "p = (y, h1)" by (cases p)
    obtain h2 ind2 where rel: "relax (es y) h1 ind = (h2, ind2)" by (cases "relax (es y) h1 ind")
    note pop = Some [unfolded y]
    have run: "drain look es h2 ind2 (seen @ [y]) (ordered @ [look y]) = (seen', ordered')"
      using "1.prems"(3) by (simp add: drain.simps [of look es h] pop rel)
    obtain new left where IH: "greedy R (remove1 y rem) = new @ left" "seen' = (seen @ [y]) @ new"
      "ordered' = (ordered @ [look y]) @ map look new" "left = filter (\<lambda>i. i \<notin> set new) (remove1 y rem)"
      using "1.IH" [OF Some y [symmetric] rel [symmetric] loopInv_step [OF "1.prems"(1) pop rel]] "1.prems"(2) run
      by auto
    have dist: "distinct rem" using "1.prems"(1) by (simp add: loopInv_def)
    have "left = filter (\<lambda>i. i \<notin> set (y # new)) rem"
      using filter_remove1_distinct [OF dist, of y "\<lambda>i. i \<notin> set new"] by (simp add: IH(4))
    moreover have "greedy R rem = (y # new) @ left"
      using greedy_Some [OF loopInv_pop(1) [OF "1.prems"(1) pop]] IH(1) by simp
    ultimately show ?thesis using IH(2,3) by (intro exI [of _ "y # new"] exI [of _ left]) simp
  qed
qed

lemma rank_indexBase:
  assumes "distinct (map ID base)"
  shows "sorted_wrt (\<lambda>a b. rankOf (indexBase base i m) a < rankOf (indexBase base i m) b) (map ID base)
    \<and> (\<forall>k \<in> ID ` set base. i \<le> rankOf (indexBase base i m) k)
    \<and> (\<forall>k. k \<notin> ID ` set base \<longrightarrow> indexBase base i m k = m k)"
  using assms
proof (induction base arbitrary: i m)
  case (Cons c cs)
  let ?m = "indexBase cs (Suc i) (m(ID c \<mapsto> i))"
  have IH: "sorted_wrt (\<lambda>a b. rankOf ?m a < rankOf ?m b) (map ID cs)"
    "\<And>k. k \<in> ID ` set cs \<Longrightarrow> Suc i \<le> rankOf ?m k"
    "\<And>k. k \<notin> ID ` set cs \<Longrightarrow> ?m k = (m(ID c \<mapsto> i)) k"
    using Cons.IH [of "Suc i" "m(ID c \<mapsto> i)"] Cons.prems by (auto simp del: fun_upd_apply)
  have c: "rankOf ?m (ID c) = i"
    using IH(3) [of "ID c"] Cons.prems by (simp add: rankOf_def)
  show ?case
    using IH c Cons.prems by (auto simp: Suc_le_eq less_imp_le)
qed simp

text \<open>The whole ordering step, given the base order.\<close>

lemma orderBase_greedy:
  assumes dist: "distinct (map ID base)" and ids: "\<And>c. c \<in> set base \<Longrightarrow> charAt d (ID c) = c"
  shows "orderBase d base = map (charAt d) (greedy (anchorEdge base) (map ID base))"
proof -
  let ?R = "anchorEdge base" and ?g = "buildGraph base" and ?m = "indexBase base 0 Map.empty"
  let ?ready = "seedReady base (indegree ?g) \<lparr>items = [], ranks = ?m\<rparr>"
  have init: "heap_Init (rankOf ?m) [] = []" by (simp add: heap_Init_def)
  have rep: "graphRep (ID ` set base) {(x, y). ?R x y} ?g" using dist by (rule buildGraph_rep)
  have deg: "degreeOf (indegree ?g) y = int (card {x \<in> ID ` set base. ?R x y})"
    if "y \<in> ID ` set base" for y
  proof -
    have "{(x, y). ?R x y}\<inverse> `` {y} = {x \<in> ID ` set base. ?R x y}" by (auto simp: anchorEdge_def)
    then show ?thesis using rep that unfolding graphRep_def by auto
  qed
  have zero: "degreeOf (indegree ?g) y = 0 \<longleftrightarrow> (\<forall>x \<in> set (map ID base). \<not> ?R x y)"
    if "y \<in> ID ` set base" for y
    using deg [OF that] by (auto simp: card_eq_0_iff)
  have "is_heap (rankOf ?m) []" by (simp add: is_heap_def heap_ok_def)
  from seedReady_spec [of "\<lparr>items = [], ranks = ?m\<rparr>" base "indegree ?g"] this
  have ready: "ranks ?ready = ?m" "is_heap (rankOf ?m) (items ?ready)"
    "mset (items ?ready) = mset (filter (\<lambda>i. degreeOf (indegree ?g) i = 0) (map ID base))"
    by simp_all
  have "filter (\<lambda>i. degreeOf (indegree ?g) i = 0) (map ID base)
      = filter (\<lambda>y. \<forall>x \<in> set (map ID base). \<not> ?R x y) (map ID base)"
    using zero by (intro filter_cong refl) auto
  then have inv: "loopInv ?R (edges ?g) (map ID base) ?ready (indegree ?g)"
    using ready rank_indexBase [OF dist, of 0 Map.empty] dist deg rep
    unfolding loopInv_def graphRep_def by (auto simp: anchorEdge_def simp del: mset_filter)
  obtain seen ordered where dr: "drain (charAt d) (edges ?g) ?ready (indegree ?g) [] [] = (seen, ordered)"
    by fastforce
  obtain left where left: "greedy ?R (map ID base) = seen @ left" "ordered = map (charAt d) seen"
      "left = filter (\<lambda>i. i \<notin> set seen) (map ID base)"
    using drain_greedy [OF inv _ dr] by auto
  have rest: "map (charAt d) left = filter (\<lambda>c. ID c \<notin> set seen) base"
    using ids by (auto simp: left(3) filter_map o_def intro!: map_idI)
  have "length (seen @ left) = length base"
    using arg_cong [OF mset_greedy [of ?R "map ID base"], of size] by (simp add: left(1))
  then have "length ordered = length base \<longleftrightarrow> left = []" by (auto simp: left(2))
  then show ?thesis
    using dr init left(1,2) rest by (auto simp: orderBase_def Let_def map_idI)
qed

end
