(* ===== verification/Crdt_Order.thy ===== *)
theory Crdt_Order
  imports Crdt_Topo
begin

text \<open>
  What \<open>Document.Snapshot\<close> and \<open>Document.Text\<close> return for a well-formed
  document: the depth-first walk ends and lists exactly the anchored characters, each once and
  after its left anchor; the final order is the greedy order of the anchors; and the result
  depends on the stored characters only, not on the iteration order of the map.
\<close>

section \<open>Groups of siblings\<close>

lemma groupChildren_filter:
  "groupChildren cs m p = m p @ filter (\<lambda>c. parentOf c = p) cs"
  by (induction cs arbitrary: m) auto

lemma sortedChildren_eq:
  "sortedChildren d p = sort_key ID (filter (\<lambda>c. parentOf c = p) (map snd (chars d)))"
  by (simp add: sortedChildren_def groupChildren_filter)

lemma wfDoc_mem: "wfDoc d \<Longrightarrow> c \<in> snd ` set (chars d) \<longleftrightarrow> lookupChar d (ID c) = Some c"
  by (force simp: wfDoc_def lookupChar_def list_all_iff wfChar_def image_iff dest: map_of_SomeD)

lemma wfDoc_inj: "wfDoc d \<Longrightarrow> inj_on ID (snd ` set (chars d))"
  by (rule inj_onI) (metis wfDoc_mem option.inject)

lemma wfDoc_distinct_IDs: "wfDoc d \<Longrightarrow> distinct (map ID (map snd (chars d)))"
proof -
  assume wf: "wfDoc d"
  have "map ID (map snd (chars d)) = map fst (chars d)"
    using wf by (auto simp: wfDoc_def list_all_iff wfChar_def)
  then show ?thesis using wfDoc_distinct [OF wf] by (simp del: map_map)
qed

lemma children_mem:
  "wfDoc d \<Longrightarrow> c \<in> set (sortedChildren d p) \<longleftrightarrow> lookupChar d (ID c) = Some c \<and> parentOf c = p"
  using wfDoc_mem [of d c] by (auto simp: sortedChildren_eq)

lemma children_distinct: "wfDoc d \<Longrightarrow> distinct (map ID (sortedChildren d p))"
proof -
  assume "wfDoc d"
  then have "distinct (map ID (filter (\<lambda>c. parentOf c = p) (map snd (chars d))))"
    using wfDoc_distinct_IDs by (auto intro: distinct_map_filter)
  moreover have "mset (map ID (sortedChildren d p)) = mset (map ID (filter (\<lambda>c. parentOf c = p) (map snd (chars d))))"
    by (simp add: sortedChildren_eq)
  ultimately show ?thesis by (metis mset_eq_imp_distinct_iff)
qed

text \<open>Siblings are listed by increasing identity.\<close>

lemma children_sorted: "sorted (map ID (sortedChildren d p))"
  by (simp add: sortedChildren_eq)

lemma children_cong:
  assumes "wfDoc d" "wfDoc e" "lookupChar d = lookupChar e"
  shows "sortedChildren d = sortedChildren e"
proof
  fix p
  have "mset (chars d) = mset (chars e)"
    using assms by (intro distinct_keys_mset) (auto simp: wfDoc_def lookupChar_def)
  then have "mset (filter (\<lambda>c. parentOf c = p) (map snd (chars d)))
      = mset (filter (\<lambda>c. parentOf c = p) (map snd (chars e)))"
    by simp
  moreover have "inj_on ID (set (filter (\<lambda>c. parentOf c = p) (map snd (chars d))))"
    by (rule inj_on_subset [OF wfDoc_inj [OF assms(1)]]) auto
  ultimately show "sortedChildren d p = sortedChildren e p"
    unfolding sortedChildren_eq by (rule sort_key_mset_cong)
qed

section \<open>Chains of left anchors\<close>

text \<open>
  A chain lists a character's identity, that of its left anchor, and so on up to the start of
  the document. The root identity is no character's, so the chain of a character is unique and
  visits no character twice.
\<close>

fun chain :: "Document \<Rightarrow> CharID list \<Rightarrow> bool" where
  "chain d [] = True"
| "chain d (k # ks) =
     (\<exists>c. lookupChar d k = Some c \<and> parentOf c = (case ks of [] \<Rightarrow> rootID | p # _ \<Rightarrow> p) \<and> chain d ks)"

definition chainTop :: "CharID list \<Rightarrow> CharID" where
  "chainTop ks = (case ks of [] \<Rightarrow> rootID | p # _ \<Rightarrow> p)"

lemma chainTop_simps [simp]: "chainTop [] = rootID" "chainTop (k # ks) = k"
  by (simp_all add: chainTop_def)

lemma chain_Cons [simp]:
  "chain d (k # ks) \<longleftrightarrow> (\<exists>c. lookupChar d k = Some c \<and> parentOf c = chainTop ks \<and> chain d ks)"
  by (simp add: chainTop_def)

declare chain.simps(2) [simp del]

lemma root_not_char: "wfDoc d \<Longrightarrow> lookupChar d rootID = None"
  using wfDoc_lookup [of d rootID] by (cases "lookupChar d rootID") (auto simp: wfChar_def invalidID_def rootID_def)

lemma chain_unique: "wfDoc d \<Longrightarrow> chain d ks \<Longrightarrow> chain d ks' \<Longrightarrow> chainTop ks = chainTop ks' \<Longrightarrow> ks = ks'"
proof (induction ks arbitrary: ks')
  case Nil
  then show ?case by (cases ks') (auto simp: root_not_char)
next
  case (Cons k ks)
  then have k: "chainTop ks' = k" by simp
  have "ks' \<noteq> []" using Cons.prems(1,2) k root_not_char [OF Cons.prems(1)] by auto
  then obtain ks1 where ks': "ks' = k # ks1" using k by (cases ks') auto
  have "chain d ks" "chain d ks1" "chainTop ks = chainTop ks1" using Cons.prems(2,3) ks' by auto
  then have "ks = ks1" using Cons.prems(1) by (intro Cons.IH)
  then show ?case using ks' by simp
qed

lemma chain_suffix: "chain d (us @ ks) \<Longrightarrow> chain d ks"
  by (induction us) auto

lemma chain_distinct: "wfDoc d \<Longrightarrow> chain d ks \<Longrightarrow> distinct ks"
proof (induction ks)
  case (Cons k ks)
  have "k \<notin> set ks"
  proof
    assume "k \<in> set ks"
    then obtain us vs where ks: "ks = us @ k # vs" by (auto dest: split_list)
    then have "chain d (k # vs)" using Cons.prems(2) chain_suffix [of d "k # us" "k # vs"] by simp
    then have "k # vs = k # ks" using Cons.prems by (intro chain_unique) auto
    then show False using ks by simp
  qed
  then show ?case using Cons by auto
qed simp

lemma chain_length: "wfDoc d \<Longrightarrow> chain d ks \<Longrightarrow> length ks \<le> length (chars d)"
proof -
  assume wf: "wfDoc d" and ks: "chain d ks"
  have "k \<in> set (map fst (chars d))" if k: "k \<in> set ks" for k
  proof -
    obtain us vs where "ks = us @ k # vs" using split_list [OF k] by blast
    then have "chain d (k # vs)" using ks chain_suffix by metis
    then show ?thesis by (auto simp: lookupChar_def dest: map_of_SomeD intro: rev_image_eqI)
  qed
  then have "set ks \<subseteq> set (map fst (chars d))" by blast
  then have "card (set ks) \<le> card (set (map fst (chars d)))" by (intro card_mono) auto
  then show ?thesis
    using distinct_card [OF chain_distinct [OF wf ks]] distinct_card [OF wfDoc_distinct [OF wf]] by simp
qed

lemma anchored_chain:
  assumes wf: "wfDoc d"
  shows "anchored (lookupChar d) k \<longleftrightarrow> (\<exists>ks. chain d (k # ks))"
proof
  assume "anchored (lookupChar d) k"
  then show "\<exists>ks. chain d (k # ks)"
  proof (induction rule: anchored.induct)
    case (start k c)
    then show ?case by (intro exI [of _ "[]"]) (simp add: parentOf_def)
  next
    case (after k c l)
    then obtain ks where "chain d (l # ks)" by blast
    with after show ?case by (intro exI [of _ "l # ks"]) (simp add: parentOf_def)
  qed
next
  assume "\<exists>ks. chain d (k # ks)"
  then obtain ks where "chain d (k # ks)" by blast
  then show "anchored (lookupChar d) k"
  proof (induction ks arbitrary: k)
    case Nil
    then obtain c where c: "lookupChar d k = Some c" "parentOf c = rootID" by auto
    then have "LeftID c = None"
      using wfDoc_lookup [OF wf c(1)]
      by (auto simp: parentOf_def wfChar_def invalidID_def rootID_def split: option.splits)
    with c show ?case by (auto intro: anchored.start)
  next
    case (Cons l ks)
    then obtain c where c: "lookupChar d k = Some c" "parentOf c = l" "chain d (l # ks)" by auto
    moreover have "l \<noteq> rootID" using c(3) root_not_char [OF wf] by auto
    ultimately show ?case
      using Cons.IH [of l] by (auto simp: parentOf_def split: option.splits intro: anchored.after)
  qed
qed

section \<open>The depth-first walk\<close>

text \<open>The identities of the subtree below a chain.\<close>

definition below :: "Document \<Rightarrow> CharID list \<Rightarrow> CharID set" where
  "below d ks = {k. \<exists>us. us \<noteq> [] \<and> hd us = k \<and> chain d (us @ ks)}"

definition subtree :: "Document \<Rightarrow> CharID list \<Rightarrow> CharID \<Rightarrow> CharID set" where
  "subtree d ks k = Set.insert k (below d (k # ks))"

lemma child_chain:
  "wfDoc d \<Longrightarrow> chain d ks \<Longrightarrow> c \<in> set (sortedChildren d (chainTop ks)) \<Longrightarrow> chain d (ID c # ks)"
  by (auto simp: children_mem)

lemma subtree_chain:
  assumes "wfDoc d" "chain d (k # ks)" "j \<in> subtree d ks k"
  obtains us where "us \<noteq> []" "hd us = j" "last us = k" "chain d (us @ ks)"
proof (cases "j = k")
  case True
  with assms that [of "[k]"] show ?thesis by simp
next
  case False
  with assms obtain us where "us \<noteq> []" "hd us = j" "chain d (us @ k # ks)"
    by (auto simp: subtree_def below_def)
  with that [of "us @ [k]"] show ?thesis by simp
qed

lemma below_split:
  assumes wf: "wfDoc d" and ks: "chain d ks"
  shows "below d ks = (\<Union>c \<in> set (sortedChildren d (chainTop ks)). subtree d ks (ID c))"
proof (intro equalityI subsetI)
  fix k assume "k \<in> below d ks"
  then obtain us where us: "us \<noteq> []" "hd us = k" "chain d (us @ ks)" by (auto simp: below_def)
  then obtain vs l where vs: "us = vs @ [l]" by (metis append_butlast_last_id)
  then have l: "chain d (l # ks)" using us(3) chain_suffix [of d vs "l # ks"] by simp
  then obtain c where c: "lookupChar d l = Some c" "parentOf c = chainTop ks" by auto
  then have "c \<in> set (sortedChildren d (chainTop ks))" "ID c = l"
    using wfDoc_lookup_ID [OF wf c(1)] wf by (auto simp: children_mem)
  moreover have "k \<in> subtree d ks l"
    using us vs by (cases vs) (auto simp: subtree_def below_def)
  ultimately show "k \<in> (\<Union>c \<in> set (sortedChildren d (chainTop ks)). subtree d ks (ID c))" by auto
next
  fix k assume "k \<in> (\<Union>c \<in> set (sortedChildren d (chainTop ks)). subtree d ks (ID c))"
  then obtain c where c: "c \<in> set (sortedChildren d (chainTop ks))" "k \<in> subtree d ks (ID c)" by auto
  show "k \<in> below d ks"
    by (rule subtree_chain [OF wf child_chain [OF wf ks c(1)] c(2)]) (auto simp: below_def)
qed

lemma chain_append_unique:
  assumes "wfDoc d" "chain d (us @ ks)" "chain d (vs @ ks)" "us \<noteq> []" "vs \<noteq> []" "hd us = hd vs"
  shows "us = vs"
proof -
  have "chainTop (us @ ks) = chainTop (vs @ ks)" using assms(4-6) by (cases us; cases vs) auto
  then have "us @ ks = vs @ ks" using chain_unique assms(1-3) by blast
  then show ?thesis by simp
qed

lemma subtree_disjoint:
  assumes "wfDoc d" "chain d (k # ks)" "chain d (l # ks)" "k \<noteq> l"
  shows "subtree d ks k \<inter> subtree d ks l = {}"
proof (rule ccontr)
  assume "subtree d ks k \<inter> subtree d ks l \<noteq> {}"
  then obtain j where j: "j \<in> subtree d ks k" "j \<in> subtree d ks l" by blast
  obtain us where us: "us \<noteq> []" "hd us = j" "last us = k" "chain d (us @ ks)"
    using assms(1,2) j(1) by (rule subtree_chain)
  obtain vs where vs: "vs \<noteq> []" "hd vs = j" "last vs = l" "chain d (vs @ ks)"
    using assms(1,3) j(2) by (rule subtree_chain)
  have "us = vs" using chain_append_unique [OF assms(1) us(4) vs(4)] us vs by simp
  then show False using us vs assms(4) by simp
qed

lemma self_not_below: "wfDoc d \<Longrightarrow> chain d (k # ks) \<Longrightarrow> k \<notin> below d (k # ks)"
proof
  assume wf: "wfDoc d" and "chain d (k # ks)" "k \<in> below d (k # ks)"
  then obtain us where "us \<noteq> []" "hd us = k" "chain d (us @ k # ks)" by (auto simp: below_def)
  then have "distinct (us @ k # ks)" by (intro chain_distinct [OF wf])
  then show False using \<open>us \<noteq> []\<close> \<open>hd us = k\<close> by (cases us) auto
qed

text \<open>The result of a walk, and that a walk with enough depth has one.\<close>

definition walkOf :: "Document \<Rightarrow> CharID list \<Rightarrow> CharID set \<Rightarrow> crdt_char list \<Rightarrow> bool" where
  "walkOf d ks K xs \<longleftrightarrow>
     ID ` set xs = K \<and> distinct (map ID xs) \<and> topdown ID parentOf {chainTop ks} xs
     \<and> (\<forall>c \<in> set xs. lookupChar d (ID c) = Some c)"

lemma visitEach_walk:
  assumes wf: "wfDoc d" and ks: "chain d ks"
    and rec: "\<And>c xs. c \<in> set (sortedChildren d (chainTop ks)) \<Longrightarrow> rec (ID c) = Some xs
                \<Longrightarrow> walkOf d (ID c # ks) (below d (ID c # ks)) xs"
  shows "set cs \<subseteq> set (sortedChildren d (chainTop ks)) \<Longrightarrow> distinct (map ID cs) \<Longrightarrow>
    visitEach rec cs = Some xs \<Longrightarrow> walkOf d ks (\<Union>c \<in> set cs. subtree d ks (ID c)) xs"
proof (induction cs arbitrary: xs)
  case (Cons c cs)
  then obtain sub rest where sub: "rec (ID c) = Some sub" "visitEach rec cs = Some rest"
      "xs = c # sub @ rest"
    by (auto split: option.splits)
  have c: "c \<in> set (sortedChildren d (chainTop ks))" using Cons.prems(1) by simp
  note cc = child_chain [OF wf ks c]
  have w1: "walkOf d (ID c # ks) (below d (ID c # ks)) sub" using rec [OF c sub(1)] .
  have w2: "walkOf d ks (\<Union>c \<in> set cs. subtree d ks (ID c)) rest"
    using Cons.IH [OF _ _ sub(2)] Cons.prems by auto
  have disj: "subtree d ks (ID c) \<inter> (\<Union>c \<in> set cs. subtree d ks (ID c)) = {}"
  proof -
    have "subtree d ks (ID c) \<inter> subtree d ks (ID c') = {}" if "c' \<in> set cs" for c'
      using that Cons.prems(1,2) child_chain [OF wf ks]
      by (intro subtree_disjoint [OF wf cc]) auto
    then show ?thesis by blast
  qed
  have "topdown ID parentOf {ID c, chainTop ks} sub" "topdown ID parentOf (Set.insert (ID c) ({chainTop ks} \<union> ID ` set sub)) rest"
    using w1 w2 unfolding walkOf_def by (auto elim!: topdown_mono)
  then have "topdown ID parentOf {chainTop ks} xs"
    using c wf by (simp add: sub(3) topdown_append children_mem insert_commute)
  moreover have ids: "ID ` set sub = below d (ID c # ks)"
      "ID ` set rest = (\<Union>c \<in> set cs. subtree d ks (ID c))"
    using w1 w2 by (simp_all add: walkOf_def)
  have "ID ` set xs = (\<Union>c \<in> set (c # cs). subtree d ks (ID c))"
    by (simp add: sub(3) image_Un ids subtree_def [of d ks "ID c"] del: UN_simps)
  moreover have "distinct (map ID xs)"
  proof -
    have "ID c \<notin> ID ` set sub" using self_not_below [OF wf cc] ids(1) by simp
    moreover have "ID c \<notin> ID ` set rest" "ID ` set sub \<inter> ID ` set rest = {}"
      using disj unfolding ids subtree_def [of d ks "ID c"] by blast+
    ultimately show ?thesis using w1 w2 by (simp add: sub(3) walkOf_def)
  qed
  moreover have "\<forall>c \<in> set xs. lookupChar d (ID c) = Some c"
    using w1 w2 c wf by (auto simp: sub(3) walkOf_def children_mem)
  ultimately show ?case by (simp only: walkOf_def simp_thms)
qed (simp add: walkOf_def)

lemma visit_walk:
  "wfDoc d \<Longrightarrow> chain d ks \<Longrightarrow> visit n (sortedChildren d) (chainTop ks) = Some xs \<Longrightarrow>
   walkOf d ks (below d ks) xs"
proof (induction n arbitrary: ks xs)
  case (Suc n)
  have "walkOf d ks (\<Union>c \<in> set (sortedChildren d (chainTop ks)). subtree d ks (ID c)) xs"
  proof (rule visitEach_walk [OF Suc.prems(1,2)])
    show "walkOf d (ID c # ks) (below d (ID c # ks)) ys"
      if "c \<in> set (sortedChildren d (chainTop ks))" "visit n (sortedChildren d) (ID c) = Some ys" for c ys
      using Suc.IH [OF Suc.prems(1) child_chain [OF Suc.prems(1,2) that(1)]] that(2) by simp
  qed (use Suc.prems in \<open>auto simp: children_distinct\<close>)
  then show ?case by (simp add: below_split [OF Suc.prems(1,2)])
qed simp

lemma visitEach_Some: "(\<And>c. c \<in> set cs \<Longrightarrow> rec (ID c) \<noteq> None) \<Longrightarrow> \<exists>xs. visitEach rec cs = Some xs"
proof (induction cs)
  case (Cons c cs)
  then obtain sub rest where "rec (ID c) = Some sub" "visitEach rec cs = Some rest" by fastforce
  then show ?case by simp
qed simp

lemma visit_enough:
  "wfDoc d \<Longrightarrow> chain d ks \<Longrightarrow> length (chars d) < n + length ks \<Longrightarrow>
   \<exists>xs. visit n (sortedChildren d) (chainTop ks) = Some xs"
proof (induction n arbitrary: ks)
  case 0
  then show ?case using chain_length [OF 0(1,2)] by simp
next
  case (Suc n)
  have "visit n (sortedChildren d) (ID c) \<noteq> None"
    if c: "c \<in> set (sortedChildren d (chainTop ks))" for c
    using Suc.IH [OF Suc.prems(1) child_chain [OF Suc.prems(1,2) c]] Suc.prems(3) by auto
  then show ?case by (auto intro: visitEach_Some)
qed

lemma below_start: "wfDoc d \<Longrightarrow> below d [] = {k. anchored (lookupChar d) k}"
proof -
  assume wf: "wfDoc d"
  have "k \<in> below d [] \<longleftrightarrow> (\<exists>ks. chain d (k # ks))" for k
  proof
    assume "k \<in> below d []"
    then obtain us where "us \<noteq> []" "hd us = k" "chain d us" by (auto simp: below_def)
    then show "\<exists>ks. chain d (k # ks)" by (intro exI [of _ "tl us"]) (cases us; simp)
  next
    assume "\<exists>ks. chain d (k # ks)"
    then obtain ks where "chain d (k # ks)" ..
    then show "k \<in> below d []"
      unfolding below_def by (intro CollectI exI [of _ "k # ks"]) simp
  qed
  then show ?thesis using anchored_chain [OF wf] by blast
qed

lemma baseOrder_walk:
  assumes "wfDoc d"
  obtains base where "baseOrder d = Some base" "walkOf d [] {k. anchored (lookupChar d) k} base"
proof -
  obtain base where b: "visit (Suc (length (chars d))) (sortedChildren d) (chainTop []) = Some base"
    using visit_enough [OF assms, of "[]" "Suc (length (chars d))"] by auto
  then have "walkOf d [] {k. anchored (lookupChar d) k} base"
    using visit_walk [OF assms _ b] below_start [OF assms] by simp
  with b that show ?thesis by (simp add: baseOrder_def)
qed

section \<open>The order of a snapshot\<close>

lemma charAt_lookup: "lookupChar d k = Some c \<Longrightarrow> charAt d k = c"
  by (simp add: charAt_def lookupChar_def)

lemma Snapshot_greedy:
  assumes "wfDoc d" "baseOrder d = Some base"
  shows "Snapshot (Some d) = Some (map (charAt d) (greedy (anchorEdge base) (map ID base)))"
proof -
  have walk: "walkOf d [] {k. anchored (lookupChar d) k} base"
    using baseOrder_walk [OF assms(1)] assms(2) by (metis option.inject)
  then have base: "distinct (map ID base)" "\<And>c. c \<in> set base \<Longrightarrow> charAt d (ID c) = c"
    by (auto simp: walkOf_def charAt_lookup)
  show ?thesis
  proof (cases "chars d = []")
    case True
    then have "base = []"
      using assms(2) by (simp add: baseOrder_def sortedChildren_eq)
    then show ?thesis using True by (simp add: Snapshot_def greedy.simps)
  next
    case False
    then show ?thesis
      using orderBase_greedy [OF base] assms(2) by (simp add: Snapshot_def)
  qed
qed

text \<open>What callers rely on: the characters of a snapshot, and left anchors first.\<close>

lemma Snapshot_walk:
  assumes wf: "wfDoc d"
  obtains cs where "Snapshot (Some d) = Some cs" "walkOf d [] {k. anchored (lookupChar d) k} cs"
proof -
  obtain base where base: "baseOrder d = Some base" "walkOf d [] {k. anchored (lookupChar d) k} base"
    using baseOrder_walk [OF wf] .
  let ?R = "anchorEdge base" and ?par = "\<lambda>i. parentOf (charAt d i)"
  let ?ids = "greedy ?R (map ID base)"
  have at: "\<And>c. c \<in> set base \<Longrightarrow> charAt d (ID c) = c"
    and look: "\<And>c. c \<in> set base \<Longrightarrow> lookupChar d (ID c) = Some c"
    using base(2) by (auto simp: walkOf_def charAt_lookup)
  have ids: "map ID (map (charAt d) ?ids) = ?ids"
    unfolding map_map by (rule map_idI) (use at in auto)
  have "topdown (\<lambda>x. x) ?par {rootID} (map ID base)"
    using base(2) topdown_cong [of base ID ID parentOf "\<lambda>c. parentOf (charAt d (ID c))"] at
    by (simp add: walkOf_def topdown_map o_def)
  moreover have "?R (?par i) i" if i: "i \<in> set (map ID base)" "?par i \<in> set (map ID base)" for i
  proof -
    obtain c where c: "c \<in> set base" "i = ID c" using i(1) by auto
    have "parentOf c \<noteq> rootID" using i(2) root_not_char [OF wf] look at c by force
    then have "LeftID c = Some (parentOf c)" by (auto simp: parentOf_def split: option.splits)
    moreover have "parentOf c \<noteq> ID c"
      using wfDoc_lookup [OF wf look [OF c(1)]] calculation by (auto simp: wfChar_def)
    ultimately show ?thesis using i c at by (auto simp: anchorEdge_def)
  qed
  ultimately have td: "topdown (\<lambda>x. x) ?par {rootID} ?ids"
    using base(2) by (intro topdown_greedy) (auto simp: walkOf_def)
  have "topdown ID parentOf {rootID} (map (charAt d) ?ids)"
    unfolding topdown_map using td at
    by (subst topdown_cong [where key' = "\<lambda>x. x" and par' = ?par]) auto
  moreover have "distinct ?ids" "set ?ids = {k. anchored (lookupChar d) k}"
    using base(2) by (auto simp: walkOf_def)
  moreover have "ID ` set (map (charAt d) ?ids) = set ?ids"
    using arg_cong [OF ids, of set] by (simp add: image_image)
  moreover have "\<forall>c \<in> set (map (charAt d) ?ids). lookupChar d (ID c) = Some c"
    using at look by auto
  ultimately have "walkOf d [] {k. anchored (lookupChar d) k} (map (charAt d) ?ids)"
    unfolding walkOf_def ids by simp
  then show ?thesis using that Snapshot_greedy [OF wf base(1)] by blast
qed

text \<open>The snapshot is a function of the stored characters alone.\<close>

lemma Snapshot_cong:
  assumes "wfDoc d" "wfDoc e" "lookupChar d = lookupChar e"
  shows "Snapshot (Some d) = Snapshot (Some e)"
proof -
  have len: "length (chars d) = length (chars e)"
    using distinct_keys_mset [of "chars d" "chars e"] assms
    by (metis lookupChar_def mset_eq_length wfDoc_distinct)
  then have base: "baseOrder d = baseOrder e"
    by (simp add: baseOrder_def children_cong [OF assms])
  have "charAt d = charAt e"
    using assms(3) by (simp add: fun_eq_iff charAt_def lookupChar_def)
  moreover obtain b where "baseOrder d = Some b" using baseOrder_walk [OF assms(1)] .
  ultimately show ?thesis
    using Snapshot_greedy assms(1,2) base by simp
qed

lemma Text_cong:
  "wfDoc d \<Longrightarrow> wfDoc e \<Longrightarrow> lookupChar d = lookupChar e \<Longrightarrow> Text (Some d) = Text (Some e)"
  by (simp add: Text_def Snapshot_cong [of d e])

text \<open>Acyclic constraints are all met by the final order.\<close>

lemma precedes_map: "precedes xs x y \<Longrightarrow> precedes (map f xs) (f x) (f y)"
  unfolding precedes_def by (metis image_eqI list.set_map list.simps(9) map_append)

lemma Snapshot_precedes:
  assumes wf: "wfDoc d" and base: "baseOrder d = Some base" and acyc: "acyclicP (anchorEdge base)"
    and edge: "anchorEdge base x y" and snap: "Snapshot (Some d) = Some cs"
  shows "precedes cs (charAt d x) (charAt d y)"
proof -
  have "walkOf d [] {k. anchored (lookupChar d) k} base"
    using baseOrder_walk [OF wf] base by (metis option.inject)
  then have "distinct (map ID base)" by (simp add: walkOf_def)
  then have "precedes (greedy (anchorEdge base) (map ID base)) x y"
    using acyc edge by (intro greedy_precedes) (auto simp: anchorEdge_def)
  then have "precedes (map (charAt d) (greedy (anchorEdge base) (map ID base))) (charAt d x) (charAt d y)"
    by (rule precedes_map)
  then show ?thesis using snap Snapshot_greedy [OF wf base] by simp
qed

section \<open>Compacted documents\<close>

text \<open>
  A document left by removing characters stays rooted when no remaining character has a removed
  one as its left anchor.
\<close>

lemma rooted_Compact:
  assumes "rooted d"
    and sub: "\<And>k. lookupChar d' k = None \<or> lookupChar d' k = lookupChar d k"
    and closed: "\<And>k c l. lookupChar d' k = Some c \<Longrightarrow> LeftID c = Some l \<Longrightarrow> lookupChar d' l \<noteq> None"
  shows "rooted d'"
proof -
  have "anchored (lookupChar d') k" if "anchored (lookupChar d) k" "lookupChar d' k \<noteq> None" for k
    using that
  proof (induction rule: anchored.induct)
    case (start k c)
    then show ?case using sub [of k] by (auto intro: anchored.start)
  next
    case (after k c l)
    then have "lookupChar d' k = Some c" using sub [of k] by auto
    then show ?case using after closed by (auto intro: anchored.after)
  qed
  then show ?thesis
    using assms(1) sub unfolding rooted_def by (metis domIff)
qed

text \<open>The live characters of a rooted document are all listed, each once.\<close>

lemma mset_visible:
  assumes wf: "wfDoc d" and "rooted d" "Snapshot (Some d) = Some cs"
  shows "distinct (filter (\<lambda>c. \<not> Deleted c) cs)
    \<and> set (filter (\<lambda>c. \<not> Deleted c) cs) = {c. lookupChar d (ID c) = Some c \<and> \<not> Deleted c}"
proof -
  have walk: "walkOf d [] {k. anchored (lookupChar d) k} cs"
    using Snapshot_walk [OF wf] assms(3) by (metis option.inject)
  have "c \<in> set cs" if c: "lookupChar d (ID c) = Some c" for c
  proof -
    have "ID c \<in> ID ` set cs" using walk assms(2) c by (auto simp: walkOf_def rooted_def)
    then obtain c' where "c' \<in> set cs" "ID c' = ID c" by (metis imageE)
    then show ?thesis using walk c by (auto simp: walkOf_def)
  qed
  then show ?thesis using walk by (auto simp: walkOf_def distinct_map)
qed

end
