(* ===== verification/History.thy ===== *)
theory History
  imports Crdt_Order
begin

text \<open>
  \<open>history.BuildAt\<close> of \<open>internal/history/replay.go\<close>: rebuild a document from a
  stored snapshot and the operations after it. Restoring the snapshot of a document gives the
  document back, so replaying a log from a snapshot agrees with replaying the whole log.
\<close>

section \<open>Definitions\<close>

text \<open>The wrapped errors of \<open>BuildAt\<close>; the index of a replayed operation counts from one.\<close>

datatype build_error =
  SnapshotInsert ApplyError | SnapshotTombstone ApplyError | ReplayOperation nat ApplyError

definition snapshotInsertOp :: "crdt_char \<Rightarrow> Operation" where
  "snapshotInsertOp c =
     \<lparr>opType = Insert, opID = ID c, opValue = Value c, opLeftID = LeftID c, opRightID = RightID c\<rparr>"

definition snapshotDeleteOp :: "crdt_char \<Rightarrow> Operation" where
  "snapshotDeleteOp c =
     \<lparr>opType = Delete, opID = ID c, opValue = 0, opLeftID = None, opRightID = None\<rparr>"

fun restoreSnapshot :: "crdt_char list \<Rightarrow> Document \<Rightarrow> build_error + Document" where
  "restoreSnapshot [] d = Inr d"
| "restoreSnapshot (c # cs) d =
     (case Apply (Some d) (snapshotInsertOp c) of
        Inl e \<Rightarrow> Inl (SnapshotInsert e)
      | Inr d1 \<Rightarrow>
          if Deleted c
          then (case Apply (Some d1) (snapshotDeleteOp c) of
                  Inl e \<Rightarrow> Inl (SnapshotTombstone e)
                | Inr d2 \<Rightarrow> restoreSnapshot cs d2)
          else restoreSnapshot cs d1)"

fun replayOps :: "nat \<Rightarrow> Operation list \<Rightarrow> Document \<Rightarrow> build_error + Document" where
  "replayOps index [] d = Inr d"
| "replayOps index (op # ops) d =
     (case Apply (Some d) op of
        Inl e \<Rightarrow> Inl (ReplayOperation (index + 1) e)
      | Inr d' \<Rightarrow> replayOps (index + 1) ops d')"

definition BuildAt :: "crdt_char list \<Rightarrow> Operation list \<Rightarrow> build_error + Document" where
  "BuildAt snapshot ops =
     (case restoreSnapshot snapshot New of
        Inl e \<Rightarrow> Inl e
      | Inr d \<Rightarrow> replayOps 0 ops d)"

section \<open>Replaying operations\<close>

lemma replayOps_Inr: "replayOps i ops d = Inr d' \<longleftrightarrow> replay (\<lambda>d. Apply (Some d)) d ops = Inr d'"
  by (induction ops arbitrary: i d) (auto split: sum.splits)

lemma BuildAt_ops: "BuildAt [] ops = replayOps 0 ops New"
  by (simp add: BuildAt_def)

lemma replayOps_append:
  "replayOps i (xs @ ys) d =
     (case replayOps i xs d of Inl e \<Rightarrow> Inl e | Inr d' \<Rightarrow> replayOps (i + length xs) ys d')"
  by (induction xs arbitrary: i d) (auto split: sum.splits)

text \<open>Replays of equivalent documents: same documents up to the map, same errors.\<close>

lemma replayOps_sameChars:
  "lookupChar d = lookupChar e \<Longrightarrow>
   (case replayOps i ops d of
      Inr d' \<Rightarrow> \<exists>e'. replayOps j ops e = Inr e' \<and> lookupChar d' = lookupChar e'
    | Inl (ReplayOperation k err) \<Rightarrow> replayOps j ops e = Inl (ReplayOperation (k - i + j) err) \<and> i < k
    | Inl _ \<Rightarrow> False)"
proof (induction ops arbitrary: d e i j)
  case (Cons op ops)
  have same: "sameChars d e" using Cons.prems by (simp add: sameChars_def)
  show ?case
  proof (cases "Apply (Some d) op")
    case (Inl err)
    then show ?thesis using crdt.eqv_error [OF same Inl] by simp
  next
    case (Inr d1)
    obtain e1 where e1: "Apply (Some e) op = Inr e1" "lookupChar d1 = lookupChar e1"
      using crdt.eqv_step [OF same Inr] by (auto simp: sameChars_def)
    show ?thesis using Cons.IH [OF e1(2), where i = "i + 1" and j = "j + 1"] Inr e1(1)
      by (auto split: sum.splits build_error.splits)
  qed
qed simp

section \<open>Restoring a snapshot\<close>

lemma Apply_snapshotInsert:
  assumes "wfChar (ID c) c" "lookupChar d (ID c) = None"
    and "parentOf c = rootID \<or> lookupChar d (parentOf c) \<noteq> None"
  shows "\<exists>d1. Apply (Some d) (snapshotInsertOp c) = Inr d1
    \<and> lookupChar d1 = (lookupChar d)(ID c \<mapsto> c\<lparr>Deleted := False\<rparr>)"
proof -
  let ?op = "snapshotInsertOp c"
  have "newChar ?op = c\<lparr>Deleted := False\<rparr>" by (simp add: newChar_def snapshotInsertOp_def)
  moreover have "leftAnchorError d ?op = None"
    using assms by (auto simp: leftAnchorError_def snapshotInsertOp_def wfChar_def invalidID_def
        parentOf_def lookupChar_def rootID_def split: option.splits)
  moreover have "rightAnchorError ?op = None"
    using assms by (auto simp: rightAnchorError_def snapshotInsertOp_def wfChar_def invalidID_def
        split: option.splits)
  ultimately show ?thesis
    using assms(1,2) by (auto simp: Apply_def applyInsert_def snapshotInsertOp_def wfChar_def
        invalidID_def lookupChar_def)
qed

lemma Apply_snapshotDelete:
  assumes "wfChar (ID c) c" "lookupChar d (ID c) = Some (c\<lparr>Deleted := False\<rparr>)"
  shows "\<exists>d1. Apply (Some d) (snapshotDeleteOp c) = Inr d1
    \<and> lookupChar d1 = (lookupChar d)(ID c \<mapsto> c\<lparr>Deleted := True\<rparr>)"
  using assms
  by (auto simp: Apply_def applyDelete_def snapshotDeleteOp_def wfChar_def invalidID_def lookupChar_def)

lemma restoreSnapshot_lookup:
  assumes "topdown ID parentOf (Set.insert rootID (dom (lookupChar d))) cs"
    and "distinct (map ID cs)" "ID ` set cs \<inter> dom (lookupChar d) = {}"
    and "\<And>c. c \<in> set cs \<Longrightarrow> wfChar (ID c) c"
  shows "\<exists>d'. restoreSnapshot cs d = Inr d'
    \<and> lookupChar d' = lookupChar d ++ map_of (map (\<lambda>c. (ID c, c)) cs)"
  using assms
proof (induction cs arbitrary: d)
  case (Cons c cs)
  have c: "wfChar (ID c) c" "lookupChar d (ID c) = None"
    "parentOf c = rootID \<or> lookupChar d (parentOf c) \<noteq> None"
    using Cons.prems by (auto simp: domIff)
  obtain d1 where d1: "Apply (Some d) (snapshotInsertOp c) = Inr d1"
      "lookupChar d1 = (lookupChar d)(ID c \<mapsto> c\<lparr>Deleted := False\<rparr>)"
    using Apply_snapshotInsert [OF c] by blast
  have "\<exists>d2. restoreSnapshot (c # cs) d = restoreSnapshot cs d2 \<and> lookupChar d2 = (lookupChar d)(ID c \<mapsto> c)"
  proof (cases "Deleted c")
    case True
    obtain d2 where "Apply (Some d1) (snapshotDeleteOp c) = Inr d2"
        "lookupChar d2 = (lookupChar d1)(ID c \<mapsto> c\<lparr>Deleted := True\<rparr>)"
      using Apply_snapshotDelete [of c d1] c(1) d1(2) by auto
    moreover have "lookupChar d2 = (lookupChar d)(ID c \<mapsto> c)" using True calculation(2) d1(2) by (cases c) simp
    ultimately show ?thesis using True d1(1) by auto
  next
    case False
    then have "lookupChar d1 = (lookupChar d)(ID c \<mapsto> c)" using d1(2) by (cases c) simp
    then show ?thesis using False d1(1) by auto
  qed
  then obtain d2 where d2: "restoreSnapshot (c # cs) d = restoreSnapshot cs d2"
    "lookupChar d2 = (lookupChar d)(ID c \<mapsto> c)" by blast
  have "\<exists>d'. restoreSnapshot cs d2 = Inr d' \<and> lookupChar d' = lookupChar d2 ++ map_of (map (\<lambda>c. (ID c, c)) cs)"
  proof (rule Cons.IH)
    have dom: "dom (lookupChar d2) = Set.insert (ID c) (dom (lookupChar d))" by (simp add: d2(2))
    show "topdown ID parentOf (Set.insert rootID (dom (lookupChar d2))) cs"
      using Cons.prems(1) unfolding dom by (simp add: insert_commute)
    show "ID ` set cs \<inter> dom (lookupChar d2) = {}"
      using Cons.prems(2,3) unfolding dom by auto
  qed (use Cons.prems in auto)
  moreover have "lookupChar d2 ++ map_of (map (\<lambda>c. (ID c, c)) cs)
      = lookupChar d ++ map_of (map (\<lambda>c. (ID c, c)) (c # cs))"
  proof -
    have "ID c \<notin> dom (map_of (map (\<lambda>c. (ID c, c)) cs))"
      using Cons.prems(2) by (auto simp: dom_map_of_conv_image_fst image_image)
    then show ?thesis by (simp add: d2(2) map_add_upd_left)
  qed
  ultimately show ?case by (simp only: d2(1))
qed simp

lemma map_of_chars:
  assumes "walkOf d [] K cs"
  shows "map_of (map (\<lambda>c. (ID c, c)) cs) = lookupChar d |` K"
proof
  fix k
  have cs: "ID ` set cs = K" "distinct (map ID cs)" "\<And>c. c \<in> set cs \<Longrightarrow> lookupChar d (ID c) = Some c"
    using assms by (auto simp: walkOf_def)
  show "map_of (map (\<lambda>c. (ID c, c)) cs) k = (lookupChar d |` K) k"
  proof (cases "k \<in> K")
    case True
    then obtain c where c: "c \<in> set cs" "k = ID c" using cs(1) by auto
    then have "(k, c) \<in> set (map (\<lambda>c. (ID c, c)) cs)" by auto
    then have "map_of (map (\<lambda>c. (ID c, c)) cs) k = Some c"
      using cs(2) by (intro map_of_is_SomeI) (auto simp: o_def)
    then show ?thesis using True c cs(3) by simp
  next
    case False
    then have "map_of (map (\<lambda>c. (ID c, c)) cs) k = None"
      using cs(1) by (auto simp: map_of_eq_None_iff image_image)
    then show ?thesis using False by simp
  qed
qed

lemma restoreSnapshot_Snapshot:
  assumes wf: "wfDoc d" and snap: "Snapshot (Some d) = Some cs"
  shows "\<exists>d'. restoreSnapshot cs New = Inr d' \<and> wfDoc d'
    \<and> lookupChar d' = lookupChar d |` {k. anchored (lookupChar d) k}"
proof -
  have walk: "walkOf d [] {k. anchored (lookupChar d) k} cs"
    using Snapshot_walk [OF wf] snap by (metis option.inject)
  have New: "lookupChar New = Map.empty" by (simp add: lookupChar_def New_def)
  have "\<exists>d'. restoreSnapshot cs New = Inr d' \<and> lookupChar d' = lookupChar New ++ map_of (map (\<lambda>c. (ID c, c)) cs)"
    using walk wfDoc_lookup [OF wf] by (intro restoreSnapshot_lookup) (auto simp: walkOf_def New)
  then obtain d' where d': "restoreSnapshot cs New = Inr d'"
    "lookupChar d' = lookupChar d |` {k. anchored (lookupChar d) k}"
    using map_of_chars [OF walk] by (auto simp: New)
  have "wfDoc d'" if "restoreSnapshot cs e = Inr d'" "wfDoc e" for e
    using that
  proof (induction cs arbitrary: e)
    case (Cons c cs)
    then show ?case by (auto split: sum.splits if_splits dest: wfDoc_Apply)
  qed simp
  then show ?thesis using d' wfDoc_New by blast
qed

lemma rooted_restrict: "rooted d \<Longrightarrow> lookupChar d |` {k. anchored (lookupChar d) k} = lookupChar d"
  by (rule ext, rename_tac k, case_tac "lookupChar d k") (auto simp: rooted_def restrict_map_def)

end
