(* ===== verification/Crdt_Theorems.thy ===== *)
theory Crdt_Theorems
  imports History
begin

text \<open>
  The properties of the CRDT document and of history replay, with concrete instances. A run of
  operations is \<^term>\<open>BuildAt [] ops\<close>: the loop of \<open>Apply\<close> over a log from the empty
  document.
\<close>

section \<open>Operations of the examples\<close>

definition insertOp :: "string \<Rightarrow> u64 \<Rightarrow> rune \<Rightarrow> CharID option \<Rightarrow> CharID option \<Rightarrow> Operation" where
  "insertOp s n v l r =
     \<lparr>opType = Insert, opID = CharID s n, opValue = v, opLeftID = l, opRightID = r\<rparr>"

definition deleteOp :: "string \<Rightarrow> u64 \<Rightarrow> Operation" where
  "deleteOp s n = \<lparr>opType = Delete, opID = CharID s n, opValue = 0, opLeftID = None, opRightID = None\<rparr>"

abbreviation idA :: CharID where "idA \<equiv> CharID ''a'' 1"
abbreviation idB :: CharID where "idB \<equiv> CharID ''b'' 1"
abbreviation idC :: CharID where "idC \<equiv> CharID ''c'' 2"

abbreviation insA :: Operation where "insA \<equiv> insertOp ''a'' 1 65 None None"
abbreviation insB :: Operation where "insB \<equiv> insertOp ''b'' 1 66 None None"
abbreviation insB_after_A :: Operation where "insB_after_A \<equiv> insertOp ''b'' 1 66 (Some idA) None"
abbreviation insC_before_A :: Operation where "insC_before_A \<equiv> insertOp ''c'' 2 67 None (Some idA)"

abbreviation charA :: crdt_char where
  "charA \<equiv> \<lparr>ID = idA, Value = 65, LeftID = None, RightID = None, Deleted = False\<rparr>"
abbreviation charB :: crdt_char where
  "charB \<equiv> \<lparr>ID = idB, Value = 66, LeftID = None, RightID = None, Deleted = False\<rparr>"
abbreviation charC :: crdt_char where
  "charC \<equiv> \<lparr>ID = idC, Value = 67, LeftID = None, RightID = Some idA, Deleted = False\<rparr>"
abbreviation charB_after_A :: crdt_char where
  "charB_after_A \<equiv> \<lparr>ID = idB, Value = 66, LeftID = Some idA, RightID = None, Deleted = False\<rparr>"

lemma ascii_chars: "char_of (65::nat) = CHR ''A''" "char_of (66::nat) = CHR ''B''"
    "char_of (67::nat) = CHR ''C''"
  by code_simp+

lemmas eval_text = Text_def visibleRunes_def runeBytes_def ascii_chars

text \<open>Two siblings, in both orders of delivery.\<close>

lemma run_AB: "BuildAt [] [insA, insB] = Inr \<lparr>chars = [(idA, charA), (idB, charB)]\<rparr>"
  by code_simp

lemma run_BA: "BuildAt [] [insB, insA] = Inr \<lparr>chars = [(idB, charB), (idA, charA)]\<rparr>"
  by code_simp

lemma snapshot_AB: "Snapshot (Some \<lparr>chars = [(idA, charA), (idB, charB)]\<rparr>) = Some [charA, charB]"
  by code_simp

lemma run_ABC: "BuildAt [] [insA, insB, insC_before_A]
    = Inr \<lparr>chars = [(idA, charA), (idB, charB), (idC, charC)]\<rparr>"
  by code_simp

lemma snapshot_ABC:
  "Snapshot (Some \<lparr>chars = [(idA, charA), (idB, charB), (idC, charC)]\<rparr>) = Some [charB, charC, charA]"
  by code_simp

lemma wfDoc_ABC: "wfDoc \<lparr>chars = [(idA, charA), (idB, charB), (idC, charC)]\<rparr>"
  by code_simp

section \<open>Runs\<close>

lemma BuildAt_run: "BuildAt [] ops = Inr d \<longleftrightarrow> replay (\<lambda>d. Apply (Some d)) New ops = Inr d"
  by (simp add: BuildAt_ops replayOps_Inr)

lemma wfDoc_run: "BuildAt [] ops = Inr d \<Longrightarrow> wfDoc d"
  using crdt.invar_replay [OF wfDoc_New] by (simp add: BuildAt_run)

lemma rooted_run: "BuildAt [] ops = Inr d \<Longrightarrow> rooted d"
  using rooted_replay [OF rooted_New] by (simp add: BuildAt_run)

section \<open>Convergence\<close>

text \<open>
  C1. Replicas that accepted the same set of operations, in whatever order and however often
  each, have the same snapshot and show the same text.
\<close>

theorem replicas_converge:
  assumes "BuildAt [] ops = Inr d" "BuildAt [] ops' = Inr d'" "set ops = set ops'"
  shows "Snapshot (Some d) = Snapshot (Some d') \<and> Text (Some d) = Text (Some d')"
proof -
  note wf = wfDoc_run [OF assms(1)] wfDoc_run [OF assms(2)]
  have "lookupChar d = lookupChar d'"
    using assms unfolding BuildAt_run by (rule replay_same_set)
  then show ?thesis using Snapshot_cong [OF wf] Text_cong [OF wf] by blast
qed

theorem replicas_converge_witness:
  "Snapshot (Some \<lparr>chars = [(idA, charA), (idB, charB)]\<rparr>)
     = Snapshot (Some \<lparr>chars = [(idB, charB), (idA, charA)]\<rparr>)"
  using replicas_converge [OF run_AB run_BA] by auto

text \<open>
  C2. The snapshot does not depend on the order in which Go iterates over the map of
  characters: it is the same for every arrangement of the same entries.
\<close>

theorem snapshot_ignores_iteration_order:
  assumes "wfDoc d" "mset (chars e) = mset (chars d)"
  shows "Snapshot (Some e) = Snapshot (Some d) \<and> Text (Some e) = Text (Some d)"
proof -
  have keys: "mset (map fst (chars e)) = mset (map fst (chars d))" using assms(2) by simp
  have "distinct (map fst (chars e))"
    using mset_eq_imp_distinct_iff [OF keys] wfDoc_distinct [OF assms(1)] by simp
  moreover have "set (chars e) = set (chars d)" using assms(2) by (rule mset_eq_setD)
  ultimately have "wfDoc e" using assms(1) by (simp add: wfDoc_def list_all_iff)
  moreover have "lookupChar e = lookupChar d"
    unfolding lookupChar_def
    using map_of_inject_set [THEN iffD2, OF wfDoc_distinct wfDoc_distinct] calculation assms(1)
      \<open>set (chars e) = set (chars d)\<close> by blast
  ultimately show ?thesis
    using Snapshot_cong [OF _ assms(1)] Text_cong [OF _ assms(1)] by blast
qed

theorem snapshot_ignores_iteration_order_witness:
  "Snapshot (Some \<lparr>chars = [(idC, charC), (idB, charB), (idA, charA)]\<rparr>) = Some [charB, charC, charA]"
  using snapshot_ignores_iteration_order
    [OF wfDoc_ABC, of "\<lparr>chars = [(idC, charC), (idB, charB), (idA, charA)]\<rparr>"]
  by (simp add: snapshot_ABC add_mset_commute)

section \<open>What a snapshot holds\<close>

text \<open>
  C3. \<open>Snapshot\<close> returns for every well-formed document: its recursion ends. The result
  lists exactly the characters whose chain of left anchors reaches the start of the document,
  each once; in a document whose characters are all anchored it is a permutation of them.
\<close>

theorem snapshot_contents:
  assumes wf: "wfDoc d"
  shows "\<exists>cs. Snapshot (Some d) = Some cs \<and> distinct (map ID cs)
    \<and> set cs = {c. lookupChar d (ID c) = Some c \<and> anchored (lookupChar d) (ID c)}
    \<and> (rooted d \<longrightarrow> mset cs = mset (map snd (chars d)))"
proof -
  obtain cs where cs: "Snapshot (Some d) = Some cs" "walkOf d [] {k. anchored (lookupChar d) k} cs"
    using Snapshot_walk [OF wf] .
  have set: "set cs = {c. lookupChar d (ID c) = Some c \<and> anchored (lookupChar d) (ID c)}"
    using cs(2) by (auto simp: walkOf_def) (metis (mono_tags, lifting) imageE mem_Collect_eq option.inject)
  have dist: "distinct (map ID cs)" using cs(2) by (simp add: walkOf_def)
  have "mset cs = mset (map snd (chars d))" if "rooted d"
  proof (rule mset_eq_distinct)
    show "distinct cs" using dist by (simp add: distinct_map)
    show "distinct (map snd (chars d))" using wfDoc_distinct_IDs [OF wf] by (metis distinct_map)
    show "set cs = set (map snd (chars d))"
      using that wfDoc_mem [OF wf] by (auto simp: set rooted_def)
  qed
  then show ?thesis using cs(1) set dist by blast
qed

theorem snapshot_contents_witness:
  "\<exists>cs. Snapshot (Some \<lparr>chars = [(idA, charA), (idB, charB), (idC, charC)]\<rparr>) = Some cs
     \<and> mset cs = {#charA, charB, charC#}"
proof -
  have "rooted \<lparr>chars = [(idA, charA), (idB, charB), (idC, charC)]\<rparr>"
    using run_ABC by (rule rooted_run)
  then show ?thesis using snapshot_contents [OF wfDoc_ABC] by auto
qed

text \<open>
  C4. The heap-driven topological sort computes the reference order: from the depth-first base
  order, repeatedly the first character none of whose anchors is still waiting, and the base
  order for characters on a cycle of anchors.
\<close>

theorem snapshot_is_greedy_order:
  assumes "wfDoc d"
  shows "\<exists>base. baseOrder d = Some base
    \<and> Snapshot (Some d) = Some (map (charAt d) (greedy (anchorEdge base) (map ID base)))"
proof -
  obtain base where "baseOrder d = Some base" using baseOrder_walk [OF assms] .
  then show ?thesis using Snapshot_greedy [OF assms] by blast
qed

theorem snapshot_is_greedy_order_witness:
  "\<exists>base. baseOrder \<lparr>chars = [(idA, charA), (idB, charB), (idC, charC)]\<rparr> = Some base
    \<and> map (charAt \<lparr>chars = [(idA, charA), (idB, charB), (idC, charC)]\<rparr>)
        (greedy (anchorEdge base) (map ID base)) = [charB, charC, charA]"
  using snapshot_is_greedy_order [OF wfDoc_ABC] by (auto simp: snapshot_ABC)

text \<open>
  C5. In a snapshot every character comes after its left anchor, even when anchors form a
  cycle.
\<close>

lemma topdown_split:
  "topdown key par S (us @ c # vs) \<Longrightarrow> par c \<in> S \<union> key ` set us"
  by (simp add: topdown_append)

theorem snapshot_left_anchor_first:
  assumes wf: "wfDoc d" and "Snapshot (Some d) = Some (us @ c # vs)" "LeftID c = Some l"
  shows "l \<in> ID ` set us"
proof -
  have walk: "walkOf d [] {k. anchored (lookupChar d) k} (us @ c # vs)"
    using Snapshot_walk [OF wf] assms(2) by (metis option.inject)
  then have "l \<in> {rootID} \<union> ID ` set us"
    using topdown_split [of ID parentOf "{rootID}" us c vs] assms(3) by (simp add: walkOf_def parentOf_def)
  moreover have "lookupChar d (ID c) = Some c" using walk by (simp add: walkOf_def)
  then have "l \<noteq> rootID"
    using wfDoc_lookup [OF wf \<open>lookupChar d (ID c) = Some c\<close>] assms(3)
    by (auto simp: wfChar_def invalidID_def rootID_def)
  ultimately show ?thesis by simp
qed

theorem snapshot_left_anchor_first_witness:
  "idA \<in> ID ` set [charA]"
proof -
  have "wfDoc \<lparr>chars = [(idA, charA), (idB, charB_after_A)]\<rparr>" by code_simp
  moreover have "Snapshot (Some \<lparr>chars = [(idA, charA), (idB, charB_after_A)]\<rparr>) = Some ([charA] @ charB_after_A # [])"
    by code_simp
  ultimately show ?thesis by (rule snapshot_left_anchor_first) simp
qed

text \<open>
  C6. When the anchors of the listed characters contain no cycle, every character comes before
  its right anchor, if that is listed too.
\<close>

theorem snapshot_right_anchor_after:
  assumes wf: "wfDoc d" and base: "baseOrder d = Some base" and "acyclicP (anchorEdge base)"
    and snap: "Snapshot (Some d) = Some cs" and c: "c \<in> set cs" "RightID c = Some r" "r \<in> ID ` set cs"
  shows "precedes cs c (charAt d r)"
proof -
  have walk: "walkOf d [] {k. anchored (lookupChar d) k} base" "walkOf d [] {k. anchored (lookupChar d) k} cs"
    using baseOrder_walk [OF wf] Snapshot_walk [OF wf] base snap by (metis option.inject)+
  then have "ID ` set base = ID ` set cs" by (simp add: walkOf_def)
  then obtain c' where "c' \<in> set base" "ID c' = ID c" using c(1) by (metis imageE image_eqI)
  then have "c' = c" using walk c(1) by (auto simp: walkOf_def)
  have "r \<noteq> ID c"
    using walk(2) wfDoc_lookup [OF wf, of "ID c" c] c by (auto simp: walkOf_def wfChar_def)
  then have "anchorEdge base (ID c) r"
    using \<open>c' \<in> set base\<close> \<open>c' = c\<close> c \<open>ID ` set base = ID ` set cs\<close> by (auto simp: anchorEdge_def)
  moreover have "charAt d (ID c) = c" using walk(2) c(1) by (auto simp: walkOf_def charAt_lookup)
  ultimately show ?thesis using Snapshot_precedes [OF wf base assms(3) _ snap] by metis
qed

theorem snapshot_right_anchor_after_witness:
  "precedes [charB, charC, charA] charC charA"
proof -
  let ?d = "\<lparr>chars = [(idA, charA), (idB, charB), (idC, charC)]\<rparr>"
  have base: "baseOrder ?d = Some [charA, charB, charC]" by code_simp
  have "anchorEdge [charA, charB, charC] x y \<longleftrightarrow> x = idC \<and> y = idA" for x y
    by (auto simp: anchorEdge_def)
  then have "{(x, y). anchorEdge [charA, charB, charC] x y} = {(idC, idA)}" by auto
  then have "acyclicP (anchorEdge [charA, charB, charC])"
    by (simp add: acyclic_insert wf_acyclic)
  from snapshot_right_anchor_after [OF wfDoc_ABC base this snapshot_ABC, of charC idA]
  have "precedes [charB, charC, charA] charC (charAt ?d idA)" by simp
  then show ?thesis by (simp add: charAt_def)
qed

section \<open>Snapshots and replay\<close>

text \<open>
  C7. Restoring the snapshot of a document built by operations gives the document back: the
  same characters, the same snapshot, the same text.
\<close>

theorem snapshot_roundtrip:
  assumes run: "BuildAt [] ops = Inr d" and snap: "Snapshot (Some d) = Some cs"
  shows "\<exists>d'. BuildAt cs [] = Inr d' \<and> lookupChar d' = lookupChar d
    \<and> Snapshot (Some d') = Some cs \<and> Text (Some d') = Text (Some d)"
proof -
  note wf = wfDoc_run [OF run]
  obtain d' where d': "restoreSnapshot cs New = Inr d'" "wfDoc d'" "lookupChar d' = lookupChar d"
    using restoreSnapshot_Snapshot [OF wf snap] rooted_restrict [OF rooted_run [OF run]] by auto
  then show ?thesis
    using Snapshot_cong [OF d'(2) wf] Text_cong [OF d'(2) wf] snap by (simp add: BuildAt_def)
qed

theorem snapshot_roundtrip_witness:
  "\<exists>d'. BuildAt [charB, charC, charA] [] = Inr d' \<and> Snapshot (Some d') = Some [charB, charC, charA]"
  using snapshot_roundtrip [OF run_ABC snapshot_ABC] by auto

text \<open>
  C8. Replaying a log from the snapshot taken after its first part agrees with replaying the
  whole log: the same document up to the arrangement of the map, hence the same text, or the
  same error at the same operation.
\<close>

theorem replay_from_snapshot:
  assumes run: "BuildAt [] pre = Inr d" and snap: "Snapshot (Some d) = Some cs"
  shows "case BuildAt cs post of
      Inr e \<Rightarrow> \<exists>e'. BuildAt [] (pre @ post) = Inr e' \<and> Snapshot (Some e') = Snapshot (Some e)
                   \<and> Text (Some e') = Text (Some e)
    | Inl (ReplayOperation k err) \<Rightarrow> BuildAt [] (pre @ post) = Inl (ReplayOperation (length pre + k) err)
    | Inl _ \<Rightarrow> False"
proof -
  note wf = wfDoc_run [OF run]
  obtain d' where d': "restoreSnapshot cs New = Inr d'" "wfDoc d'" "lookupChar d' = lookupChar d"
    using restoreSnapshot_Snapshot [OF wf snap] rooted_restrict [OF rooted_run [OF run]] by auto
  have L: "BuildAt cs post = replayOps 0 post d'" using d'(1) by (simp add: BuildAt_def)
  have R: "BuildAt [] (pre @ post) = replayOps (length pre) post d"
    using run by (simp add: BuildAt_ops replayOps_append)
  have wf': "wfDoc e" if "replayOps i ops d0 = Inr e" "wfDoc d0" for i ops d0 e
    using that crdt.invar_replay by (auto simp: replayOps_Inr)
  note same = replayOps_sameChars [OF d'(3), where i = 0 and j = "length pre" and ops = post]
  show ?thesis
  proof (cases "BuildAt cs post")
    case (Inl err)
    then show ?thesis using same by (auto simp: L R add.commute split: build_error.splits)
  next
    case (Inr e)
    then obtain e' where e': "replayOps (length pre) post d = Inr e'" "lookupChar e = lookupChar e'"
      using same by (auto simp: L)
    then show ?thesis
      using Inr wf' [of 0 post d' e] wf' [OF e'(1) wf] d'(2) Snapshot_cong [of e' e] Text_cong [of e' e]
      by (simp add: L R)
  qed
qed

theorem replay_from_snapshot_witness:
  "\<exists>e'. BuildAt [] ([insA, insB] @ [insC_before_A]) = Inr e'
    \<and> Snapshot (Some e') = Some [charB, charC, charA]"
proof -
  have "BuildAt [charA, charB] [insC_before_A] = Inr \<lparr>chars = [(idA, charA), (idB, charB), (idC, charC)]\<rparr>"
    by code_simp
  then show ?thesis
    using replay_from_snapshot [OF run_AB snapshot_AB, of "[insC_before_A]"] by (auto simp: snapshot_ABC)
qed

section \<open>Operations\<close>

text \<open>
  C9. An accepted operation keeps the document well-formed and its characters anchored, changes
  the stored characters exactly as its kind says, and is idempotent: accepted again at once, it
  changes nothing.
\<close>

lemma Apply_again:
  assumes wf: "wfDoc d" and app: "Apply (Some d) op = Inr d'"
  shows "Apply (Some d') op = Inr d'"
  using app
proof (cases rule: Apply_InrE)
  case (duplicate c)
  then show ?thesis using app by simp
next
  case insert
  have "map_of (chars d') (opID op) = Some (newChar op)" using insert(6) by simp
  then show ?thesis
    using insert(1,2) by (simp add: Apply_def applyInsert_def newChar_def invalidID_def)
next
  case (tombstone c)
  then show ?thesis using app by simp
next
  case (delete c)
  have "map_of (chars d') (opID op) = Some (c\<lparr>Deleted := True\<rparr>)" using delete(5) by simp
  then show ?thesis
    using delete(1,2) by (simp add: Apply_def applyDelete_def invalidID_def)
qed

theorem apply_accepted:
  assumes "wfDoc d" "rooted d" "Apply (Some d) op = Inr d'"
  shows "wfDoc d' \<and> rooted d' \<and> lookupChar d' = afterOp (lookupChar d) op
    \<and> Apply (Some d') op = Inr d'"
  using wfDoc_Apply [OF assms(1,3)] rooted_Apply [OF assms(2,3)] lookup_Apply [OF assms(3)]
    Apply_again [OF assms(1,3)] by blast

theorem apply_accepted_witness:
  "Apply (Some \<lparr>chars = [(idA, charA)]\<rparr>) insA = Inr \<lparr>chars = [(idA, charA)]\<rparr>"
proof -
  have "Apply (Some New) insA = Inr \<lparr>chars = [(idA, charA)]\<rparr>" by code_simp
  from apply_accepted [OF wfDoc_New rooted_New this] show ?thesis by simp
qed

text \<open>
  C10. The errors of \<open>Apply\<close>, one equivalence per cause: an identity already stored with
  other content; a left anchor that is not stored; a deletion of a character that is not stored;
  and a malformed operation, whose right anchor is examined only after the left one passed.
\<close>

theorem apply_errors:
  "((\<exists>e. Apply (Some d) op = Inl e \<and> errID e = opID op \<and> Cause e = ErrConflictingDuplicate) \<longleftrightarrow>
      \<not> invalidID (opID op) \<and> opType op = Insert
      \<and> (\<exists>c. lookupChar d (opID op) = Some c
           \<and> (Value c, LeftID c, RightID c) \<noteq> (opValue op, opLeftID op, opRightID op)))
   \<and> ((\<exists>e. Apply (Some d) op = Inl e \<and> errID e = opID op \<and> Cause e = ErrMissingParent \<and> Parent e = Some l) \<longleftrightarrow>
      \<not> invalidID (opID op) \<and> opType op = Insert \<and> lookupChar d (opID op) = None
      \<and> opLeftID op = Some l \<and> \<not> invalidID l \<and> l \<noteq> opID op \<and> lookupChar d l = None)
   \<and> ((\<exists>e. Apply (Some d) op = Inl e \<and> errID e = opID op \<and> Cause e = ErrUnknownCharacter) \<longleftrightarrow>
      \<not> invalidID (opID op) \<and> opType op = Delete \<and> lookupChar d (opID op) = None)
   \<and> ((\<exists>e. Apply (Some d) op = Inl e \<and> errID e = opID op \<and> Cause e = ErrInvalidOperation) \<longleftrightarrow>
      invalidID (opID op) \<or> (opType op \<noteq> Insert \<and> opType op \<noteq> Delete)
      \<or> (opType op = Insert \<and> lookupChar d (opID op) = None
         \<and> ((\<exists>l. opLeftID op = Some l \<and> (invalidID l \<or> l = opID op))
            \<or> ((opLeftID op = None \<or> (\<exists>l. opLeftID op = Some l \<and> lookupChar d l \<noteq> None))
               \<and> (\<exists>r. opRightID op = Some r \<and> (invalidID r \<or> r = opID op \<or> opLeftID op = Some r))))))"
  unfolding Apply_def applyInsert_def applyDelete_def leftAnchorError_def rightAnchorError_def
    lookupChar_def invalidID_def
  by (intro conjI) (auto split: option.splits if_splits)

section \<open>Compaction\<close>

text \<open>
  C11. \<open>Compact\<close> removes exactly the requested tombstones, reports how many, keeps every
  other character as it was, live ones in particular, and keeps the document well-formed.
\<close>

theorem compact_removes_tombstones_only:
  assumes "wfDoc d" "Compact (Some d) ids = Inr (purged, d')"
  shows "wfDoc d' \<and> purged = card {k \<in> set ids. isTombstone d k}
    \<and> (\<forall>k. lookupChar d' k = (if k \<in> set ids \<and> isTombstone d k then None else lookupChar d k))"
  using assms compactLoop_spec [of ids d 0 purged d'] by (auto simp: Compact_def)

theorem compact_removes_tombstones_only_witness:
  "lookupChar \<lparr>chars = [(idA, charA)]\<rparr> idA = Some charA"
proof -
  let ?d = "\<lparr>chars = [(idA, charA), (idB, charB_after_A\<lparr>Deleted := True\<rparr>)]\<rparr>"
  have "wfDoc ?d" by code_simp
  moreover have "Compact (Some ?d) [idA, idB] = Inr (1, \<lparr>chars = [(idA, charA)]\<rparr>)" by code_simp
  ultimately have "\<forall>k. lookupChar \<lparr>chars = [(idA, charA)]\<rparr> k
      = (if k \<in> set [idA, idB] \<and> isTombstone ?d k then None else lookupChar ?d k)"
    using compact_removes_tombstones_only by blast
  then show ?thesis by (simp add: isTombstone_code lookupChar_def)
qed

text \<open>
  C12. When no surviving character has a purged one as its left anchor, compaction keeps every
  live character in the visible text: the runes shown are the same up to their order.
\<close>

theorem compact_keeps_live_text:
  assumes "wfDoc d" "rooted d" "Compact (Some d) ids = Inr (purged, d')"
    and closed: "\<And>k c l. lookupChar d' k = Some c \<Longrightarrow> LeftID c = Some l \<Longrightarrow> lookupChar d' l \<noteq> None"
  shows "\<exists>cs cs'. Snapshot (Some d) = Some cs \<and> Snapshot (Some d') = Some cs'
    \<and> mset (visibleRunes cs') = mset (visibleRunes cs)"
proof -
  have c: "wfDoc d'" "\<And>k. lookupChar d' k = (if k \<in> set ids \<and> isTombstone d k then None else lookupChar d k)"
    using assms(1,3) compactLoop_spec [of ids d 0 purged d'] by (auto simp: Compact_def)
  have "rooted d'"
    by (rule rooted_Compact [OF assms(2) _ closed]) (auto simp: c(2))
  obtain cs where cs: "Snapshot (Some d) = Some cs" using Snapshot_walk [OF assms(1)] .
  obtain cs' where cs': "Snapshot (Some d') = Some cs'" using Snapshot_walk [OF c(1)] .
  have "{c. lookupChar d' (ID c) = Some c \<and> \<not> Deleted c} = {c. lookupChar d (ID c) = Some c \<and> \<not> Deleted c}"
    by (auto simp: c(2) isTombstone_def)
  then have "mset (filter (\<lambda>c. \<not> Deleted c) cs') = mset (filter (\<lambda>c. \<not> Deleted c) cs)"
    using mset_visible [OF assms(1,2) cs] mset_visible [OF c(1) \<open>rooted d'\<close> cs']
    by (intro mset_eq_distinct) auto
  then show ?thesis using cs cs' by (simp add: visibleRunes_def del: mset_filter)
qed

theorem compact_keeps_live_text_witness:
  "\<exists>cs cs'. Snapshot (Some \<lparr>chars = [(idA, charA), (idB, charB_after_A\<lparr>Deleted := True\<rparr>)]\<rparr>) = Some cs
    \<and> Snapshot (Some \<lparr>chars = [(idA, charA)]\<rparr>) = Some cs'
    \<and> mset (visibleRunes cs') = mset (visibleRunes cs)"
proof -
  let ?d = "\<lparr>chars = [(idA, charA), (idB, charB_after_A\<lparr>Deleted := True\<rparr>)]\<rparr>"
  have run: "BuildAt [] [insA, insB_after_A, deleteOp ''b'' 1] = Inr ?d" by code_simp
  have "Compact (Some ?d) [idB] = Inr (1, \<lparr>chars = [(idA, charA)]\<rparr>)" by code_simp
  moreover have "lookupChar \<lparr>chars = [(idA, charA)]\<rparr> l \<noteq> None"
    if "lookupChar \<lparr>chars = [(idA, charA)]\<rparr> k = Some c" "LeftID c = Some l" for k c l
    using that by (auto simp: lookupChar_def split: if_splits)
  ultimately show ?thesis
    by (rule compact_keeps_live_text [OF wfDoc_run [OF run] rooted_run [OF run]])
qed

section \<open>Where compaction and right anchors go wrong\<close>

text \<open>The document "AB" with B typed after A, then A deleted, then A compacted away.\<close>

abbreviation docB :: Document where
  "docB \<equiv> \<lparr>chars = [(idA, charA\<lparr>Deleted := True\<rparr>), (idB, charB_after_A)]\<rparr>"
abbreviation docB_compacted :: Document where
  "docB_compacted \<equiv> \<lparr>chars = [(idB, charB_after_A)]\<rparr>"

lemma compact_hides_live_text:
  "\<exists>d d'. BuildAt [] [insA, insB_after_A, deleteOp ''a'' 1] = Inr d \<and> Text (Some d) = Some ''B''
    \<and> Compact (Some d) [idA] = Inr (1, d')
    \<and> lookupChar d' idB = Some charB_after_A \<and> \<not> Deleted charB_after_A
    \<and> Snapshot (Some d') = Some [] \<and> Text (Some d') = Some ''''"
proof (intro exI conjI)
  show "BuildAt [] [insA, insB_after_A, deleteOp ''a'' 1] = Inr docB" by code_simp
  have "Snapshot (Some docB) = Some [charA\<lparr>Deleted := True\<rparr>, charB_after_A]" by code_simp
  then show "Text (Some docB) = Some ''B''" by (simp add: eval_text)
  show "Compact (Some docB) [idA] = Inr (1, docB_compacted)" by code_simp
  show "lookupChar docB_compacted idB = Some charB_after_A" by (simp add: lookupChar_def)
  show "\<not> Deleted charB_after_A" by simp
  show snap: "Snapshot (Some docB_compacted) = Some []" by code_simp
  then show "Text (Some docB_compacted) = Some ''''" by (simp add: Text_def visibleRunes_def)
qed

lemma compacted_reload_fails:
  "\<exists>d op d' cs. BuildAt [] [insA, insB_after_A, deleteOp ''a'' 1] = Inr d
    \<and> Compact (Some d) [idA] = Inr (1, d') \<and> Snapshot (Some d') = Some cs
    \<and> (\<exists>d''. Apply (Some d') op = Inr d'')
    \<and> BuildAt cs [op] = Inl (ReplayOperation 1 \<lparr>Cause = ErrMissingParent, errID = idC, Parent = Some idB\<rparr>)"
proof (intro exI conjI)
  let ?op = "insertOp ''c'' 2 67 (Some idB) None"
  show "BuildAt [] [insA, insB_after_A, deleteOp ''a'' 1] = Inr docB" by code_simp
  show "Compact (Some docB) [idA] = Inr (1, docB_compacted)" by code_simp
  show "Snapshot (Some docB_compacted) = Some []" by code_simp
  show "Apply (Some docB_compacted) ?op = Inr \<lparr>chars = [(idB, charB_after_A),
    (idC, \<lparr>ID = idC, Value = 67, LeftID = Some idB, RightID = None, Deleted = False\<rparr>)]\<rparr>" by code_simp
  show "BuildAt [] [?op] = Inl (ReplayOperation 1 \<lparr>Cause = ErrMissingParent, errID = idC, Parent = Some idB\<rparr>)"
    by code_simp
qed


lemma insertion_reorders_text:
  "\<exists>d d'. BuildAt [] [insA, insB] = Inr d \<and> Text (Some d) = Some ''AB''
    \<and> Apply (Some d) insC_before_A = Inr d' \<and> Text (Some d') = Some ''BCA''"
proof (intro exI conjI)
  show "BuildAt [] [insA, insB] = Inr \<lparr>chars = [(idA, charA), (idB, charB)]\<rparr>" by (rule run_AB)
  show "Text (Some \<lparr>chars = [(idA, charA), (idB, charB)]\<rparr>) = Some ''AB''"
    by (simp add: snapshot_AB eval_text)
  show "Apply (Some \<lparr>chars = [(idA, charA), (idB, charB)]\<rparr>) insC_before_A
      = Inr \<lparr>chars = [(idA, charA), (idB, charB), (idC, charC)]\<rparr>" by code_simp
  show "Text (Some \<lparr>chars = [(idA, charA), (idB, charB), (idC, charC)]\<rparr>) = Some ''BCA''"
    by (simp add: snapshot_ABC eval_text)
qed

lemma not_acyclicP: "r\<^sup>+\<^sup>+ x x \<Longrightarrow> (\<not> acyclicP r) = True"
  by (auto simp: acyclic_def tranclp_unfold)

abbreviation insX :: Operation where "insX \<equiv> insertOp ''x'' 3 88 (Some idA) (Some idB)"
abbreviation insY :: Operation where "insY \<equiv> insertOp ''y'' 3 89 (Some idB) (Some idC)"
abbreviation charX :: crdt_char where
  "charX \<equiv> \<lparr>ID = CharID ''x'' 3, Value = 88, LeftID = Some idA, RightID = Some idB, Deleted = False\<rparr>"
abbreviation charY :: crdt_char where
  "charY \<equiv> \<lparr>ID = CharID ''y'' 3, Value = 89, LeftID = Some idB, RightID = Some idC, Deleted = False\<rparr>"

lemma neighbour_anchors_can_cycle:
  "\<exists>ab abc all base.
      BuildAt [] [insA, insB] = Inr ab \<and> Snapshot (Some ab) = Some [charA, charB]
    \<and> BuildAt [] [insA, insB, insC_before_A] = Inr abc \<and> Snapshot (Some abc) = Some [charB, charC, charA]
    \<and> BuildAt [] [insA, insB, insC_before_A, insX, insY] = Inr all
    \<and> baseOrder all = Some base \<and> \<not> acyclicP (anchorEdge base)
    \<and> RightID charC = Some (ID charA)
    \<and> Snapshot (Some all) = Some [charA, charX, charB, charY, charC]"
proof (intro exI conjI)
  let ?all = "\<lparr>chars = [(idA, charA), (idB, charB), (idC, charC), (ID charX, charX), (ID charY, charY)]\<rparr>"
  let ?base = "[charA, charX, charB, charY, charC]"
  show "BuildAt [] [insA, insB] = Inr \<lparr>chars = [(idA, charA), (idB, charB)]\<rparr>" by (rule run_AB)
  show "Snapshot (Some \<lparr>chars = [(idA, charA), (idB, charB)]\<rparr>) = Some [charA, charB]" by (rule snapshot_AB)
  show "BuildAt [] [insA, insB, insC_before_A] = Inr \<lparr>chars = [(idA, charA), (idB, charB), (idC, charC)]\<rparr>"
    by (rule run_ABC)
  show "Snapshot (Some \<lparr>chars = [(idA, charA), (idB, charB), (idC, charC)]\<rparr>) = Some [charB, charC, charA]"
    by (rule snapshot_ABC)
  show "BuildAt [] [insA, insB, insC_before_A, insX, insY] = Inr ?all" by code_simp
  show "baseOrder ?all = Some ?base" by code_simp
  have "anchorEdge ?base idA (ID charX)" by (auto simp: anchorEdge_def)
  moreover have "anchorEdge ?base (ID charX) idB" by (auto simp: anchorEdge_def)
  moreover have "anchorEdge ?base idB (ID charY)" by (auto simp: anchorEdge_def)
  moreover have "anchorEdge ?base (ID charY) idC" by (auto simp: anchorEdge_def)
  moreover have "anchorEdge ?base idC idA" by (auto simp: anchorEdge_def)
  ultimately have "(anchorEdge ?base)\<^sup>+\<^sup>+ idA idA"
    by (meson tranclp.r_into_trancl tranclp.trancl_into_trancl)
  then show "\<not> acyclicP (anchorEdge ?base)" by (simp only: not_acyclicP)
  show "RightID charC = Some (ID charA)" by simp
  show "Snapshot (Some ?all) = Some ?base" by code_simp
qed


end
