(* ===== verification/Cache.thy ===== *)
theory Cache
  imports Prelude
begin

text \<open>
  \<open>internal/cache/cache.go\<close>: the bounded cache with expiring entries and the cache of
  document existence built on two of them. Every operation takes the reading of the clock
  (\<open>time.Now()\<close>, nanoseconds) as an argument; a nil receiver is \<^const>\<open>None\<close>. The
  mutex makes every operation atomic, so each is one function on the state; the sweeper
  goroutine contributes steps of its own, one per branch of its \<open>select\<close>.
\<close>

section \<open>The cache\<close>

type_synonym time = int
type_synonym duration = int

record 'v entry =
  entryValue :: 'v
  expiresAt :: time

record ('k, 'v) Cache =
  cacheValues :: "('k \<times> 'v entry) list"
  ttl :: duration
  maxEntries :: int
  stopClosed :: bool
  doneClosed :: bool

definition Cache_New :: "duration \<Rightarrow> int \<Rightarrow> ('k, 'v) Cache" where
  "Cache_New d n =
     \<lparr>cacheValues = [], ttl = (if d \<le> 0 then 1 else d), maxEntries = (if n \<le> 0 then 1 else n),
      stopClosed = False, doneClosed = False\<rparr>"

definition Cache_Get :: "time \<Rightarrow> ('k, 'v) Cache option \<Rightarrow> 'k \<Rightarrow> 'v option" where
  "Cache_Get now receiver key =
     (case receiver of
        None \<Rightarrow> None
      | Some c \<Rightarrow>
          (case map_of (cacheValues c) key of
             None \<Rightarrow> None
           | Some e \<Rightarrow> if \<not> now < expiresAt e then None else Some (entryValue e)))"

text \<open>The scan for the entry to evict; \<^const>\<open>None\<close> while \<open>first\<close> is true.\<close>

fun oldestEntry :: "('k \<times> 'v entry) list \<Rightarrow> ('k \<times> time) option \<Rightarrow> ('k \<times> time) option" where
  "oldestEntry [] oldest = oldest"
| "oldestEntry ((k, e) # es) oldest =
     oldestEntry es
       (case oldest of
          None \<Rightarrow> Some (k, expiresAt e)
        | Some (_, t) \<Rightarrow> if expiresAt e < t then Some (k, expiresAt e) else oldest)"

definition evictOldest :: "('k \<times> 'v entry) list \<Rightarrow> ('k \<times> 'v entry) list" where
  "evictOldest m = (case oldestEntry m None of None \<Rightarrow> m | Some (k, _) \<Rightarrow> AList.delete k m)"

definition Cache_Set :: "time \<Rightarrow> 'k \<Rightarrow> 'v \<Rightarrow> ('k, 'v) Cache option \<Rightarrow> ('k, 'v) Cache option" where
  "Cache_Set now key v receiver =
     (case receiver of
        None \<Rightarrow> None
      | Some c \<Rightarrow>
          let m = (if map_of (cacheValues c) key = None \<and> int (length (cacheValues c)) \<ge> maxEntries c
                   then evictOldest (cacheValues c) else cacheValues c)
          in Some (c\<lparr>cacheValues := AList.update key \<lparr>entryValue = v, expiresAt = now + ttl c\<rparr> m\<rparr>))"

definition Cache_Delete :: "'k \<Rightarrow> ('k, 'v) Cache option \<Rightarrow> ('k, 'v) Cache option" where
  "Cache_Delete key receiver =
     (case receiver of
        None \<Rightarrow> None
      | Some c \<Rightarrow> Some (c\<lparr>cacheValues := AList.delete key (cacheValues c)\<rparr>))"

text \<open>\<open>removeExpiredLocked\<close> deletes from the map it ranges over.\<close>

fun removeExpiredLocked :: "time \<Rightarrow> ('k \<times> 'v entry) list \<Rightarrow> ('k \<times> 'v entry) list \<Rightarrow> ('k \<times> 'v entry) list" where
  "removeExpiredLocked now [] m = m"
| "removeExpiredLocked now ((k, e) # es) m =
     removeExpiredLocked now es (if \<not> now < expiresAt e then AList.delete k m else m)"

definition Cache_Len :: "time \<Rightarrow> ('k, 'v) Cache option \<Rightarrow> nat \<times> ('k, 'v) Cache option" where
  "Cache_Len now receiver =
     (case receiver of
        None \<Rightarrow> (0, None)
      | Some c \<Rightarrow>
          let m = removeExpiredLocked now (cacheValues c) (cacheValues c)
          in (length m, Some (c\<lparr>cacheValues := m\<rparr>)))"

text \<open>
  The sweeper: its period, and one iteration of its loop. A tick sweeps; seeing \<open>stop\<close>
  closed ends the goroutine, which closes \<open>done\<close>.
\<close>

definition sweepInterval :: "duration \<Rightarrow> duration" where
  "sweepInterval d = (let i = d div 2 in if i \<le> 0 then 1 else i)"

datatype sweep_event = SweepTick time | SweepStop

definition sweepStep :: "sweep_event \<Rightarrow> ('k, 'v) Cache \<Rightarrow> ('k, 'v) Cache" where
  "sweepStep ev c =
     (if doneClosed c then c
      else case ev of
          SweepTick now \<Rightarrow> c\<lparr>cacheValues := removeExpiredLocked now (cacheValues c) (cacheValues c)\<rparr>
        | SweepStop \<Rightarrow> if stopClosed c then c\<lparr>doneClosed := True\<rparr> else c)"

text \<open>\<open>Close\<close> closes \<open>stop\<close> once and waits until the sweeper has ended.\<close>

definition Cache_Close :: "('k, 'v) Cache option \<Rightarrow> ('k, 'v) Cache option" where
  "Cache_Close receiver =
     (case receiver of
        None \<Rightarrow> None
      | Some c \<Rightarrow> Some (sweepStep SweepStop (c\<lparr>stopClosed := True\<rparr>)))"

section \<open>The slug cache\<close>

record SlugCache =
  found :: "(string, unit) Cache option"
  missing :: "(string, unit) Cache option"
  slugClosed :: bool

definition NewSlugCache :: "duration \<Rightarrow> duration \<Rightarrow> int \<Rightarrow> SlugCache" where
  "NewSlugCache foundTTL missingTTL n =
     \<lparr>found = Some (Cache_New foundTTL n), missing = Some (Cache_New missingTTL n), slugClosed = False\<rparr>"

definition second :: duration where "second = 1000000000"
definition DefaultFoundSlugTTL :: duration where "DefaultFoundSlugTTL = 5 * second"
definition DefaultMissingSlugTTL :: duration where "DefaultMissingSlugTTL = second"
definition DefaultSlugCacheSize :: int where "DefaultSlugCacheSize = 4096"

definition DefaultSlugCache :: SlugCache where
  "DefaultSlugCache = NewSlugCache DefaultFoundSlugTTL DefaultMissingSlugTTL DefaultSlugCacheSize"

text \<open>\<open>Lookup\<close> reads the clock once per underlying cache: \<open>t1\<close>, then \<open>t2\<close>.\<close>

definition SlugCache_Lookup :: "time \<Rightarrow> time \<Rightarrow> SlugCache option \<Rightarrow> string \<Rightarrow> bool \<times> bool" where
  "SlugCache_Lookup t1 t2 receiver slug =
     (case receiver of
        None \<Rightarrow> (False, False)
      | Some c \<Rightarrow>
          if Cache_Get t1 (found c) slug \<noteq> None then (True, True)
          else if Cache_Get t2 (missing c) slug \<noteq> None then (False, True)
          else (False, False))"

definition SetExists :: "time \<Rightarrow> string \<Rightarrow> SlugCache option \<Rightarrow> SlugCache option" where
  "SetExists now slug receiver =
     (case receiver of
        None \<Rightarrow> None
      | Some c \<Rightarrow> Some (c\<lparr>missing := Cache_Delete slug (missing c),
                          found := Cache_Set now slug () (found c)\<rparr>))"

definition SetMissing :: "time \<Rightarrow> string \<Rightarrow> SlugCache option \<Rightarrow> SlugCache option" where
  "SetMissing now slug receiver =
     (case receiver of
        None \<Rightarrow> None
      | Some c \<Rightarrow> Some (c\<lparr>found := Cache_Delete slug (found c),
                          missing := Cache_Set now slug () (missing c)\<rparr>))"

definition SlugCache_Close :: "SlugCache option \<Rightarrow> SlugCache option" where
  "SlugCache_Close receiver =
     (case receiver of
        None \<Rightarrow> None
      | Some c \<Rightarrow>
          if slugClosed c then Some c
          else Some (c\<lparr>found := Cache_Close (found c), missing := Cache_Close (missing c),
                       slugClosed := True\<rparr>))"

section \<open>Invariant and effect of the operations\<close>

definition cacheOk :: "('k, 'v) Cache option \<Rightarrow> bool" where
  "cacheOk receiver =
     (case receiver of
        None \<Rightarrow> False
      | Some c \<Rightarrow> distinct (map fst (cacheValues c)) \<and> 0 < ttl c \<and> 1 \<le> maxEntries c
          \<and> int (length (cacheValues c)) \<le> maxEntries c)"

lemma cacheOk_New: "cacheOk (Some (Cache_New d n))"
  by (simp add: cacheOk_def Cache_New_def)

lemma oldestEntry_acc:
  "oldestEntry es (Some (k, t)) = Some (k', t') \<Longrightarrow>
   t' \<le> t \<and> (\<forall>(q, e) \<in> set es. t' \<le> expiresAt e)
   \<and> ((k', t') = (k, t) \<or> (\<exists>e. (k', e) \<in> set es \<and> expiresAt e = t'))"
proof (induction es arbitrary: k t)
  case (Cons p es)
  then show ?case by (cases p) (fastforce split: if_splits)
qed simp

lemma oldestEntry_Some: "\<exists>q. oldestEntry es (Some p) = Some q"
  by (induction es arbitrary: p) (auto split: prod.splits)

lemma oldestEntry_least:
  assumes "es \<noteq> []"
  obtains k e where "(k, e) \<in> set es" "oldestEntry es None = Some (k, expiresAt e)"
    "\<forall>(q, e') \<in> set es. expiresAt e \<le> expiresAt e'"
proof -
  obtain k0 e0 es' where es: "es = (k0, e0) # es'" using assms by (cases es) auto
  obtain k t where kt: "oldestEntry es' (Some (k0, expiresAt e0)) = Some (k, t)"
    using oldestEntry_Some [of es' "(k0, expiresAt e0)"] by auto
  from oldestEntry_acc [OF kt] consider "k = k0" "t = expiresAt e0" | e where "(k, e) \<in> set es'" "t = expiresAt e"
    by auto
  then show thesis
  proof cases
    case 1
    show thesis using oldestEntry_acc [OF kt] kt 1 by (intro that [of k0 e0]) (auto simp: es)
  next
    case (2 e)
    show thesis using oldestEntry_acc [OF kt] kt 2 by (intro that [of k e]) (auto simp: es)
  qed
qed

lemma length_delete_present:
  "distinct (map fst m) \<Longrightarrow> map_of m k \<noteq> None \<Longrightarrow> length m = Suc (length (AList.delete k m))"
proof (induction m)
  case (Cons p m)
  then show ?case
    by (cases "fst p = k") (auto simp: delete_id)
qed simp

text \<open>What \<open>Set\<close> does to a full cache: one entry of least expiry makes room.\<close>

lemma evictOldest_spec:
  assumes "distinct (map fst m)" "m \<noteq> []"
  obtains k e where "map_of m k = Some e" "\<forall>q e'. map_of m q = Some e' \<longrightarrow> expiresAt e \<le> expiresAt e'"
    "evictOldest m = AList.delete k m" "length m = Suc (length (evictOldest m))"
proof -
  obtain k e where ke: "(k, e) \<in> set m" "oldestEntry m None = Some (k, expiresAt e)"
      "\<forall>(q, e') \<in> set m. expiresAt e \<le> expiresAt e'"
    using oldestEntry_least [OF assms(2)] .
  have "map_of m k = Some e" using ke(1) assms(1) by simp
  moreover have "\<forall>q e'. map_of m q = Some e' \<longrightarrow> expiresAt e \<le> expiresAt e'"
    using ke(3) by (auto dest: map_of_SomeD)
  moreover have "evictOldest m = AList.delete k m" using ke(2) by (simp add: evictOldest_def)
  ultimately show thesis using that length_delete_present [OF assms(1)] by simp
qed

lemma removeExpiredLocked_map:
  "map_of (removeExpiredLocked now es m) k =
     (if \<exists>e. (k, e) \<in> set es \<and> \<not> now < expiresAt e then None else map_of m k)"
proof (induction es arbitrary: m)
  case (Cons p es)
  then show ?case by (cases p) auto
qed simp

lemma removeExpiredLocked_distinct:
  "distinct (map fst m) \<Longrightarrow> distinct (map fst (removeExpiredLocked now es m))"
proof (induction es arbitrary: m)
  case (Cons p es)
  then show ?case by (cases p) simp
qed simp

lemma removeExpiredLocked_length: "length (removeExpiredLocked now es m) \<le> length m"
proof (induction es arbitrary: m)
  case (Cons p es)
  then show ?case
    by (cases p) (auto intro: order_trans [OF _ length_delete_le])
qed simp

text \<open>Sweeping changes no answer from the time of the sweep on.\<close>

lemma removeExpired_get:
  assumes "distinct (map fst m)"
  shows "map_of (removeExpiredLocked now m m) k =
     (case map_of m k of None \<Rightarrow> None | Some e \<Rightarrow> if now < expiresAt e then Some e else None)"
proof -
  have "(\<exists>e. (k, e) \<in> set m \<and> \<not> now < expiresAt e) \<longleftrightarrow> (\<exists>e. map_of m k = Some e \<and> \<not> now < expiresAt e)"
    using map_of_eq_Some_iff [OF assms] by metis
  then show ?thesis by (auto simp: removeExpiredLocked_map split: option.splits)
qed

lemma length_update_absent: "map_of m k = None \<Longrightarrow> length (AList.update k v m) = Suc (length m)"
  by (simp add: update_fresh)

lemma length_update_present: "map_of m k \<noteq> None \<Longrightarrow> length (AList.update k v m) = length m"
  by (induction m) (auto split: if_splits)

lemma cacheOk_Set: "cacheOk c \<Longrightarrow> cacheOk (Cache_Set now k v c)"
proof -
  assume ok: "cacheOk c"
  then obtain c0 where c: "c = Some c0" "distinct (map fst (cacheValues c0))" "1 \<le> maxEntries c0"
      "int (length (cacheValues c0)) \<le> maxEntries c0" "0 < ttl c0"
    by (auto simp: cacheOk_def split: option.splits)
  let ?m = "cacheValues c0"
  show ?thesis
  proof (cases "map_of ?m k = None \<and> int (length ?m) \<ge> maxEntries c0")
    case True
    then have "?m \<noteq> []" using c(3) by auto
    then obtain q where ev: "evictOldest ?m = AList.delete q ?m" "length ?m = Suc (length (evictOldest ?m))"
      by (rule evictOldest_spec [OF c(2)])
    have "map_of (evictOldest ?m) k = None" using True ev(1) by simp
    then have "length (AList.update k \<lparr>entryValue = v, expiresAt = now + ttl c0\<rparr> (evictOldest ?m)) = length ?m"
      using ev(2) by (simp add: length_update_absent)
    moreover have "distinct (map fst (evictOldest ?m))" using c(2) by (simp add: ev(1))
    ultimately show ?thesis using True c(1,3,4,5) by (simp add: cacheOk_def Cache_Set_def)
  next
    case False
    then have "int (length (AList.update k \<lparr>entryValue = v, expiresAt = now + ttl c0\<rparr> ?m)) \<le> maxEntries c0"
      using c(4) by (cases "map_of ?m k") (auto simp: length_update_absent length_update_present)
    then show ?thesis using False c by (auto simp: cacheOk_def Cache_Set_def Let_def)
  qed
qed

lemma cacheOk_Delete: "cacheOk c \<Longrightarrow> cacheOk (Cache_Delete k c)"
  using length_delete_le [of k "cacheValues (the c)"]
  by (auto simp: cacheOk_def Cache_Delete_def split: option.splits)

lemma cacheOk_sweepStep: "cacheOk (Some c) \<Longrightarrow> cacheOk (Some (sweepStep ev c))"
proof (cases ev)
  case (SweepTick now)
  assume "cacheOk (Some c)"
  then show ?thesis
    using SweepTick removeExpiredLocked_length [of now "cacheValues c" "cacheValues c"]
    by (auto simp: cacheOk_def sweepStep_def removeExpiredLocked_distinct)
qed (auto simp: cacheOk_def sweepStep_def)


section \<open>The contract of an expiring store\<close>

text \<open>
  What the slug cache relies on: a value set is returned until its time is over, a deleted key
  is a miss, and no operation makes another key's value appear or live longer.
\<close>

locale expiring_store =
  fixes get :: "time \<Rightarrow> 'c \<Rightarrow> 'k \<Rightarrow> 'v option"
    and set :: "time \<Rightarrow> 'k \<Rightarrow> 'v \<Rightarrow> 'c \<Rightarrow> 'c"
    and del :: "'k \<Rightarrow> 'c \<Rightarrow> 'c"
    and life :: "'c \<Rightarrow> duration"
    and ok :: "'c \<Rightarrow> bool"
  assumes get_set: "ok c \<Longrightarrow> get t (set s k v c) k = (if t < s + life c then Some v else None)"
    and get_set_other: "ok c \<Longrightarrow> q \<noteq> k \<Longrightarrow> get t (set s k v c) q = Some w \<Longrightarrow> get t c q = Some w"
    and get_del: "ok c \<Longrightarrow> get t (del k c) q = (if q = k then None else get t c q)"
    and ok_set: "ok c \<Longrightarrow> ok (set s k v c)"
    and ok_del: "ok c \<Longrightarrow> ok (del k c)"
    and life_set: "ok c \<Longrightarrow> life (set s k v c) = life c"
    and life_del: "ok c \<Longrightarrow> life (del k c) = life c"
begin

text \<open>Every value the store returns was set at the time on record and is not over.\<close>

definition recorded :: "'c \<Rightarrow> ('k \<rightharpoonup> time) \<Rightarrow> bool" where
  "recorded c w \<longleftrightarrow> (\<forall>t k v. get t c k = Some v \<longrightarrow> (\<exists>s. w k = Some s \<and> t < s + life c))"

lemma recorded_set: "ok c \<Longrightarrow> recorded c w \<Longrightarrow> recorded (set s k v c) (w(k \<mapsto> s))"
  unfolding recorded_def life_set
  by (auto simp: get_set split: if_splits dest: get_set_other)

lemma recorded_del: "ok c \<Longrightarrow> recorded c w \<Longrightarrow> recorded (del k c) (w(k := None))"
  unfolding recorded_def by (auto simp: get_del life_del split: if_splits)

lemma recordedD: "recorded c w \<Longrightarrow> get t c k \<noteq> None \<Longrightarrow> \<exists>s. w k = Some s \<and> t < s + life c"
  unfolding recorded_def by blast

lemma recorded_weaken:
  "recorded c w \<Longrightarrow> (\<And>t k v. get t c' k = Some v \<Longrightarrow> get t c k = Some v) \<Longrightarrow> life c' = life c \<Longrightarrow> recorded c' w"
  unfolding recorded_def by fastforce

end

text \<open>The cache keeps the contract.\<close>

definition cacheLife :: "('k, 'v) Cache option \<Rightarrow> duration" where
  "cacheLife receiver = (case receiver of None \<Rightarrow> 0 | Some c \<Rightarrow> ttl c)"

lemma Get_Set:
  "cacheOk c \<Longrightarrow> Cache_Get t (Cache_Set s k v c) k = (if t < s + cacheLife c then Some v else None)"
  by (auto simp: Cache_Get_def Cache_Set_def cacheLife_def cacheOk_def Let_def split: option.splits)

lemma map_of_evictOldest: "map_of (evictOldest m) q = Some e \<Longrightarrow> map_of m q = Some e"
  by (auto simp: evictOldest_def split: option.splits if_splits)

lemma Cache_Get_Some:
  "Cache_Get t (Some c) k = Some v \<longleftrightarrow>
   (\<exists>e. map_of (cacheValues c) k = Some e \<and> t < expiresAt e \<and> entryValue e = v)"
  by (auto simp: Cache_Get_def split: option.splits)

lemma Get_Set_other:
  assumes "q \<noteq> k" "Cache_Get t (Cache_Set s k v c) q = Some w"
  shows "Cache_Get t c q = Some w"
proof (cases c)
  case None
  then show ?thesis using assms by (simp add: Cache_Get_def Cache_Set_def)
next
  case (Some c0)
  then show ?thesis
    using assms map_of_evictOldest [of "cacheValues c0" q]
    by (auto simp: Cache_Get_Some Cache_Set_def Let_def split: if_splits)
qed

lemma Get_Delete: "Cache_Get t (Cache_Delete k c) q = (if q = k then None else Cache_Get t c q)"
  by (auto simp: Cache_Get_def Cache_Delete_def split: option.splits)

lemma cacheLife_Set: "cacheLife (Cache_Set s k v c) = cacheLife c"
  by (auto simp: cacheLife_def Cache_Set_def Let_def split: option.splits)

lemma cacheLife_Delete: "cacheLife (Cache_Delete k c) = cacheLife c"
  by (auto simp: cacheLife_def Cache_Delete_def split: option.splits)

interpretation ttlc: expiring_store Cache_Get Cache_Set Cache_Delete cacheLife cacheOk
  by unfold_locales (auto simp: Get_Set Get_Delete cacheOk_Set cacheOk_Delete cacheLife_Set
      cacheLife_Delete dest: Get_Set_other)

lemma Get_sweepStep:
  assumes "cacheOk (Some c)"
  shows "Cache_Get t (Some (sweepStep ev c)) k = Some v \<Longrightarrow> Cache_Get t (Some c) k = Some v"
    and "ev = SweepTick now \<Longrightarrow> now \<le> t \<Longrightarrow> Cache_Get t (Some (sweepStep ev c)) k = Cache_Get t (Some c) k"
proof -
  have get: "map_of (removeExpiredLocked now (cacheValues c) (cacheValues c)) k =
      (case map_of (cacheValues c) k of None \<Rightarrow> None | Some e \<Rightarrow> if now < expiresAt e then Some e else None)" for now
    using assms by (intro removeExpired_get) (simp add: cacheOk_def)
  show "Cache_Get t (Some (sweepStep ev c)) k = Some v \<Longrightarrow> Cache_Get t (Some c) k = Some v"
    by (cases ev) (auto simp: Cache_Get_Some sweepStep_def get split: option.splits if_splits)
  show "ev = SweepTick now \<Longrightarrow> now \<le> t \<Longrightarrow> Cache_Get t (Some (sweepStep ev c)) k = Cache_Get t (Some c) k"
    by (auto simp: Cache_Get_def sweepStep_def get split: option.splits)
qed

lemma cacheLife_sweepStep: "cacheLife (Some (sweepStep ev c)) = cacheLife (Some c)"
  by (auto simp: cacheLife_def sweepStep_def split: sweep_event.splits)


section \<open>Runs of the slug cache\<close>

text \<open>The calls other goroutines make, and the steps of the two sweepers, in one order.\<close>

datatype slug_call =
  CallExists time string | CallMissing time string
| FoundSweeper sweep_event | MissingSweeper sweep_event | CallClose

fun slugStep :: "SlugCache \<Rightarrow> slug_call \<Rightarrow> SlugCache" where
  "slugStep c (CallExists now slug) = the (SetExists now slug (Some c))"
| "slugStep c (CallMissing now slug) = the (SetMissing now slug (Some c))"
| "slugStep c (FoundSweeper ev) = c\<lparr>found := map_option (sweepStep ev) (found c)\<rparr>"
| "slugStep c (MissingSweeper ev) = c\<lparr>missing := map_option (sweepStep ev) (missing c)\<rparr>"
| "slugStep c CallClose = the (SlugCache_Close (Some c))"

text \<open>The specification: the last result reported for each slug, and when.\<close>

fun lastResult :: "(string \<rightharpoonup> bool \<times> time) \<Rightarrow> slug_call \<Rightarrow> (string \<rightharpoonup> bool \<times> time)" where
  "lastResult m (CallExists now slug) = m(slug \<mapsto> (True, now))"
| "lastResult m (CallMissing now slug) = m(slug \<mapsto> (False, now))"
| "lastResult m _ = m"

definition resultTimes :: "bool \<Rightarrow> (string \<rightharpoonup> bool \<times> time) \<Rightarrow> (string \<rightharpoonup> time)" where
  "resultTimes b m slug = (case m slug of Some (b', s) \<Rightarrow> if b' = b then Some s else None | None \<Rightarrow> None)"

definition slugOk :: "duration \<Rightarrow> duration \<Rightarrow> SlugCache \<Rightarrow> (string \<rightharpoonup> bool \<times> time) \<Rightarrow> bool" where
  "slugOk df dm c m \<longleftrightarrow> cacheOk (found c) \<and> cacheOk (missing c)
     \<and> cacheLife (found c) = df \<and> cacheLife (missing c) = dm
     \<and> ttlc.recorded (found c) (resultTimes True m) \<and> ttlc.recorded (missing c) (resultTimes False m)"

lemma resultTimes_upd:
  "resultTimes b (m(slug \<mapsto> (b', s))) = (resultTimes b m)(slug := if b' = b then Some s else None)"
  by (auto simp: resultTimes_def)

lemma sweep_recorded:
  assumes "cacheOk c" "ttlc.recorded c w"
  shows "cacheOk (map_option (sweepStep ev) c) \<and> ttlc.recorded (map_option (sweepStep ev) c) w
    \<and> cacheLife (map_option (sweepStep ev) c) = cacheLife c"
proof -
  obtain c0 where c: "c = Some c0" using assms(1) by (cases c) (auto simp: cacheOk_def)
  have "ttlc.recorded (Some (sweepStep ev c0)) w"
    using assms(1) by (intro ttlc.recorded_weaken [OF assms(2)])
      (auto simp: c cacheLife_sweepStep dest: Get_sweepStep(1))
  then show ?thesis using assms(1) by (simp add: c cacheOk_sweepStep cacheLife_sweepStep)
qed

lemma Close_recorded:
  assumes "cacheOk c" "ttlc.recorded c w"
  shows "cacheOk (Cache_Close c) \<and> ttlc.recorded (Cache_Close c) w \<and> cacheLife (Cache_Close c) = cacheLife c"
proof -
  obtain c0 where c: "c = Some c0" using assms(1) by (cases c) (auto simp: cacheOk_def)
  let ?c1 = "c0\<lparr>stopClosed := True\<rparr>"
  have "cacheOk (Some ?c1)" "cacheLife (Some ?c1) = cacheLife c"
    using assms(1) by (simp_all add: c cacheOk_def cacheLife_def)
  moreover have "ttlc.recorded (Some ?c1) w"
    using calculation(2) by (intro ttlc.recorded_weaken [OF assms(2)]) (simp_all add: c Cache_Get_Some)
  ultimately show ?thesis
    using sweep_recorded [of "Some ?c1" w SweepStop] by (simp only: c Cache_Close_def option.case option.map)
qed

lemma slugOk_step: "slugOk df dm c m \<Longrightarrow> slugOk df dm (slugStep c call) (lastResult m call)"
proof (cases call)
  case (CallExists now slug)
  assume "slugOk df dm c m"
  then show ?thesis
    using ttlc.recorded_set [of "found c" _ now slug "()"] ttlc.recorded_del [of "missing c" _ slug]
    by (simp add: slugOk_def CallExists SetExists_def resultTimes_upd ttlc.ok_set ttlc.ok_del
        ttlc.life_set ttlc.life_del)
next
  case (CallMissing now slug)
  assume "slugOk df dm c m"
  then show ?thesis
    using ttlc.recorded_set [of "missing c" _ now slug "()"] ttlc.recorded_del [of "found c" _ slug]
    by (simp add: slugOk_def CallMissing SetMissing_def resultTimes_upd ttlc.ok_set ttlc.ok_del
        ttlc.life_set ttlc.life_del)
qed (auto simp: slugOk_def SlugCache_Close_def sweep_recorded Close_recorded)

lemma slugOk_run: "slugOk df dm c m \<Longrightarrow> slugOk df dm (foldl slugStep c calls) (foldl lastResult m calls)"
  by (induction calls arbitrary: c m) (simp_all add: slugOk_step)

lemma slugOk_New:
  "slugOk (if df \<le> 0 then 1 else df) (if dm \<le> 0 then 1 else dm) (NewSlugCache df dm n) Map.empty"
  by (auto simp: slugOk_def NewSlugCache_def cacheOk_def cacheLife_def Cache_New_def ttlc.recorded_def
      Cache_Get_def)

section \<open>Properties\<close>



text \<open>
  C18. \<open>Set\<close> keeps a cache within its limit and stores the new value with a full time to
  live. A new key on a full cache evicts exactly one entry, one that expires first; in every
  other case every other key keeps its entry.
\<close>

theorem cache_set_evicts_oldest:
  assumes "cacheOk (Some c)"
  shows "\<exists>c'. Cache_Set now k v (Some c) = Some c' \<and> cacheOk (Some c')
    \<and> map_of (cacheValues c') k = Some \<lparr>entryValue = v, expiresAt = now + ttl c\<rparr>
    \<and> (if map_of (cacheValues c) k = None \<and> int (length (cacheValues c)) = maxEntries c
       then \<exists>old e. map_of (cacheValues c) old = Some e
          \<and> (\<forall>q e'. map_of (cacheValues c) q = Some e' \<longrightarrow> expiresAt e \<le> expiresAt e')
          \<and> (\<forall>q. q \<noteq> k \<longrightarrow> map_of (cacheValues c') q = (if q = old then None else map_of (cacheValues c) q))
       else \<forall>q. q \<noteq> k \<longrightarrow> map_of (cacheValues c') q = map_of (cacheValues c) q)"
proof -
  obtain c' where c': "Cache_Set now k v (Some c) = Some c'" by (simp add: Cache_Set_def Let_def)
  have ok: "distinct (map fst (cacheValues c))" "int (length (cacheValues c)) \<le> maxEntries c" "1 \<le> maxEntries c"
    using assms by (simp_all add: cacheOk_def)
  have "\<exists>old e. map_of (cacheValues c) old = Some e
      \<and> (\<forall>q e'. map_of (cacheValues c) q = Some e' \<longrightarrow> expiresAt e \<le> expiresAt e')
      \<and> (\<forall>q. q \<noteq> k \<longrightarrow> map_of (cacheValues c') q = (if q = old then None else map_of (cacheValues c) q))"
    if full: "map_of (cacheValues c) k = None \<and> int (length (cacheValues c)) = maxEntries c"
  proof -
    have "cacheValues c \<noteq> []" using full ok(3) by auto
    from ok(1) this obtain old e where "map_of (cacheValues c) old = Some e"
        "\<forall>q e'. map_of (cacheValues c) q = Some e' \<longrightarrow> expiresAt e \<le> expiresAt e'"
        "evictOldest (cacheValues c) = AList.delete old (cacheValues c)"
      by (rule evictOldest_spec)
    then show ?thesis using c' full by (intro exI [of _ old] exI [of _ e]) (auto simp: Cache_Set_def Let_def)
  qed
  moreover have "\<forall>q. q \<noteq> k \<longrightarrow> map_of (cacheValues c') q = map_of (cacheValues c) q"
    if "\<not> (map_of (cacheValues c) k = None \<and> int (length (cacheValues c)) = maxEntries c)"
    using that c' ok(2) by (auto simp: Cache_Set_def Let_def)
  ultimately show ?thesis
    using c' cacheOk_Set [OF assms, of now k v] by (auto simp: Cache_Set_def Let_def)
qed

theorem cache_set_evicts_oldest_witness:
  "\<exists>c'. Cache_Set 9 ''c'' () (Some \<lparr>cacheValues = [(''a'', \<lparr>entryValue = (), expiresAt = 5\<rparr>)], ttl = 3,
      maxEntries = 1, stopClosed = False, doneClosed = False\<rparr>) = Some c' \<and> map_of (cacheValues c') ''a'' = None"
proof -
  let ?c = "\<lparr>cacheValues = [(''a'', \<lparr>entryValue = (), expiresAt = 5\<rparr>)], ttl = 3,
      maxEntries = 1, stopClosed = False, doneClosed = False\<rparr>"
  have "cacheOk (Some ?c)" by (simp add: cacheOk_def)
  from cache_set_evicts_oldest [OF this, of 9 "''c''" "()"] show ?thesis by (auto split: if_splits)
qed

text \<open>
  C19. Expiry is invisible to readers: \<open>Len\<close> counts exactly the keys \<open>Get\<close> would return at that
  moment, and neither \<open>Len\<close> nor a sweep changes what any later \<open>Get\<close> returns.
\<close>

theorem cache_expiry_invisible:
  assumes "cacheOk (Some c)" "now \<le> t"
  shows "fst (Cache_Len now (Some c)) = card {k. Cache_Get now (Some c) k \<noteq> None}
    \<and> Cache_Get t (snd (Cache_Len now (Some c))) k = Cache_Get t (Some c) k
    \<and> Cache_Get t (Some (sweepStep (SweepTick now) c)) k = Cache_Get t (Some c) k"
proof -
  let ?m = "removeExpiredLocked now (cacheValues c) (cacheValues c)"
  have dist: "distinct (map fst (cacheValues c))" using assms(1) by (simp add: cacheOk_def)
  have get: "map_of ?m k = (case map_of (cacheValues c) k of
      None \<Rightarrow> None | Some e \<Rightarrow> if now < expiresAt e then Some e else None)" for k
    using dist by (rule removeExpired_get)
  have "{k. Cache_Get now (Some c) k \<noteq> None} = dom (map_of ?m)"
    by (auto simp: Cache_Get_def get dom_def split: option.splits if_splits)
  also have "card \<dots> = length ?m"
    using distinct_card [OF removeExpiredLocked_distinct [OF dist]] by (simp add: dom_map_of_conv_image_fst)
  finally have "fst (Cache_Len now (Some c)) = card {k. Cache_Get now (Some c) k \<noteq> None}"
    by (simp add: Cache_Len_def Let_def)
  moreover have "Cache_Get t (snd (Cache_Len now (Some c))) k = Cache_Get t (Some c) k"
    using assms(2) by (auto simp: Cache_Len_def Let_def Cache_Get_def get split: option.splits)
  ultimately show ?thesis using Get_sweepStep(2) [OF assms(1) refl assms(2)] by simp
qed

theorem cache_expiry_invisible_witness:
  "fst (Cache_Len 4 (Some \<lparr>cacheValues = [(1::int, \<lparr>entryValue = (), expiresAt = 3\<rparr>), (2, \<lparr>entryValue = (), expiresAt = 5\<rparr>)],
      ttl = 3, maxEntries = 2, stopClosed = False, doneClosed = False\<rparr>)) = card {2::int}"
proof -
  let ?c = "\<lparr>cacheValues = [(1::int, \<lparr>entryValue = (), expiresAt = 3\<rparr>), (2, \<lparr>entryValue = (), expiresAt = 5\<rparr>)],
      ttl = 3, maxEntries = 2, stopClosed = False, doneClosed = False\<rparr>"
  have "cacheOk (Some ?c)" by (simp add: cacheOk_def)
  moreover have "{k. Cache_Get 4 (Some ?c) k \<noteq> None} = {2}" by (auto simp: Cache_Get_def)
  ultimately show ?thesis using cache_expiry_invisible [of ?c 4 4] by simp
qed


end
