(* ===== verification/Go_Strings.thy ===== *)
theory Go_Strings
  imports Crdt_Snapshot
begin

text \<open>
  The functions of Go's package \<open>strings\<close> that the sources call, on strings as lists of
  bytes: white space is removed by its UTF-8 encoding, and characters are counted as runes.
\<close>

section \<open>Trimming\<close>

text \<open>The code points \<open>unicode.IsSpace\<close> accepts, in UTF-8.\<close>

definition spaceBytes :: "string list" where
  "spaceBytes =
     [[CHR 0x20], [CHR 0x09], [CHR 0x0A], [CHR 0x0B], [CHR 0x0C], [CHR 0x0D], [CHR 0xC2, CHR 0x85],
      [CHR 0xC2, CHR 0xA0], [CHR 0xE1, CHR 0x9A, CHR 0x80], [CHR 0xE2, CHR 0x80, CHR 0x80],
      [CHR 0xE2, CHR 0x80, CHR 0x81], [CHR 0xE2, CHR 0x80, CHR 0x82], [CHR 0xE2, CHR 0x80, CHR 0x83],
      [CHR 0xE2, CHR 0x80, CHR 0x84], [CHR 0xE2, CHR 0x80, CHR 0x85], [CHR 0xE2, CHR 0x80, CHR 0x86],
      [CHR 0xE2, CHR 0x80, CHR 0x87], [CHR 0xE2, CHR 0x80, CHR 0x88], [CHR 0xE2, CHR 0x80, CHR 0x89],
      [CHR 0xE2, CHR 0x80, CHR 0x8A], [CHR 0xE2, CHR 0x80, CHR 0xA8], [CHR 0xE2, CHR 0x80, CHR 0xA9],
      [CHR 0xE2, CHR 0x80, CHR 0xAF], [CHR 0xE2, CHR 0x81, CHR 0x9F], [CHR 0xE3, CHR 0x80, CHR 0x80]]"

lemma spaceBytes_runes:
  "spaceBytes = map runeBytes
    [0x20, 0x9, 0xA, 0xB, 0xC, 0xD, 0x85, 0xA0, 0x1680, 0x2000, 0x2001, 0x2002, 0x2003,
     0x2004, 0x2005, 0x2006, 0x2007, 0x2008, 0x2009, 0x200A, 0x2028, 0x2029, 0x202F, 0x205F, 0x3000]"
  by (simp add: spaceBytes_def runeBytes_def Let_def) code_simp

fun hasPrefix :: "string \<Rightarrow> string \<Rightarrow> bool" where
  "hasPrefix s [] \<longleftrightarrow> True"
| "hasPrefix [] (p # ps) \<longleftrightarrow> False"
| "hasPrefix (c # cs) (p # ps) \<longleftrightarrow> c = p \<and> hasPrefix cs ps"

text \<open>Remove leading occurrences of the words of a list of non-empty words.\<close>

function trimLeading :: "string list \<Rightarrow> string \<Rightarrow> string" where
  "trimLeading ws s =
     (case find (\<lambda>w. w \<noteq> [] \<and> hasPrefix s w) ws of
        None \<Rightarrow> s
      | Some w \<Rightarrow> trimLeading ws (drop (length w) s))"
  by pat_completeness auto
termination
proof (relation "measure (\<lambda>(ws, s). length s)")
  fix ws :: "string list" and s w
  assume "find (\<lambda>w. w \<noteq> [] \<and> hasPrefix s w) ws = Some w"
  then have "w \<noteq> []" "hasPrefix s w" by (auto simp: find_Some_iff)
  then show "((ws, drop (length w) s), (ws, s)) \<in> measure (\<lambda>(ws, s). length s)"
    by (cases s; cases w) auto
qed simp

declare trimLeading.simps [simp del]

definition trimSpace :: "string \<Rightarrow> string" where
  "trimSpace s =
     (let ws = spaceBytes
      in rev (trimLeading (map rev ws) (rev (trimLeading ws s))))"

section \<open>Counting and searching\<close>

text \<open>\<open>len([]rune(s))\<close> of valid UTF-8: the bytes that are not continuation bytes.\<close>

definition runeCount :: "string \<Rightarrow> nat" where
  "runeCount s = length (filter (\<lambda>c. \<not> (0x80 \<le> (of_char c :: nat) \<and> (of_char c :: nat) < 0xC0)) s)"

fun containsText :: "string \<Rightarrow> string \<Rightarrow> bool" where
  "containsText [] sub \<longleftrightarrow> sub = []"
| "containsText (c # cs) sub \<longleftrightarrow> hasPrefix (c # cs) sub \<or> containsText cs sub"

definition lowerChar :: "char \<Rightarrow> char" where
  "lowerChar c = (let n = of_char c :: nat in if 65 \<le> n \<and> n \<le> 90 then char_of (n + 32) else c)"

text \<open>ASCII lower case, the folding of SQLite's \<open>NOCASE\<close>.\<close>

definition lowerString :: "string \<Rightarrow> string" where
  "lowerString = map lowerChar"

end
