(* ===== verification/Json.thy ===== *)
theory Json
  imports Go_Strings
begin

text \<open>
  The JSON form of the CRDT types, as \<open>encoding/json\<close> reads it off the struct tags of
  \<open>internal/crdt/document.go\<close>. A JSON text is represented by its syntax tree, so that the
  columns of the database and the WebSocket messages hold trees. Strings are valid UTF-8 (every
  string the server stores came out of a JSON message, whose decoder enforces it).

  The decoder follows the rules of \<open>json.Unmarshal\<close>: keys match without regard to ASCII
  case, a later key overwrites or merges into an earlier one, unknown keys are ignored, missing
  ones leave the zero value, \<open>null\<close> leaves a value alone and clears a pointer, and a
  value of the wrong type or a number out of range is an error (\<^const>\<open>None\<close>).
\<close>

section \<open>JSON values\<close>

text \<open>\<open>JNumber\<close> is a number literal with a fraction or an exponent.\<close>

datatype json =
  JNull
| JBool bool
| JInt int
| JNumber string
| JString string
| JArray "json list"
| JObject "(string \<times> json) list"

text \<open>The loop over the members of an object, and decoding into a struct.\<close>

fun decodeFields :: "(string \<Rightarrow> json \<Rightarrow> 'a \<Rightarrow> 'a option) \<Rightarrow> (string \<times> json) list \<Rightarrow> 'a \<Rightarrow> 'a option" where
  "decodeFields setter [] a = Some a"
| "decodeFields setter ((k, v) # fs) a =
     (case setter (lowerString k) v a of None \<Rightarrow> None | Some a' \<Rightarrow> decodeFields setter fs a')"

definition decodeStruct :: "(string \<Rightarrow> json \<Rightarrow> 'a \<Rightarrow> 'a option) \<Rightarrow> json \<Rightarrow> 'a \<Rightarrow> 'a option" where
  "decodeStruct setter j a =
     (case j of JNull \<Rightarrow> Some a | JObject fs \<Rightarrow> decodeFields setter fs a | _ \<Rightarrow> None)"

text \<open>A pointer to a struct: \<open>null\<close> clears it, an object is decoded into its target.\<close>

definition decodePointer :: "(string \<Rightarrow> json \<Rightarrow> 'a \<Rightarrow> 'a option) \<Rightarrow> 'a \<Rightarrow> json \<Rightarrow> 'a option \<Rightarrow> 'a option option" where
  "decodePointer setter zero j p =
     (if j = JNull then Some None
      else map_option Some (decodeStruct setter j (case p of None \<Rightarrow> zero | Some a \<Rightarrow> a)))"

definition decodeString :: "json \<Rightarrow> string \<Rightarrow> string option" where
  "decodeString j s = (case j of JNull \<Rightarrow> Some s | JString t \<Rightarrow> Some t | _ \<Rightarrow> None)"

definition decodeBool :: "json \<Rightarrow> bool \<Rightarrow> bool option" where
  "decodeBool j b = (case j of JNull \<Rightarrow> Some b | JBool c \<Rightarrow> Some c | _ \<Rightarrow> None)"

definition decodeUint64 :: "json \<Rightarrow> u64 \<Rightarrow> u64 option" where
  "decodeUint64 j n =
     (case j of JNull \<Rightarrow> Some n
      | JInt i \<Rightarrow> if 0 \<le> i \<and> i < 2 ^ 64 then Some (word_of_int i) else None
      | _ \<Rightarrow> None)"

definition decodeInt32 :: "json \<Rightarrow> rune \<Rightarrow> rune option" where
  "decodeInt32 j n =
     (case j of JNull \<Rightarrow> Some n
      | JInt i \<Rightarrow> if - (2 ^ 31) \<le> i \<and> i < 2 ^ 31 then Some (word_of_int i) else None
      | _ \<Rightarrow> None)"

definition decodeInt64 :: "json \<Rightarrow> int \<Rightarrow> int option" where
  "decodeInt64 j n =
     (case j of JNull \<Rightarrow> Some n
      | JInt i \<Rightarrow> if - (2 ^ 63) \<le> i \<and> i < 2 ^ 63 then Some i else None
      | _ \<Rightarrow> None)"

text \<open>A slice: \<open>null\<close> is the nil slice, each element starts from the zero value.\<close>

fun decodeElems :: "(string \<Rightarrow> json \<Rightarrow> 'a \<Rightarrow> 'a option) \<Rightarrow> 'a \<Rightarrow> json list \<Rightarrow> 'a list option" where
  "decodeElems setter zero [] = Some []"
| "decodeElems setter zero (j # js) =
     (case decodeStruct setter j zero of
        None \<Rightarrow> None
      | Some a \<Rightarrow> map_option (\<lambda>as. a # as) (decodeElems setter zero js))"

definition decodeSlice :: "(string \<Rightarrow> json \<Rightarrow> 'a \<Rightarrow> 'a option) \<Rightarrow> 'a \<Rightarrow> json \<Rightarrow> 'a list option" where
  "decodeSlice setter zero j =
     (case j of JNull \<Rightarrow> Some [] | JArray js \<Rightarrow> decodeElems setter zero js | _ \<Rightarrow> None)"

text \<open>A member with the option \<open>omitempty\<close>.\<close>

definition omitEmpty :: "bool \<Rightarrow> string \<Rightarrow> json \<Rightarrow> (string \<times> json) list" where
  "omitEmpty isEmpty k j = (if isEmpty then [] else [(k, j)])"

section \<open>Identities, characters and operations\<close>

definition encodeCharID :: "CharID \<Rightarrow> json" where
  "encodeCharID i = JObject [(''siteID'', JString (SiteID i)), (''counter'', JInt (uint (Counter i)))]"

definition setCharID :: "string \<Rightarrow> json \<Rightarrow> CharID \<Rightarrow> CharID option" where
  "setCharID k v i =
     (if k = ''siteid'' then map_option (\<lambda>s. CharID s (Counter i)) (decodeString v (SiteID i))
      else if k = ''counter'' then map_option (\<lambda>n. CharID (SiteID i) n) (decodeUint64 v (Counter i))
      else Some i)"

definition omitPointer :: "string \<Rightarrow> CharID option \<Rightarrow> (string \<times> json) list" where
  "omitPointer k p = (case p of None \<Rightarrow> [] | Some i \<Rightarrow> [(k, encodeCharID i)])"

definition encodeChar :: "crdt_char \<Rightarrow> json" where
  "encodeChar c = JObject
     ([(''id'', encodeCharID (ID c)), (''value'', JInt (sint (Value c)))]
      @ omitPointer ''leftID'' (LeftID c) @ omitPointer ''rightID'' (RightID c)
      @ [(''deleted'', JBool (Deleted c))])"

definition setChar :: "string \<Rightarrow> json \<Rightarrow> crdt_char \<Rightarrow> crdt_char option" where
  "setChar k v c =
     (if k = ''id'' then map_option (\<lambda>i. c\<lparr>ID := i\<rparr>) (decodeStruct setCharID v (ID c))
      else if k = ''value'' then map_option (\<lambda>n. c\<lparr>Value := n\<rparr>) (decodeInt32 v (Value c))
      else if k = ''leftid'' then map_option (\<lambda>p. c\<lparr>LeftID := p\<rparr>) (decodePointer setCharID rootID v (LeftID c))
      else if k = ''rightid'' then map_option (\<lambda>p. c\<lparr>RightID := p\<rparr>) (decodePointer setCharID rootID v (RightID c))
      else if k = ''deleted'' then map_option (\<lambda>b. c\<lparr>Deleted := b\<rparr>) (decodeBool v (Deleted c))
      else Some c)"

definition marshalChars :: "crdt_char list \<Rightarrow> json" where
  "marshalChars cs = JArray (map encodeChar cs)"

definition unmarshalChars :: "json \<Rightarrow> crdt_char list option" where
  "unmarshalChars = decodeSlice setChar zeroChar"

definition zeroOp :: Operation where
  "zeroOp = \<lparr>opType = '''', opID = rootID, opValue = 0, opLeftID = None, opRightID = None\<rparr>"

definition operationFields :: "Operation \<Rightarrow> (string \<times> json) list" where
  "operationFields op =
     [(''type'', JString (opType op)), (''id'', encodeCharID (opID op))]
     @ omitEmpty (opValue op = 0) ''value'' (JInt (sint (opValue op)))
     @ omitPointer ''leftID'' (opLeftID op) @ omitPointer ''rightID'' (opRightID op)"

definition marshalOperation :: "Operation \<Rightarrow> json" where
  "marshalOperation op = JObject (operationFields op)"

definition setOperation :: "string \<Rightarrow> json \<Rightarrow> Operation \<Rightarrow> Operation option" where
  "setOperation k v op =
     (if k = ''type'' then map_option (\<lambda>t. op\<lparr>opType := t\<rparr>) (decodeString v (opType op))
      else if k = ''id'' then map_option (\<lambda>i. op\<lparr>opID := i\<rparr>) (decodeStruct setCharID v (opID op))
      else if k = ''value'' then map_option (\<lambda>n. op\<lparr>opValue := n\<rparr>) (decodeInt32 v (opValue op))
      else if k = ''leftid'' then map_option (\<lambda>p. op\<lparr>opLeftID := p\<rparr>) (decodePointer setCharID rootID v (opLeftID op))
      else if k = ''rightid'' then map_option (\<lambda>p. op\<lparr>opRightID := p\<rparr>) (decodePointer setCharID rootID v (opRightID op))
      else Some op)"

definition unmarshalOperation :: "json \<Rightarrow> Operation option" where
  "unmarshalOperation j = decodeStruct setOperation j zeroOp"

section \<open>Round trips\<close>

text \<open>The keys of the encoder, in lower case.\<close>

lemma lower_keys [simp]:
  "lowerString ''siteID'' = ''siteid''" "lowerString ''counter'' = ''counter''"
  "lowerString ''id'' = ''id''" "lowerString ''value'' = ''value''"
  "lowerString ''leftID'' = ''leftid''" "lowerString ''rightID'' = ''rightid''"
  "lowerString ''deleted'' = ''deleted''" "lowerString ''type'' = ''type''"
  by code_simp+

lemma decodeFields_append:
  "decodeFields setter (fs @ gs) a =
     (case decodeFields setter fs a of None \<Rightarrow> None | Some b \<Rightarrow> decodeFields setter gs b)"
  by (induction fs arbitrary: a) (auto split: option.splits)

lemma decodeStruct_JObject [simp]: "decodeStruct setter (JObject fs) a = decodeFields setter fs a"
  by (simp add: decodeStruct_def)

lemma decodeUint64_uint [simp]: "decodeUint64 (JInt (uint n)) m = Some (n :: u64)"
  using uint_lt2p [of n] by (simp add: decodeUint64_def)

lemma decodeInt32_sint [simp]: "decodeInt32 (JInt (sint n)) m = Some (n :: rune)"
  using sint_greater_eq [of n] sint_less [of n] by (simp add: decodeInt32_def)

lemma decode_encodeCharID [simp]: "decodeStruct setCharID (encodeCharID i) j = Some i"
  by (cases i; cases j) (simp add: encodeCharID_def setCharID_def decodeString_def)

lemma encodeCharID_not_null [simp]: "encodeCharID i \<noteq> JNull"
  by (simp add: encodeCharID_def)

lemma decodePointer_encode [simp]: "decodePointer setCharID zero (encodeCharID i) p = Some (Some i)"
  by (simp add: decodePointer_def)

lemma unmarshal_marshalChar: "decodeStruct setChar (encodeChar c) zeroChar = Some c"
proof (cases c)
  case (fields i v l r b)
  then show ?thesis
    by (cases l; cases r)
      (simp_all add: encodeChar_def setChar_def omitPointer_def decodeBool_def zeroChar_def)
qed

lemma unmarshal_marshalChars: "unmarshalChars (marshalChars cs) = Some cs"
proof -
  have "decodeElems setChar zeroChar (map encodeChar cs) = Some cs"
    by (induction cs) (simp_all add: unmarshal_marshalChar)
  then show ?thesis by (simp add: unmarshalChars_def marshalChars_def decodeSlice_def)
qed

lemma decode_operationFields:
  "decodeFields setOperation (operationFields op) zeroOp = Some op"
proof (cases op)
  case (fields t i v l r)
  then show ?thesis
    by (cases l; cases r; cases "v = 0")
      (simp_all add: operationFields_def setOperation_def omitPointer_def omitEmpty_def
        decodeString_def zeroOp_def)
qed

lemma unmarshal_marshalOperation: "unmarshalOperation (marshalOperation op) = Some op"
  by (simp add: unmarshalOperation_def marshalOperation_def decode_operationFields)

lemma marshalOperation_not_null [simp]: "marshalOperation op \<noteq> JNull"
  by (simp add: marshalOperation_def)


end
