(* ===== verification/Store.thy ===== *)
theory Store
  imports Json
begin

text \<open>
  \<open>internal/store/store.go\<close>: the tables of \<open>migrations/001_initial.sql\<close> as lists of
  rows, and every statement the store sends as a function on them. A JSON column holds a syntax
  tree (\<^const>\<open>None\<close> is the empty text). The database itself may fail at any call: every
  operation takes a function that says which of its calls fail, and with what text. A
  transaction that does not commit leaves the tables as they were.

  Row identities and sequence numbers (\<open>int64\<close>) are integers: they grow by one per
  row. Times are the texts the database stores; parsing them is a parameter.
\<close>

section \<open>Tables\<close>

record User =
  userID :: int
  userName :: string
  userColor :: string

record doc_row =
  docID :: int
  docSlug :: string
  docTitle :: "string option"
  docSnapshot :: "json option"
  docVersion :: int
  docCreated :: string
  docUpdated :: string

record op_row =
  opDocument :: int
  opSequence :: int
  opUser :: int
  opSite :: string
  opKind :: string
  opPayload :: json
  opCreated :: string

text \<open>The tables, with the last identity each \<open>AUTOINCREMENT\<close> column has handed out.\<close>

record database =
  users :: "User list"
  documents :: "doc_row list"
  operations :: "op_row list"
  lastUser :: int
  lastDocument :: int

text \<open>A nil \<open>Store\<close> behaves as one without handles.\<close>

record Store =
  readDB :: bool
  writeDB :: bool
  tables :: database

section \<open>Errors\<close>

datatype db_error =
  DriverError string | UniqueViolation string | ForeignKeyViolation | CheckViolation

fun db_error_text :: "db_error \<Rightarrow> string" where
  "db_error_text (DriverError m) = m"
| "db_error_text (UniqueViolation column) = ''UNIQUE constraint failed: '' @ column"
| "db_error_text ForeignKeyViolation = ''FOREIGN KEY constraint failed''"
| "db_error_text CheckViolation = ''CHECK constraint failed''"

text \<open>The errors of the package, with the prefix their message puts before the cause.\<close>

datatype store_error =
  StoreNotOpen
| UsernameTooLong
| NegativeSnapshotVersion
| SlugsExhausted
| RandomFailed string
| SlugNotFound string
| DocumentIDNotFound int
| UnsupportedType string
| SequenceNotFound int
| DbFailed string db_error
| InsertOperationFailed int db_error
| DecodeFailed string
| DecodeOperationFailed int
| IndexPanic

text \<open>\<open>errors.Is(err, ErrDocumentNotFound)\<close>.\<close>

fun isDocumentNotFound :: "store_error \<Rightarrow> bool" where
  "isDocumentNotFound (SlugNotFound _) = True"
| "isDocumentNotFound (DocumentIDNotFound _) = True"
| "isDocumentNotFound _ = False"

text \<open>The calls to the database an operation makes; the number tells repeated calls apart.\<close>

datatype db_call =
  DbBegin | DbQueryRow nat | DbQuery | DbExec nat | DbScan nat | DbRowsErr
| DbLastInsertId | DbRowsAffected | DbCommit

type_synonym db_faults = "db_call \<Rightarrow> string option"

definition dbCall :: "db_faults \<Rightarrow> db_call \<Rightarrow> string \<Rightarrow> store_error + unit" where
  "dbCall flt c prefix = (case flt c of None \<Rightarrow> Inr () | Some m \<Rightarrow> Inl (DbFailed prefix (DriverError m)))"

definition noFaults :: db_faults where "noFaults = (\<lambda>_. None)"

lemma dbCall_Inr [simp]: "dbCall flt c prefix = Inr u \<longleftrightarrow> flt c = None"
  by (simp add: dbCall_def split: option.splits)

lemma dbCall_None: "flt c = None \<Longrightarrow> dbCall flt c prefix = Inr ()"
  by simp

section \<open>Statements\<close>

text \<open>The schema and the row the migration seeds.\<close>

definition systemUserID :: int where "systemUserID = 1"

definition initialTables :: database where
  "initialTables =
     \<lparr>users = [\<lparr>userID = systemUserID, userName = ''__system__'', userColor = ''#808080''\<rparr>],
      documents = [], operations = [], lastUser = 1, lastDocument = 0\<rparr>"

text \<open>\<open>SELECT COALESCE(MAX(sequence), 0)\<close> and \<open>SELECT MAX(sequence)\<close> of a document.\<close>

definition documentOps :: "database \<Rightarrow> int \<Rightarrow> op_row list" where
  "documentOps t d = filter (\<lambda>r. opDocument r = d) (operations t)"

definition maxSequence :: "database \<Rightarrow> int \<Rightarrow> int option" where
  "maxSequence t d =
     (case map opSequence (documentOps t d) of [] \<Rightarrow> None | s # ss \<Rightarrow> Some (fold max ss s))"

text \<open>\<open>INSERT INTO operations\<close> with the constraints of the table.\<close>

definition insertOperationRow :: "op_row \<Rightarrow> database \<Rightarrow> db_error + database" where
  "insertOperationRow r t =
     (if opKind r \<noteq> ''insert'' \<and> opKind r \<noteq> ''delete'' then Inl CheckViolation
      else if \<exists>q \<in> set (operations t). opDocument q = opDocument r \<and> opSequence q = opSequence r
      then Inl (UniqueViolation ''operations.document_id, operations.sequence'')
      else if opDocument r \<notin> docID ` set (documents t) \<or> opUser r \<notin> userID ` set (users t)
      then Inl ForeignKeyViolation
      else Inr (t\<lparr>operations := operations t @ [r]\<rparr>))"

text \<open>\<open>UPDATE documents ... WHERE id = ?\<close>: the number of rows and the new table.\<close>

definition updateDocuments :: "int \<Rightarrow> (doc_row \<Rightarrow> doc_row) \<Rightarrow> database \<Rightarrow> nat \<times> database" where
  "updateDocuments d f t =
     (length (filter (\<lambda>r. docID r = d) (documents t)),
      t\<lparr>documents := map (\<lambda>r. if docID r = d then f r else r) (documents t)\<rparr>)"

definition documentBySlug :: "database \<Rightarrow> string \<Rightarrow> doc_row option" where
  "documentBySlug t slug = find (\<lambda>r. docSlug r = slug) (documents t)"

text \<open>\<open>username\<close> is compared under \<open>COLLATE NOCASE\<close>.\<close>

definition userByName :: "database \<Rightarrow> string \<Rightarrow> User option" where
  "userByName t name = find (\<lambda>u. lowerString (userName u) = lowerString name) (users t)"

definition insertUserRow :: "string \<Rightarrow> string \<Rightarrow> database \<Rightarrow> db_error + database" where
  "insertUserRow name color t =
     (if userByName t name \<noteq> None then Inl (UniqueViolation ''users.username'')
      else Inr (t\<lparr>users := users t @ [\<lparr>userID = lastUser t + 1, userName = name, userColor = color\<rparr>],
                  lastUser := lastUser t + 1\<rparr>))"

definition insertDocumentRow :: "string \<Rightarrow> string \<Rightarrow> database \<Rightarrow> db_error + database" where
  "insertDocumentRow stamp slug t =
     (if documentBySlug t slug \<noteq> None then Inl (UniqueViolation ''documents.slug'')
      else Inr (t\<lparr>documents := documents t @
                    [\<lparr>docID = lastDocument t + 1, docSlug = slug, docTitle = None, docSnapshot = None,
                      docVersion = 0, docCreated = stamp, docUpdated = stamp\<rparr>],
                  lastDocument := lastDocument t + 1\<rparr>))"

section \<open>Users\<close>

definition userColors :: "string list" where
  "userColors = [''#4dd8c0'', ''#7aa2f7'', ''#bb9af7'', ''#f7768e'', ''#e0af68'', ''#9ece6a'', ''#7dcfff'', ''#ff9e64'']"

definition FindOrCreateUser :: "db_faults \<Rightarrow> string \<Rightarrow> Store \<Rightarrow> (store_error + User) \<times> Store" where
  "FindOrCreateUser flt username0 s =
     (if \<not> writeDB s then (Inl StoreNotOpen, s)
      else
        let trimmed = trimSpace username0;
            username = (if trimmed = '''' then ''Anonymous'' else trimmed);
            t = tables s
        in if runeCount username > 64 then (Inl UsernameTooLong, s)
        else case andThen (dbCall flt DbBegin ''begin user transaction'')
                    (\<lambda>_. dbCall flt (DbQueryRow 0) ''find user'') of
            Inl e \<Rightarrow> (Inl e, s)
          | Inr _ \<Rightarrow>
              (case userByName t username of
                 Some u \<Rightarrow> (Inr u, s)
               | None \<Rightarrow>
                   (case andThen (dbCall flt (DbQueryRow 1) ''count users'') (\<lambda>_.
                         if users t = [] then Inl IndexPanic
                         else let color = userColors ! ((length (users t) - 1) mod length userColors)
                         in andThen (dbCall flt (DbExec 0) ''create user'') (\<lambda>_.
                            andThen (case insertUserRow username color t of
                                       Inl e \<Rightarrow> Inl (DbFailed ''create user'' e) | Inr t' \<Rightarrow> Inr t') (\<lambda>t'.
                            andThen (dbCall flt DbLastInsertId ''read user ID'') (\<lambda>_.
                            andThen (dbCall flt DbCommit ''commit user'') (\<lambda>_.
                              Inr (\<lparr>userID = lastUser t', userName = username, userColor = color\<rparr>, t')))))) of
                      Inl e \<Rightarrow> (Inl e, s)
                    | Inr (u, t') \<Rightarrow> (Inr u, s\<lparr>tables := t'\<rparr>))))"

section \<open>Documents\<close>

record StoredDocument =
  storedID :: int
  storedSlug :: string
  storedTitle :: string
  storedSnapshot :: "crdt_char list"
  storedVersion :: int

text \<open>
  \<open>randomSlug\<close>: \<open>reads\<close> are the blocks of twelve bytes successive calls of
  \<open>rand.Read\<close> return, \<^const>\<open>None\<close> for a failure; when they run out, the loop is still
  waiting for bytes.
\<close>

definition slugLength :: nat where "slugLength = 12"

definition slugAlphabet :: string where
  "slugAlphabet = ''0123456789ABCDEFGHIJKLMNOPQRSTUVWXYZabcdefghijklmnopqrstuvwxyz''"

definition slugLimit :: nat where
  "slugLimit = 256 - 256 mod length slugAlphabet"

fun takeSlugBytes :: "nat list \<Rightarrow> string \<Rightarrow> string" where
  "takeSlugBytes [] result = result"
| "takeSlugBytes (b # bs) result =
     (if length result = slugLength then result
      else if b \<ge> slugLimit then takeSlugBytes bs result
      else takeSlugBytes bs (result @ [slugAlphabet ! (b mod length slugAlphabet)]))"

fun randomSlug :: "nat list option list \<Rightarrow> string \<Rightarrow> (string + string \<times> nat list option list) option" where
  "randomSlug reads result =
     (if \<not> length result < slugLength then Some (Inr (result, reads))
      else case reads of
          [] \<Rightarrow> None
        | None # rest \<Rightarrow> Some (Inl ''generate document slug'')
        | Some block # rest \<Rightarrow> randomSlug rest (takeSlugBytes block result))"

declare randomSlug.simps [simp del]

text \<open>The test for a collision looks for \<open>unique\<close> in the text of the error.\<close>

definition isUniqueError :: "db_error \<Rightarrow> bool" where
  "isUniqueError e = containsText (lowerString (db_error_text e)) ''unique''"

definition execInsertDocument :: "db_faults \<Rightarrow> nat \<Rightarrow> string \<Rightarrow> string \<Rightarrow> database \<Rightarrow> db_error + database" where
  "execInsertDocument flt i stamp slug t =
     (case flt (DbExec i) of Some m \<Rightarrow> Inl (DriverError m) | None \<Rightarrow> insertDocumentRow stamp slug t)"

fun createLoop ::
  "nat \<Rightarrow> nat \<Rightarrow> db_faults \<Rightarrow> string \<Rightarrow> nat list option list \<Rightarrow> database
   \<Rightarrow> (store_error + StoredDocument \<times> database) option" where
  "createLoop 0 i flt stamp reads t = Some (Inl SlugsExhausted)"
| "createLoop (Suc n) i flt stamp reads t =
     (case randomSlug reads [] of
        None \<Rightarrow> None
      | Some (Inl m) \<Rightarrow> Some (Inl (RandomFailed m))
      | Some (Inr (slug, rest)) \<Rightarrow>
          (case execInsertDocument flt i stamp slug t of
             Inl e \<Rightarrow>
               if isUniqueError e then createLoop n (Suc i) flt stamp rest t
               else Some (Inl (DbFailed ''insert document'' e))
           | Inr t' \<Rightarrow>
               Some (andThen (dbCall flt DbLastInsertId ''read document ID'') (\<lambda>_.
                     andThen (dbCall flt DbCommit ''commit document'') (\<lambda>_.
                       Inr (\<lparr>storedID = lastDocument t', storedSlug = slug, storedTitle = '''',
                             storedSnapshot = [], storedVersion = 0\<rparr>, t'))))))"

definition CreateDocument ::
  "db_faults \<Rightarrow> string \<Rightarrow> nat list option list \<Rightarrow> Store \<Rightarrow> ((store_error + StoredDocument) \<times> Store) option" where
  "CreateDocument flt stamp reads s =
     (if \<not> writeDB s then Some (Inl StoreNotOpen, s)
      else case dbCall flt DbBegin ''begin document transaction'' of
          Inl e \<Rightarrow> Some (Inl e, s)
        | Inr _ \<Rightarrow>
            map_option (\<lambda>r. case r of Inl e \<Rightarrow> (Inl e, s) | Inr (d, t') \<Rightarrow> (Inr d, s\<lparr>tables := t'\<rparr>))
              (createLoop 10 0 flt stamp reads (tables s)))"

section \<open>Operations\<close>

record OperationWrite =
  writeUser :: int
  writeOp :: Operation

text \<open>The loop that inserts a batch; \<open>i\<close> counts the rows inserted so far.\<close>

fun insertWrites ::
  "db_faults \<Rightarrow> string \<Rightarrow> int \<Rightarrow> OperationWrite list \<Rightarrow> nat \<Rightarrow> int \<Rightarrow> database \<Rightarrow> store_error + database" where
  "insertWrites flt stamp d [] i sequence t = Inr t"
| "insertWrites flt stamp d (w # ws) i sequence t =
     (let op = writeOp w;
          user = (if writeUser w \<le> 0 then systemUserID else writeUser w)
      in if opType op \<noteq> Insert \<and> opType op \<noteq> Delete then Inl (UnsupportedType (opType op))
         else
           let sequence' = sequence + 1;
               row = \<lparr>opDocument = d, opSequence = sequence', opUser = user, opSite = SiteID (opID op),
                      opKind = opType op, opPayload = marshalOperation op, opCreated = stamp\<rparr>
           in case (case flt (DbExec i) of Some m \<Rightarrow> Inl (DriverError m) | None \<Rightarrow> insertOperationRow row t) of
                Inl e \<Rightarrow> Inl (InsertOperationFailed sequence' e)
              | Inr t' \<Rightarrow> insertWrites flt stamp d ws (Suc i) sequence' t')"

definition touchDocument :: "db_faults \<Rightarrow> string \<Rightarrow> nat \<Rightarrow> int \<Rightarrow> database \<Rightarrow> store_error + database" where
  "touchDocument flt stamp i d t =
     andThen (dbCall flt (DbExec i) ''update document timestamp'') (\<lambda>_.
       let (rows, t') = updateDocuments d (\<lambda>r. r\<lparr>docUpdated := stamp\<rparr>) t
       in andThen (dbCall flt DbRowsAffected ''check document update'') (\<lambda>_.
          if rows \<noteq> 1 then Inl (DocumentIDNotFound d) else Inr t'))"

definition AppendOperationBatch ::
  "db_faults \<Rightarrow> string \<Rightarrow> int \<Rightarrow> OperationWrite list \<Rightarrow> Store \<Rightarrow> (store_error + unit) \<times> Store" where
  "AppendOperationBatch flt stamp d writes s =
     (if writes = [] then (Inr (), s)
      else if \<not> writeDB s then (Inl StoreNotOpen, s)
      else case
          andThen (dbCall flt DbBegin ''begin operation transaction'') (\<lambda>_.
          andThen (dbCall flt (DbQueryRow 0) ''read operation sequence'') (\<lambda>_.
          let sequence = (case maxSequence (tables s) d of None \<Rightarrow> 0 | Some m \<Rightarrow> m)
          in andThen (insertWrites flt stamp d writes 0 sequence (tables s)) (\<lambda>t1.
             andThen (touchDocument flt stamp (length writes) d t1) (\<lambda>t2.
             andThen (dbCall flt DbCommit ''commit operations'') (\<lambda>_. Inr t2))))) of
          Inl e \<Rightarrow> (Inl e, s)
        | Inr t \<Rightarrow> (Inr (), s\<lparr>tables := t\<rparr>))"

definition AppendOperations ::
  "db_faults \<Rightarrow> string \<Rightarrow> int \<Rightarrow> Operation list \<Rightarrow> Store \<Rightarrow> (store_error + unit) \<times> Store" where
  "AppendOperations flt stamp d ops s =
     AppendOperationBatch flt stamp d (map (\<lambda>op. \<lparr>writeUser = systemUserID, writeOp = op\<rparr>) ops) s"

definition AppendOperationsForUser ::
  "db_faults \<Rightarrow> string \<Rightarrow> int \<Rightarrow> int \<Rightarrow> Operation list \<Rightarrow> Store \<Rightarrow> (store_error + unit) \<times> Store" where
  "AppendOperationsForUser flt stamp d user ops s =
     AppendOperationBatch flt stamp d (map (\<lambda>op. \<lparr>writeUser = user, writeOp = op\<rparr>) ops) s"

section \<open>Snapshots and loading\<close>

definition SaveSnapshot ::
  "db_faults \<Rightarrow> string \<Rightarrow> int \<Rightarrow> crdt_char list \<Rightarrow> int \<Rightarrow> Store \<Rightarrow> (store_error + unit) \<times> Store" where
  "SaveSnapshot flt stamp d cs version s =
     (if \<not> writeDB s then (Inl StoreNotOpen, s)
      else if version < 0 then (Inl NegativeSnapshotVersion, s)
      else case dbCall flt (DbExec 0) ''save snapshot'' of
          Inl e \<Rightarrow> (Inl e, s)
        | Inr _ \<Rightarrow>
            let (rows, t) = updateDocuments d
                  (\<lambda>r. r\<lparr>docSnapshot := Some (marshalChars cs), docVersion := version, docUpdated := stamp\<rparr>) (tables s);
                s' = s\<lparr>tables := t\<rparr>
            in case dbCall flt DbRowsAffected ''check snapshot update'' of
                Inl e \<Rightarrow> (Inl e, s')
              | Inr _ \<Rightarrow> if rows \<noteq> 1 then (Inl (DocumentIDNotFound d), s') else (Inr (), s'))"

record OperationRecord =
  recSequence :: int
  recUser :: int
  recSite :: string
  recOp :: Operation

record LoadedDocument = StoredDocument +
  loadedOperations :: "OperationRecord list"

text \<open>The type column fills in a missing type of a payload.\<close>

definition withType :: "string \<Rightarrow> Operation \<Rightarrow> Operation" where
  "withType kind op = (if opType op = '''' then op\<lparr>opType := kind\<rparr> else op)"

fun scanRecords :: "db_faults \<Rightarrow> nat \<Rightarrow> op_row list \<Rightarrow> store_error + OperationRecord list" where
  "scanRecords flt i [] = andThen (dbCall flt DbRowsErr ''read operations'') (\<lambda>_. Inr [])"
| "scanRecords flt i (r # rs) =
     andThen (dbCall flt (DbScan i) ''scan operation'') (\<lambda>_.
       case unmarshalOperation (opPayload r) of
         None \<Rightarrow> Inl (DecodeOperationFailed (opSequence r))
       | Some op \<Rightarrow>
           andThen (scanRecords flt (Suc i) rs) (\<lambda>recs.
             Inr (\<lparr>recSequence = opSequence r, recUser = opUser r, recSite = opSite r,
                   recOp = withType (opKind r) op\<rparr> # recs)))"

text \<open>The column \<open>snapshot\<close>, whose empty text stands for no characters.\<close>

definition decodeSnapshot :: "string \<Rightarrow> json option \<Rightarrow> store_error + crdt_char list" where
  "decodeSnapshot prefix col =
     (case col of
        None \<Rightarrow> Inr []
      | Some j \<Rightarrow> (case unmarshalChars j of None \<Rightarrow> Inl (DecodeFailed prefix) | Some cs \<Rightarrow> Inr cs))"

definition LoadDocument :: "db_faults \<Rightarrow> string \<Rightarrow> Store \<Rightarrow> store_error + LoadedDocument" where
  "LoadDocument flt slug s =
     (if \<not> readDB s then Inl StoreNotOpen
      else andThen (dbCall flt (DbQueryRow 0) ''load document'') (\<lambda>_.
        case documentBySlug (tables s) slug of
          None \<Rightarrow> Inl (SlugNotFound slug)
        | Some r \<Rightarrow>
            andThen (decodeSnapshot ''decode snapshot'' (docSnapshot r)) (\<lambda>cs.
            andThen (dbCall flt DbQuery ''load operations'') (\<lambda>_.
            andThen (scanRecords flt 0
                (sort_key opSequence
                  (filter (\<lambda>o1. opSequence o1 > docVersion r) (documentOps (tables s) (docID r))))) (\<lambda>recs.
              Inr \<lparr>storedID = docID r, storedSlug = docSlug r,
                   storedTitle = (case docTitle r of None \<Rightarrow> '''' | Some x \<Rightarrow> x),
                   storedSnapshot = cs, storedVersion = docVersion r, loadedOperations = recs\<rparr>)))))"

section \<open>History\<close>

definition historyDocumentID :: "db_faults \<Rightarrow> string \<Rightarrow> Store \<Rightarrow> store_error + int" where
  "historyDocumentID flt slug s =
     andThen (dbCall flt (DbQueryRow 0) ''load history document'') (\<lambda>_.
       case documentBySlug (tables s) slug of None \<Rightarrow> Inl (SlugNotFound slug) | Some r \<Rightarrow> Inr (docID r))"

definition SnapshotBeforeSeq :: "db_faults \<Rightarrow> string \<Rightarrow> int \<Rightarrow> Store \<Rightarrow> store_error + crdt_char list \<times> int" where
  "SnapshotBeforeSeq flt slug seq0 s =
     (if \<not> readDB s then Inl StoreNotOpen
      else let seq = (if seq0 < 0 then 0 else seq0)
      in andThen (dbCall flt (DbQueryRow 0) ''load history snapshot'') (\<lambda>_.
         case documentBySlug (tables s) slug of
           None \<Rightarrow> Inl (SlugNotFound slug)
         | Some r \<Rightarrow>
             if docVersion r > seq \<or> docSnapshot r = None then Inr ([], 0)
             else andThen (decodeSnapshot ''decode history snapshot'' (docSnapshot r)) (\<lambda>cs. Inr (cs, docVersion r))))"

fun scanHistory :: "db_faults \<Rightarrow> nat \<Rightarrow> op_row list \<Rightarrow> store_error + Operation list" where
  "scanHistory flt i [] = andThen (dbCall flt DbRowsErr ''read history operations'') (\<lambda>_. Inr [])"
| "scanHistory flt i (r # rs) =
     andThen (dbCall flt (DbScan i) ''scan history operation'') (\<lambda>_.
       case unmarshalOperation (opPayload r) of
         None \<Rightarrow> Inl (DecodeFailed ''decode history operation'')
       | Some op \<Rightarrow> andThen (scanHistory flt (Suc i) rs) (\<lambda>ops. Inr (withType (opKind r) op # ops)))"

definition OperationsInRange :: "db_faults \<Rightarrow> string \<Rightarrow> int \<Rightarrow> int \<Rightarrow> Store \<Rightarrow> store_error + Operation list" where
  "OperationsInRange flt slug fromSeq0 toSeq s =
     (if \<not> readDB s then Inl StoreNotOpen
      else let fromSeq = (if fromSeq0 < 0 then 0 else fromSeq0)
      in if toSeq < fromSeq then Inr []
      else andThen (historyDocumentID flt slug s) (\<lambda>d.
           andThen (dbCall flt DbQuery ''load history operations'') (\<lambda>_.
             scanHistory flt 0
               (sort_key opSequence
                 (filter (\<lambda>o1. opSequence o1 > fromSeq \<and> opSequence o1 \<le> toSeq) (documentOps (tables s) d))))))"

text \<open>
  \<open>parseDatabaseTime\<close> tries three layouts; \<open>parse layout text\<close> stands for
  \<open>time.Parse\<close>, and \<^const>\<open>None\<close> is the zero time.
\<close>

definition timeLayouts :: "string list" where
  "timeLayouts = [''2006-01-02T15:04:05.999999999Z07:00'', ''2006-01-02 15:04:05.999999999-07:00'',
     ''2006-01-02 15:04:05'']"

definition parseDatabaseTime :: "(string \<Rightarrow> string \<Rightarrow> int option) \<Rightarrow> string \<Rightarrow> int option" where
  "parseDatabaseTime parse v0 =
     (let v = trimSpace v0
      in if v = '''' then None
         else case find (\<lambda>layout. parse layout v \<noteq> None) timeLayouts of
             None \<Rightarrow> None
           | Some layout \<Rightarrow> parse layout v)"

record HistoryBounds =
  MinSeq :: int
  MaxSeq :: int
  CreatedAt :: "int option"
  CurrentSeq :: int

definition HistoryBounds_of ::
  "(string \<Rightarrow> string \<Rightarrow> int option) \<Rightarrow> db_faults \<Rightarrow> string \<Rightarrow> Store \<Rightarrow> store_error + HistoryBounds" where
  "HistoryBounds_of parse flt slug s =
     (if \<not> readDB s then Inl StoreNotOpen
      else andThen (dbCall flt (DbQueryRow 0) ''load history bounds'') (\<lambda>_.
        case documentBySlug (tables s) slug of
          None \<Rightarrow> Inl (SlugNotFound slug)
        | Some r \<Rightarrow>
            andThen (dbCall flt (DbQueryRow 1) ''load history sequence'') (\<lambda>_.
              let maxSeq = (case maxSequence (tables s) (docID r) of
                    None \<Rightarrow> docVersion r
                  | Some m \<Rightarrow> if m > docVersion r then m else docVersion r)
              in Inr \<lparr>MinSeq = 0, MaxSeq = maxSeq, CreatedAt = parseDatabaseTime parse (docCreated r),
                      CurrentSeq = maxSeq\<rparr>)))"

definition OperationTimestamp ::
  "(string \<Rightarrow> string \<Rightarrow> int option) \<Rightarrow> db_faults \<Rightarrow> string \<Rightarrow> int \<Rightarrow> Store \<Rightarrow> store_error + int option" where
  "OperationTimestamp parse flt slug seq s =
     (if \<not> readDB s then Inl StoreNotOpen
      else andThen (historyDocumentID flt slug s) (\<lambda>d.
           andThen (dbCall flt (DbQueryRow 1) ''load operation timestamp'') (\<lambda>_.
             case find (\<lambda>r. opSequence r = seq) (documentOps (tables s) d) of
               None \<Rightarrow> Inl (SequenceNotFound seq)
             | Some r \<Rightarrow> Inr (parseDatabaseTime parse (opCreated r)))))"

end
