(* ===== verification/Writer.thy ===== *)
theory Writer
  imports Store Cache
begin

text \<open>
  \<open>internal/store/writer.go\<close>: the write-behind queue. The state holds the job channel,
  the fields behind \<open>snapshotMu\<close> and the local variables of the goroutine \<open>run\<close>;
  the executor is a record of the operations of the interfaces \<open>WriterExecutor\<close> and
  \<open>BatchOperationExecutor\<close> on a state of its own. Calls to the observers, answers to
  barriers, snapshots saved and errors of writes are recorded in the order they happen. The timer may fire at any moment, so only
  whether it is armed is state; elapsed times are not modelled.
\<close>

section \<open>Data\<close>

datatype writerJobKind = writerOperations | writerSnapshotSignal | writerFlush | writerClose

record writerJob =
  jobKind :: writerJobKind
  jobDocument :: int
  jobUser :: int
  jobOps :: "Operation list"
  jobResponse :: "nat option"

record snapshotJob =
  snapDocument :: int
  snapChars :: "crdt_char list"
  snapVersion :: int

record queuedOperation =
  queuedUser :: int
  queuedOp :: Operation

record ('x, 'e) WriterExecutor =
  exBatch :: "(int \<Rightarrow> OperationWrite list \<Rightarrow> 'x \<Rightarrow> 'e option \<times> 'x) option"
  exAppend :: "int \<Rightarrow> Operation list \<Rightarrow> 'x \<Rightarrow> 'e option \<times> 'x"
  exSave :: "int \<Rightarrow> crdt_char list \<Rightarrow> int \<Rightarrow> 'x \<Rightarrow> 'e option \<times> 'x"

record WriterConfig =
  QueueSize :: int
  OperationBatchSize :: int
  OperationFlushDelay :: duration
  hasObserver :: bool

definition DefaultWriterQueueSize :: int where "DefaultWriterQueueSize = 1024"
definition DefaultOperationBatchSize :: int where "DefaultOperationBatchSize = 100"
definition DefaultOperationFlushDelay :: duration where "DefaultOperationFlushDelay = 250000000"
definition DefaultSnapshotOpThreshold :: int where "DefaultSnapshotOpThreshold = 1000"
definition DefaultSnapshotInterval :: duration where "DefaultSnapshotInterval = 30 * second"

definition defaultWriterConfig :: WriterConfig where
  "defaultWriterConfig =
     \<lparr>QueueSize = DefaultWriterQueueSize, OperationBatchSize = DefaultOperationBatchSize,
      OperationFlushDelay = DefaultOperationFlushDelay, hasObserver = False\<rparr>"

text \<open>Calls of \<open>WriterObserver\<close> and of \<open>SnapshotObserver\<close>.\<close>

datatype observer_call = SetWriteQueueDepth nat | IncWriteQueueDropped | ObserveWriteBatch nat

record snapshot_call =
  savedDocument :: int
  savedTombs :: "CharID list"
  savedVersion :: int

text \<open>How a barrier ends for its caller.\<close>

datatype barrier_error = BarrierClosed | BarrierCancelled

datatype 'e barrier_result = BarrierOk | BarrierFailed barrier_error | BarrierErrors "'e list"

record ('x, 'e) Writer =
  executor :: 'x
  config :: WriterConfig
  jobs :: "writerJob list"
  doneWriter :: bool
  pendingSnapshot :: "(int \<times> snapshotJob) list"
  snapshotQueued :: bool
  writerClosed :: bool
  snapshotObserver :: bool
  previousSnapshotTombs :: "(int \<times> CharID list) list"
  timerActive :: bool
  pendingOps :: "(int \<times> queuedOperation list) list"
  pendingCount :: int
  observed :: "observer_call list"
  notified :: "snapshot_call list"
  savedSnapshots :: "snapshotJob list"
  responses :: "(nat \<times> 'e list) list"
  writeErrors :: "'e list"
  closeStarted :: bool
  closeErr :: "'e barrier_result"

definition NewWriterWithConfig :: "'x \<Rightarrow> bool \<Rightarrow> WriterConfig \<Rightarrow> ('x, 'e) Writer" where
  "NewWriterWithConfig x obs c =
     (let d = defaultWriterConfig
      in \<lparr>executor = x,
          config = c\<lparr>QueueSize := (if QueueSize c \<le> 0 then QueueSize d else QueueSize c),
                     OperationBatchSize := (if OperationBatchSize c \<le> 0 then OperationBatchSize d else OperationBatchSize c),
                     OperationFlushDelay := (if OperationFlushDelay c \<le> 0 then OperationFlushDelay d else OperationFlushDelay c)\<rparr>,
          jobs = [], doneWriter = False, pendingSnapshot = [], snapshotQueued = False, writerClosed = False,
          snapshotObserver = obs, previousSnapshotTombs = [], timerActive = False, pendingOps = [],
          pendingCount = 0, observed = [], notified = [], savedSnapshots = [], responses = [], writeErrors = [],
          closeStarted = False, closeErr = BarrierOk\<rparr>)"

definition NewWriter :: "'x \<Rightarrow> ('x, 'e) Writer" where
  "NewWriter x = NewWriterWithConfig x False
     \<lparr>QueueSize = 0, OperationBatchSize = 0, OperationFlushDelay = 0, hasObserver = False\<rparr>"

definition SetSnapshotObserver :: "bool \<Rightarrow> ('x, 'e) Writer option \<Rightarrow> ('x, 'e) Writer option" where
  "SetSnapshotObserver obs receiver = map_option (\<lambda>w. w\<lparr>snapshotObserver := obs\<rparr>) receiver"

section \<open>Producers\<close>

definition observeQueueDepth :: "('x, 'e) Writer \<Rightarrow> ('x, 'e) Writer" where
  "observeQueueDepth w =
     (if hasObserver (config w) then w\<lparr>observed := observed w @ [SetWriteQueueDepth (length (jobs w))]\<rparr> else w)"

definition dropQueueItem :: "('x, 'e) Writer \<Rightarrow> ('x, 'e) Writer" where
  "dropQueueItem w =
     (if hasObserver (config w)
      then w\<lparr>observed := observed w @ [IncWriteQueueDropped, SetWriteQueueDepth (length (jobs w))]\<rparr> else w)"

definition queueFull :: "('x, 'e) Writer \<Rightarrow> bool" where
  "queueFull w \<longleftrightarrow> int (length (jobs w)) \<ge> QueueSize (config w)"

text \<open>
  \<open>EnqueueOps\<close>. Reading \<open>closed\<close> and sending are two steps of the code; a close in
  between leaves the job in the channel of a stopped writer, as a close right after does.
\<close>

definition EnqueueOps :: "int \<Rightarrow> int \<Rightarrow> Operation list \<Rightarrow> ('x, 'e) Writer option \<Rightarrow> bool \<times> ('x, 'e) Writer option" where
  "EnqueueOps d user ops receiver =
     (case receiver of
        None \<Rightarrow> (False, None)
      | Some w \<Rightarrow>
          if ops = [] then (True, Some w)
          else if writerClosed w then (False, Some w)
          else if queueFull w then (False, Some (dropQueueItem w))
          else (True, Some (observeQueueDepth (w\<lparr>jobs := jobs w @
            [\<lparr>jobKind = writerOperations, jobDocument = d, jobUser = user, jobOps = ops, jobResponse = None\<rparr>]\<rparr>))))"

definition cloneChars :: "crdt_char list \<Rightarrow> crdt_char list" where
  "cloneChars cs = map (\<lambda>c. c\<lparr>LeftID := (case LeftID c of None \<Rightarrow> None | Some l \<Rightarrow> Some l),
                            RightID := (case RightID c of None \<Rightarrow> None | Some r \<Rightarrow> Some r)\<rparr>) cs"

lemma cloneChars_id [simp]: "cloneChars cs = cs"
proof -
  have "(case p of None \<Rightarrow> None | Some l \<Rightarrow> Some l) = p" for p :: "CharID option" by (cases p) auto
  then show ?thesis by (simp add: cloneChars_def)
qed

text \<open>
  \<open>EnqueueSnapshot\<close> in its two critical sections: the pending snapshot is replaced and it is
  decided whether to send a signal; then the signal is sent or, on a full queue, the flag is
  cleared again.
\<close>

definition registerSnapshot :: "int \<Rightarrow> crdt_char list \<Rightarrow> int \<Rightarrow> ('x, 'e) Writer \<Rightarrow> bool \<times> ('x, 'e) Writer" where
  "registerSnapshot d cs v w =
     (\<not> snapshotQueued w,
      w\<lparr>pendingSnapshot := AList.update d \<lparr>snapDocument = d, snapChars = cloneChars cs, snapVersion = v\<rparr> (pendingSnapshot w),
        snapshotQueued := True\<rparr>)"

definition signalJob :: writerJob where
  "signalJob = \<lparr>jobKind = writerSnapshotSignal, jobDocument = 0, jobUser = 0, jobOps = [], jobResponse = None\<rparr>"

definition sendSignal :: "('x, 'e) Writer \<Rightarrow> bool \<times> ('x, 'e) Writer" where
  "sendSignal w =
     (if queueFull w then (False, dropQueueItem (w\<lparr>snapshotQueued := False\<rparr>))
      else (True, observeQueueDepth (w\<lparr>jobs := jobs w @ [signalJob]\<rparr>)))"

definition EnqueueSnapshot ::
  "int \<Rightarrow> crdt_char list \<Rightarrow> int \<Rightarrow> ('x, 'e) Writer option \<Rightarrow> bool \<times> ('x, 'e) Writer option" where
  "EnqueueSnapshot d cs v receiver =
     (case receiver of
        None \<Rightarrow> (False, None)
      | Some w \<Rightarrow>
          if writerClosed w then (False, Some w)
          else let (shouldQueue, w1) = registerSnapshot d cs v w
               in if \<not> shouldQueue then (True, Some w1)
                  else let (ok, w2) = sendSignal w1 in (ok, Some w2))"

text \<open>
  \<open>enqueueBarrier\<close> waits for room in the queue, for the end of the goroutine or for its
  context; \<open>cancelled\<close> says that the \<open>select\<close> takes the branch of the context.
  \<^const>\<open>None\<close> means that the call still waits.
\<close>

definition enqueueBarrier ::
  "bool \<Rightarrow> writerJob \<Rightarrow> ('x, 'e) Writer \<Rightarrow> ((barrier_error + unit) \<times> ('x, 'e) Writer) option" where
  "enqueueBarrier cancelled job w =
     (if writerClosed w then Some (Inl BarrierClosed, w)
      else if cancelled then Some (Inl BarrierCancelled, w)
      else if \<not> queueFull w then Some (Inr (), observeQueueDepth (w\<lparr>jobs := jobs w @ [job]\<rparr>))
      else if doneWriter w then Some (Inl BarrierClosed, w)
      else None)"

definition flushJob :: "nat \<Rightarrow> writerJob" where
  "flushJob k = \<lparr>jobKind = writerFlush, jobDocument = 0, jobUser = 0, jobOps = [], jobResponse = Some k\<rparr>"

definition closeJob :: "nat \<Rightarrow> writerJob" where
  "closeJob k = \<lparr>jobKind = writerClose, jobDocument = 0, jobUser = 0, jobOps = [], jobResponse = Some k\<rparr>"

text \<open>Waiting for the answer to barrier \<open>k\<close>: \<^const>\<open>None\<close> while there is none.\<close>

definition awaitBarrier :: "bool \<Rightarrow> nat \<Rightarrow> ('x, 'e) Writer \<Rightarrow> 'e barrier_result option" where
  "awaitBarrier cancelled k w =
     (if cancelled then Some (BarrierFailed BarrierCancelled)
      else case map_of (responses w) k of
          Some errs \<Rightarrow> Some (if errs = [] then BarrierOk else BarrierErrors errs)
        | None \<Rightarrow> None)"

text \<open>
  \<open>Flush\<close> and \<open>Close\<close>: \<open>progress\<close> stands for what the goroutine and the
  other callers do while the call waits; the two flags say whether the context ends the wait for
  the queue and the wait for the answer.
\<close>

definition Writer_Flush ::
  "(('x, 'e) Writer \<Rightarrow> ('x, 'e) Writer) \<Rightarrow> bool \<Rightarrow> bool \<Rightarrow> nat \<Rightarrow> ('x, 'e) Writer option
   \<Rightarrow> ('e barrier_result \<times> ('x, 'e) Writer option) option" where
  "Writer_Flush progress cancelled1 cancelled2 k receiver =
     (case receiver of
        None \<Rightarrow> Some (BarrierOk, None)
      | Some w \<Rightarrow>
          (case enqueueBarrier cancelled1 (flushJob k) w of
             None \<Rightarrow> None
           | Some (Inl e, w1) \<Rightarrow> Some (BarrierFailed e, Some w1)
           | Some (Inr _, w1) \<Rightarrow>
               map_option (\<lambda>r. (r, Some (progress w1))) (awaitBarrier cancelled2 k (progress w1))))"

definition Writer_Close ::
  "(('x, 'e) Writer \<Rightarrow> ('x, 'e) Writer) \<Rightarrow> bool \<Rightarrow> bool \<Rightarrow> nat \<Rightarrow> ('x, 'e) Writer option
   \<Rightarrow> ('e barrier_result \<times> ('x, 'e) Writer option) option" where
  "Writer_Close progress cancelled1 cancelled2 k receiver =
     (case receiver of
        None \<Rightarrow> Some (BarrierOk, None)
      | Some w \<Rightarrow>
          if closeStarted w then Some (closeErr w, Some w)
          else
            (case enqueueBarrier cancelled1 (closeJob k) (w\<lparr>closeStarted := True\<rparr>) of
               None \<Rightarrow> None
             | Some (Inl e, w1) \<Rightarrow> Some (BarrierFailed e, Some (w1\<lparr>closeErr := BarrierFailed e\<rparr>))
             | Some (Inr _, w1) \<Rightarrow>
                 map_option (\<lambda>r. (r, Some ((progress w1)\<lparr>closeErr := r\<rparr>))) (awaitBarrier cancelled2 k (progress w1))))"

section \<open>The goroutine\<close>

text \<open>Executors without a batch operation get runs of operations of one user.\<close>

fun sameUserRun :: "int \<Rightarrow> OperationWrite list \<Rightarrow> OperationWrite list \<times> OperationWrite list" where
  "sameUserRun u [] = ([], [])"
| "sameUserRun u (w # ws) =
     (if writeUser w = u then (case sameUserRun u ws of (run, rest) \<Rightarrow> (w # run, rest)) else ([], w # ws))"

lemma sameUserRun_append: "sameUserRun u ws = (run, rest) \<Longrightarrow> ws = run @ rest"
  by (induction ws arbitrary: run) (auto split: if_splits prod.splits)

lemma sameUserRun_length: "length (snd (sameUserRun u ws)) \<le> length ws"
  using sameUserRun_append [of u ws] by (cases "sameUserRun u ws") auto

function appendFallbackBatch ::
  "('x, 'e) WriterExecutor \<Rightarrow> int \<Rightarrow> OperationWrite list \<Rightarrow> 'x \<Rightarrow> 'e option \<times> 'x" where
  "appendFallbackBatch ex d [] x = (None, x)"
| "appendFallbackBatch ex d (w # ws) x =
     (let (run, rest) = sameUserRun (writeUser w) ws
      in case exAppend ex d (map writeOp (w # run)) x of
           (Some e, x') \<Rightarrow> (Some e, x')
         | (None, x') \<Rightarrow> appendFallbackBatch ex d rest x')"
  by pat_completeness auto
termination
  by (relation "measure (\<lambda>(ex, d, ws, x). length ws)")
    (auto simp: le_imp_less_Suc dest!: sym [of "(_, _)" "sameUserRun _ _"] sameUserRun_append)

definition writeBatch ::
  "('x, 'e) WriterExecutor \<Rightarrow> int \<Rightarrow> OperationWrite list \<Rightarrow> 'x \<Rightarrow> 'e option \<times> 'x" where
  "writeBatch ex d ws x =
     (case exBatch ex of Some f \<Rightarrow> f d ws x | None \<Rightarrow> appendFallbackBatch ex d ws x)"

fun flushBatches ::
  "('x, 'e) WriterExecutor \<Rightarrow> (int \<times> queuedOperation list) list \<Rightarrow> 'e option \<Rightarrow> 'x \<Rightarrow> 'e option \<times> 'x" where
  "flushBatches ex [] firstErr x = (firstErr, x)"
| "flushBatches ex ((d, qs) # bs) firstErr x =
     (case writeBatch ex d (map (\<lambda>q. \<lparr>writeUser = queuedUser q, writeOp = queuedOp q\<rparr>) qs) x of
        (err, x') \<Rightarrow> flushBatches ex bs (if firstErr = None then err else firstErr) x')"

definition optList :: "'a option \<Rightarrow> 'a list" where
  "optList o1 = (case o1 of None \<Rightarrow> [] | Some a \<Rightarrow> [a])"

text \<open>The closure \<open>flush\<close>; its error is also kept in \<open>writeErrors\<close>.\<close>

definition flush :: "('x, 'e) WriterExecutor \<Rightarrow> ('x, 'e) Writer \<Rightarrow> 'e option \<times> ('x, 'e) Writer" where
  "flush ex w =
     (if pendingCount w = 0 then (None, w)
      else
        let (err, x) = flushBatches ex (pendingOps w) None (executor w);
            w1 = w\<lparr>executor := x, pendingOps := [], pendingCount := 0, writeErrors := writeErrors w @ optList err\<rparr>;
            w2 = (if err = None \<and> hasObserver (config w)
                  then w1\<lparr>observed := observed w1 @ [ObserveWriteBatch (nat (pendingCount w))]\<rparr> else w1)
        in (err, w2))"

definition takeSnapshots :: "('x, 'e) Writer \<Rightarrow> snapshotJob list \<times> ('x, 'e) Writer" where
  "takeSnapshots w =
     (map (\<lambda>(d, s). if snapDocument s = 0 then s\<lparr>snapDocument := d\<rparr> else s) (pendingSnapshot w),
      w\<lparr>snapshotQueued := False, pendingSnapshot := []\<rparr>)"

definition tombstoneIDs :: "crdt_char list \<Rightarrow> CharID list" where
  "tombstoneIDs cs = map ID (filter Deleted cs)"

definition tombsOf :: "(int \<times> CharID list) list \<Rightarrow> int \<Rightarrow> CharID list" where
  "tombsOf m d = (case map_of m d of None \<Rightarrow> [] | Some ids \<Rightarrow> ids)"

text \<open>One iteration of the loop of \<open>flushSnapshots\<close>, and the loop.\<close>

definition saveSnapshotJob :: "('x, 'e) WriterExecutor \<Rightarrow> snapshotJob \<Rightarrow> ('x, 'e) Writer \<Rightarrow> 'e option \<times> ('x, 'e) Writer" where
  "saveSnapshotJob ex s w =
     (case exSave ex (snapDocument s) (snapChars s) (snapVersion s) (executor w) of
        (Some e, x) \<Rightarrow> (Some e, w\<lparr>executor := x\<rparr>)
      | (None, x) \<Rightarrow>
          let previous = tombsOf (previousSnapshotTombs w) (snapDocument s);
              w1 = w\<lparr>executor := x,
                     previousSnapshotTombs := AList.update (snapDocument s) (tombstoneIDs (snapChars s)) (previousSnapshotTombs w),
                     savedSnapshots := savedSnapshots w @ [s]\<rparr>
          in (None,
              if previous = [] \<or> \<not> snapshotObserver w then w1
              else w1\<lparr>notified := notified w1 @
                [\<lparr>savedDocument = snapDocument s, savedTombs = previous, savedVersion = snapVersion s\<rparr>]\<rparr>))"

fun saveSnapshotJobs ::
  "('x, 'e) WriterExecutor \<Rightarrow> snapshotJob list \<Rightarrow> 'e option \<Rightarrow> ('x, 'e) Writer \<Rightarrow> 'e option \<times> ('x, 'e) Writer" where
  "saveSnapshotJobs ex [] firstErr w = (firstErr, w)"
| "saveSnapshotJobs ex (s # ss) firstErr w =
     (case saveSnapshotJob ex s w of
        (err, w') \<Rightarrow> saveSnapshotJobs ex ss (if firstErr = None then err else firstErr) w')"

definition flushSnapshots :: "('x, 'e) WriterExecutor \<Rightarrow> ('x, 'e) Writer \<Rightarrow> 'e option \<times> ('x, 'e) Writer" where
  "flushSnapshots ex w =
     (case takeSnapshots w of
        (ss, w1) \<Rightarrow>
          (case saveSnapshotJobs ex ss None w1 of
             (err, w2) \<Rightarrow> (err, w2\<lparr>writeErrors := writeErrors w2 @ optList err\<rparr>)))"

definition addPending :: "int \<Rightarrow> int \<Rightarrow> Operation list \<Rightarrow> ('x, 'e) Writer \<Rightarrow> ('x, 'e) Writer" where
  "addPending d user ops w =
     fold (\<lambda>op w. w\<lparr>pendingOps := AList.update d
             ((case map_of (pendingOps w) d of None \<Rightarrow> [] | Some qs \<Rightarrow> qs) @ [\<lparr>queuedUser = user, queuedOp = op\<rparr>]) (pendingOps w),
             pendingCount := pendingCount w + 1\<rparr>) ops w"

definition respond :: "nat option \<Rightarrow> 'e list \<Rightarrow> ('x, 'e) Writer \<Rightarrow> ('x, 'e) Writer" where
  "respond r errs w = (case r of None \<Rightarrow> w | Some k \<Rightarrow> w\<lparr>responses := responses w @ [(k, errs)]\<rparr>)"

text \<open>\<open>errors.Join(flush(), flushSnapshots())\<close> with the timer stopped.\<close>

definition flushAll :: "('x, 'e) WriterExecutor \<Rightarrow> ('x, 'e) Writer \<Rightarrow> 'e list \<times> ('x, 'e) Writer" where
  "flushAll ex w =
     (let (e1, w1) = flush ex (w\<lparr>timerActive := False\<rparr>); (e2, w2) = flushSnapshots ex w1
      in (optList e1 @ optList e2, w2))"

text \<open>The branch of the loop that received a job.\<close>

definition handleJob :: "('x, 'e) WriterExecutor \<Rightarrow> writerJob \<Rightarrow> ('x, 'e) Writer \<Rightarrow> ('x, 'e) Writer" where
  "handleJob ex job w0 =
     (let w = observeQueueDepth w0
      in case jobKind job of
        writerOperations \<Rightarrow>
          let w1 = (addPending (jobDocument job) (jobUser job) (jobOps job) w)\<lparr>timerActive := True\<rparr>
          in if pendingCount w1 \<ge> OperationBatchSize (config w1)
             then snd (flush ex (w1\<lparr>timerActive := False\<rparr>)) else w1
      | writerSnapshotSignal \<Rightarrow> (case flushAll ex w of (errs, w1) \<Rightarrow> respond (jobResponse job) errs w1)
      | writerFlush \<Rightarrow> (case flushAll ex w of (errs, w1) \<Rightarrow> respond (jobResponse job) errs w1)
      | writerClose \<Rightarrow>
          (case flushAll ex w of
             (errs, w1) \<Rightarrow> (respond (jobResponse job) errs (w1\<lparr>writerClosed := True\<rparr>))\<lparr>doneWriter := True\<rparr>))"

definition timerFired :: "('x, 'e) WriterExecutor \<Rightarrow> ('x, 'e) Writer \<Rightarrow> ('x, 'e) Writer" where
  "timerFired ex w = snd (flush ex (w\<lparr>timerActive := False\<rparr>))"

text \<open>One iteration of the loop of \<open>run\<close>.\<close>

definition receiveJob :: "('x, 'e) WriterExecutor \<Rightarrow> ('x, 'e) Writer \<Rightarrow> ('x, 'e) Writer option" where
  "receiveJob ex w =
     (if doneWriter w then None
      else case jobs w of [] \<Rightarrow> None | job # rest \<Rightarrow> Some (handleJob ex job (w\<lparr>jobs := rest\<rparr>)))"

end
