(* ===== verification/Store_Log.thy ===== *)
theory Store_Log
  imports Store
begin

text \<open>
  The log of a document in the database: the invariant of the tables (identities and slugs are
  unique, sequence numbers of a document count from one without gaps, payloads decode), and the
  effect of every statement and operation on the logs.
\<close>

section \<open>The invariant of the tables\<close>

definition wfOpRow :: "database \<Rightarrow> op_row \<Rightarrow> bool" where
  "wfOpRow t r \<longleftrightarrow> (opKind r = Insert \<or> opKind r = Delete)
     \<and> opDocument r \<in> docID ` set (documents t) \<and> opUser r \<in> userID ` set (users t)
     \<and> (\<exists>op. opPayload r = marshalOperation op \<and> opType op = opKind r \<and> opSite r = SiteID (opID op))"

definition wfTables :: "database \<Rightarrow> bool" where
  "wfTables t \<longleftrightarrow>
     distinct (map docID (documents t)) \<and> distinct (map docSlug (documents t))
   \<and> (\<forall>r \<in> set (documents t). docID r \<le> lastDocument t)
   \<and> distinct (map userID (users t)) \<and> distinct (map (lowerString \<circ> userName) (users t))
   \<and> (\<forall>u \<in> set (users t). userID u \<le> lastUser t) \<and> systemUserID \<in> userID ` set (users t)
   \<and> (\<forall>r \<in> set (operations t). wfOpRow t r)
   \<and> (\<forall>d. map opSequence (documentOps t d) = map int [1..<Suc (length (documentOps t d))])"

lemma wfTables_initial: "wfTables initialTables"
  by (simp add: wfTables_def initialTables_def systemUserID_def documentOps_def)

lemma wf_seq: "wfTables t \<Longrightarrow> map opSequence (documentOps t d) = map int [1..<Suc (length (documentOps t d))]"
  by (simp add: wfTables_def)

text \<open>The log of a document: who wrote which operation, in sequence order.\<close>

definition rowOp :: "op_row \<Rightarrow> Operation" where
  "rowOp r = the (unmarshalOperation (opPayload r))"

definition documentLog :: "database \<Rightarrow> int \<Rightarrow> (int \<times> Operation) list" where
  "documentLog t d = map (\<lambda>r. (opUser r, rowOp r)) (documentOps t d)"

lemma length_documentLog [simp]: "length (documentLog t d) = length (documentOps t d)"
  by (simp add: documentLog_def)

lemma fold_max_last: "fold max (map int [a..<b]) (int m) = (if a < b then max (int m) (int (b - 1)) else int m)"
proof (induction b)
  case (Suc b)
  then show ?case by (auto simp: upt_Suc)
qed simp

lemma maxSequence_length:
  assumes "wfTables t"
  shows "maxSequence t d = (if documentOps t d = [] then None else Some (int (length (documentOps t d))))"
proof (cases "documentOps t d")
  case (Cons r rs)
  then have "map opSequence (documentOps t d) = map int (1 # [2..<Suc (Suc (length rs))])"
    using wf_seq [OF assms, of d] upt_conv_Cons [of 1 "Suc (Suc (length rs))"]
    by (simp add: numeral_2_eq_2 del: upt.simps)
  then show ?thesis
    using Cons fold_max_last [of 2 "Suc (Suc (length rs))" 1] by (auto simp: maxSequence_def)
qed (simp add: maxSequence_def)

section \<open>Appending a batch\<close>

definition writer_of :: "OperationWrite \<Rightarrow> int" where
  "writer_of w = (if writeUser w \<le> 0 then systemUserID else writeUser w)"

fun rowsOf :: "string \<Rightarrow> int \<Rightarrow> int \<Rightarrow> OperationWrite list \<Rightarrow> op_row list" where
  "rowsOf stamp d sequence [] = []"
| "rowsOf stamp d sequence (w # ws) =
     \<lparr>opDocument = d, opSequence = sequence + 1, opUser = writer_of w, opSite = SiteID (opID (writeOp w)),
      opKind = opType (writeOp w), opPayload = marshalOperation (writeOp w), opCreated = stamp\<rparr>
     # rowsOf stamp d (sequence + 1) ws"

definition insertable :: "database \<Rightarrow> int \<Rightarrow> OperationWrite \<Rightarrow> bool" where
  "insertable t d w \<longleftrightarrow> (opType (writeOp w) = Insert \<or> opType (writeOp w) = Delete)
     \<and> d \<in> docID ` set (documents t) \<and> writer_of w \<in> userID ` set (users t)"

lemma length_rowsOf [simp]: "length (rowsOf stamp d n ws) = length ws"
  by (induction ws arbitrary: n) simp_all

lemma rowsOf_document: "r \<in> set (rowsOf stamp d n ws) \<Longrightarrow> opDocument r = d"
  by (induction ws arbitrary: n) auto

lemma rowsOf_sequence: "map opSequence (rowsOf stamp d (int n) ws) = map int [Suc n..<Suc n + length ws]"
proof (induction ws arbitrary: n)
  case (Cons w ws)
  show ?case
    using Cons.IH [of "Suc n"] upt_conv_Cons [of "Suc n" "Suc n + length (w # ws)"]
    by (simp add: add.commute del: upt.simps)
qed simp

lemma rowsOf_log:
  "map (\<lambda>r. (opUser r, rowOp r)) (rowsOf stamp d n ws) = map (\<lambda>w. (writer_of w, writeOp w)) ws"
  by (induction ws arbitrary: n) (simp_all add: rowOp_def unmarshal_marshalOperation)

lemma rowsOf_wf:
  "(\<forall>w \<in> set ws. insertable t d w) \<Longrightarrow> r \<in> set (rowsOf stamp d n ws) \<Longrightarrow> wfOpRow t r"
  by (induction ws arbitrary: n) (auto simp: wfOpRow_def insertable_def)

text \<open>What a successful loop of insertions did, and when it succeeds.\<close>

lemma insertWrites_Inr:
  "insertWrites flt stamp d ws i n t = Inr t' \<Longrightarrow>
   t' = t\<lparr>operations := operations t @ rowsOf stamp d n ws\<rparr> \<and> (\<forall>w \<in> set ws. insertable t d w)"
proof (induction ws arbitrary: i n t)
  case (Cons w ws)
  then obtain t1 where t1: "insertWrites flt stamp d ws (Suc i) (n + 1) t1 = Inr t'"
      "insertOperationRow (hd (rowsOf stamp d n [w])) t = Inr t1" "opType (writeOp w) = Insert \<or> opType (writeOp w) = Delete"
    by (auto simp: Let_def writer_of_def split: if_splits sum.splits option.splits)
  have "t1 = t\<lparr>operations := operations t @ rowsOf stamp d n [w]\<rparr>" "insertable t d w"
    using t1(2,3) by (auto simp: insertOperationRow_def insertable_def split: if_splits)
  then show ?case using Cons.IH [OF t1(1)] by (auto simp: insertable_def)
qed simp

lemma insertWrites_ok:
  assumes "\<forall>w \<in> set ws. insertable t d w" "\<forall>i. flt (DbExec i) = None"
    and "\<forall>r \<in> set (documentOps t d). opSequence r \<le> n"
  shows "insertWrites flt stamp d ws i n t = Inr (t\<lparr>operations := operations t @ rowsOf stamp d n ws\<rparr>)"
  using assms
proof (induction ws arbitrary: i n t)
  case (Cons w ws)
  let ?row = "hd (rowsOf stamp d n [w])"
  let ?t = "t\<lparr>operations := operations t @ [?row]\<rparr>"
  have "opType (writeOp w) = ''insert'' \<or> opType (writeOp w) = ''delete''"
    using Cons.prems(1) by (simp add: insertable_def Insert_def Delete_def)
  moreover have "\<not> (\<exists>q \<in> set (operations t). opDocument q = d \<and> opSequence q = n + 1)"
    using Cons.prems(3) by (auto simp: documentOps_def)
  ultimately have "insertOperationRow ?row t = Inr ?t"
    using Cons.prems(1) by (auto simp: insertOperationRow_def insertable_def)
  moreover have "insertWrites flt stamp d ws (Suc i) (n + 1) ?t =
      Inr (?t\<lparr>operations := operations ?t @ rowsOf stamp d (n + 1) ws\<rparr>)"
    using Cons.prems by (intro Cons.IH) (auto simp: insertable_def documentOps_def)
  ultimately show ?case
    using Cons.prems(1,2) by (auto simp: Let_def writer_of_def insertable_def)
qed simp

section \<open>Updating documents\<close>

lemma updateDocuments_simps [simp]:
  "users (snd (updateDocuments d f t)) = users t" "operations (snd (updateDocuments d f t)) = operations t"
  "lastUser (snd (updateDocuments d f t)) = lastUser t"
  "lastDocument (snd (updateDocuments d f t)) = lastDocument t"
  "documentOps (snd (updateDocuments d f t)) d' = documentOps t d'"
  "documentLog (snd (updateDocuments d f t)) d' = documentLog t d'"
  by (simp_all add: updateDocuments_def documentOps_def documentLog_def)

lemma updateDocuments_ids:
  assumes "\<And>r. docID (f r) = docID r"
  shows "map docID (documents (snd (updateDocuments d f t))) = map docID (documents t)"
  by (simp add: updateDocuments_def assms)

lemma updateDocuments_wf:
  assumes f: "\<And>r. docID (f r) = docID r" "\<And>r. docSlug (f r) = docSlug r" and wf: "wfTables t"
  shows "wfTables (snd (updateDocuments d f t))"
proof -
  let ?t = "snd (updateDocuments d f t)"
  note ids = updateDocuments_ids [OF f(1), of d t]
  have slugs: "map docSlug (documents ?t) = map docSlug (documents t)"
    by (simp add: updateDocuments_def f)
  have sets: "docID ` set (documents ?t) = docID ` set (documents t)"
    using ids by (metis list.set_map)
  have "\<forall>r \<in> set (documents ?t). docID r \<le> lastDocument t"
    using wf by (auto simp: updateDocuments_def wfTables_def f)
  then show ?thesis
    using wf sets by (simp add: wfTables_def ids slugs wfOpRow_def)
qed

lemma updateDocuments_rows:
  assumes "distinct (map docID (documents t))"
  shows "fst (updateDocuments d f t) = (if d \<in> docID ` set (documents t) then 1 else 0)"
proof -
  have "length (filter (\<lambda>r. docID r = d) rs) = (if d \<in> docID ` set rs then 1 else 0)"
    if "distinct (map docID rs)" for rs :: "doc_row list"
    using that by (induction rs) (auto simp: filter_empty_conv)
  then show ?thesis using assms by (simp add: updateDocuments_def)
qed

lemma find_map_slug:
  assumes "\<And>r. docSlug (g r) = docSlug r"
  shows "find (\<lambda>r. docSlug r = slug) (map g rs) = map_option g (find (\<lambda>r. docSlug r = slug) rs)"
  by (induction rs) (simp_all add: assms)

lemma documentBySlug_update:
  assumes "\<And>r. docSlug (f r) = docSlug r"
  shows "documentBySlug (snd (updateDocuments d f t)) slug =
     map_option (\<lambda>r. if docID r = d then f r else r) (documentBySlug t slug)"
  unfolding documentBySlug_def updateDocuments_def
  by (simp add: find_map_slug assms)

section \<open>The effect of a batch\<close>

definition appended :: "string \<Rightarrow> int \<Rightarrow> OperationWrite list \<Rightarrow> database \<Rightarrow> database" where
  "appended stamp d ws t =
     snd (updateDocuments d (\<lambda>r. r\<lparr>docUpdated := stamp\<rparr>)
       (t\<lparr>operations := operations t @ rowsOf stamp d (int (length (documentOps t d))) ws\<rparr>))"

lemma documentOps_appended:
  "documentOps (appended stamp d ws t) d' =
     documentOps t d' @ (if d' = d then rowsOf stamp d (int (length (documentOps t d))) ws else [])"
  by (auto simp: appended_def documentOps_def filter_empty_conv dest: rowsOf_document
      intro!: filter_True)

lemma documentLog_appended:
  "documentLog (appended stamp d ws t) d' =
     documentLog t d' @ (if d' = d then map (\<lambda>w. (writer_of w, writeOp w)) ws else [])"
  by (simp add: documentLog_def documentOps_appended rowsOf_log)

lemma appended_wf:
  assumes wf: "wfTables t" and ins: "\<forall>w \<in> set ws. insertable t d w"
  shows "wfTables (appended stamp d ws t)"
proof -
  let ?t = "t\<lparr>operations := operations t @ rowsOf stamp d (int (length (documentOps t d))) ws\<rparr>"
  have row: "wfOpRow ?t r \<longleftrightarrow> wfOpRow t r" for r by (simp add: wfOpRow_def)
  have seq: "map opSequence (documentOps ?t d') = map int [1..<Suc (length (documentOps ?t d'))]" for d'
  proof -
    have ops: "documentOps ?t d' = documentOps t d' @ (if d' = d then rowsOf stamp d (int (length (documentOps t d))) ws else [])"
      using documentOps_appended [of stamp d ws t d'] by (simp add: appended_def)
    have upt: "[1..<Suc (a + b)] = [1..<Suc a] @ [Suc a..<Suc a + b]" for a b
      using upt_add_eq_append [of 1 "Suc a" b] by simp
    show ?thesis
    proof (cases "d' = d")
      case True
      then show ?thesis
        using wf_seq [OF wf, of d] unfolding ops by (simp only: map_append length_append rowsOf_sequence upt simp_thms if_True length_rowsOf)
    next
      case False
      then show ?thesis using wf_seq [OF wf, of d'] unfolding ops by simp
    qed
  qed
  have "wfTables ?t"
    using wf seq rowsOf_wf [OF ins] unfolding wfTables_def row by auto
  then show ?thesis unfolding appended_def by (intro updateDocuments_wf) simp_all
qed

text \<open>A batch either commits as a whole or changes nothing.\<close>

lemma AppendOperationBatch_cases:
  assumes wf: "wfTables (tables s)"
  shows "(\<exists>e. AppendOperationBatch flt stamp d ws s = (Inl e, s))
    \<or> (AppendOperationBatch flt stamp d ws s = (Inr (), if ws = [] then s else s\<lparr>tables := appended stamp d ws (tables s)\<rparr>)
       \<and> (\<forall>w \<in> set ws. insertable (tables s) d w))"
proof (cases "ws = [] \<or> \<not> writeDB s")
  case False
  let ?n = "case maxSequence (tables s) d of None \<Rightarrow> 0 | Some m \<Rightarrow> m"
  have n: "?n = int (length (documentOps (tables s) d))" using maxSequence_length [OF wf] by simp
  show ?thesis
  proof (cases "snd (AppendOperationBatch flt stamp d ws s) = s \<and> (\<exists>e. fst (AppendOperationBatch flt stamp d ws s) = Inl e)")
    case True
    then show ?thesis by (metis prod.collapse)
  next
    case nofail: False
    then obtain t1 t2 where t1: "insertWrites flt stamp d ws 0 ?n (tables s) = Inr t1"
        "touchDocument flt stamp (length ws) d t1 = Inr t2"
        "AppendOperationBatch flt stamp d ws s = (Inr (), s\<lparr>tables := t2\<rparr>)"
      using False by (auto simp: AppendOperationBatch_def Let_def andThen_def split: sum.splits)
    have "t2 = appended stamp d ws (tables s)"
      using insertWrites_Inr [OF t1(1)] t1(2)
      by (auto simp: touchDocument_def appended_def n updateDocuments_def andThen_def Let_def split: sum.splits if_splits)
    then show ?thesis using t1(3) insertWrites_Inr [OF t1(1)] False by simp
  qed
qed (auto simp: AppendOperationBatch_def)

lemma AppendOperationBatch_ok:
  assumes wf: "wfTables (tables s)" and "writeDB s" "\<forall>c. flt c = None" "\<forall>w \<in> set ws. insertable (tables s) d w"
  shows "fst (AppendOperationBatch flt stamp d ws s) = Inr ()"
proof (cases "ws = []")
  case False
  let ?t = "tables s" and ?n = "int (length (documentOps (tables s) d))"
  let ?t1 = "?t\<lparr>operations := operations ?t @ rowsOf stamp d ?n ws\<rparr>"
  have n: "(case maxSequence ?t d of None \<Rightarrow> 0 | Some m \<Rightarrow> m) = ?n" using maxSequence_length [OF wf] by simp
  have "opSequence r \<le> ?n" if "r \<in> set (documentOps ?t d)" for r
  proof -
    have "opSequence r \<in> set (map opSequence (documentOps ?t d))" using that by simp
    then show ?thesis unfolding wf_seq [OF wf] by auto
  qed
  then have "insertWrites flt stamp d ws 0 ?n ?t = Inr ?t1"
    using assms(3,4) by (intro insertWrites_ok) auto
  moreover have "d \<in> docID ` set (documents ?t1)"
    using False assms(4) by (auto simp: insertable_def neq_Nil_conv)
  then have "fst (updateDocuments d (\<lambda>r. r\<lparr>docUpdated := stamp\<rparr>) ?t1) = 1"
    using updateDocuments_rows [of ?t1 d] wf by (simp add: wfTables_def)
  ultimately show ?thesis
    using False assms(2,3)
    by (cases "updateDocuments d (\<lambda>r. r\<lparr>docUpdated := stamp\<rparr>) ?t1")
      (simp add: AppendOperationBatch_def dbCall_def touchDocument_def n Let_def)
qed (simp add: AppendOperationBatch_def)


section \<open>Reading the log\<close>

lemma wfOpRow_decodes:
  "wfOpRow t r \<Longrightarrow> unmarshalOperation (opPayload r) = Some (rowOp r) \<and> withType (opKind r) (rowOp r) = rowOp r"
  by (auto simp: wfOpRow_def rowOp_def withType_def unmarshal_marshalOperation)

definition recordOf :: "op_row \<Rightarrow> OperationRecord" where
  "recordOf r = \<lparr>recSequence = opSequence r, recUser = opUser r, recSite = opSite r, recOp = rowOp r\<rparr>"

lemma scanRecords_ok:
  "\<forall>c. flt c = None \<Longrightarrow> \<forall>r \<in> set rs. wfOpRow t r \<Longrightarrow> scanRecords flt i rs = Inr (map recordOf rs)"
  by (induction rs arbitrary: i) (auto simp: dbCall_def recordOf_def dest: wfOpRow_decodes)

lemma scanHistory_ok:
  "\<forall>c. flt c = None \<Longrightarrow> \<forall>r \<in> set rs. wfOpRow t r \<Longrightarrow> scanHistory flt i rs = Inr (map rowOp rs)"
  by (induction rs arbitrary: i) (auto simp: dbCall_def dest: wfOpRow_decodes)

text \<open>Selecting by sequence number is selecting by position.\<close>

lemma filter_after:
  "map opSequence rs = map int [Suc a..<Suc a + length rs] \<Longrightarrow>
   filter (\<lambda>r. int v < opSequence r) rs = drop (v - a) rs"
proof (induction rs arbitrary: a)
  case (Cons r rs)
  then have r: "opSequence r = int (Suc a)" "map opSequence rs = map int [Suc (Suc a)..<Suc (Suc a) + length rs]"
    using upt_conv_Cons [of "Suc a" "Suc a + length (r # rs)"] by (simp_all del: upt.simps)
  show ?case using r(1) Cons.IH [OF r(2)] by (cases "v - a") (auto simp: Suc_diff_Suc diff_Suc split: nat.splits)
qed simp

lemma filter_upto:
  "map opSequence rs = map int [Suc a..<Suc a + length rs] \<Longrightarrow>
   filter (\<lambda>r. opSequence r \<le> int v) rs = take (v - a) rs"
proof (induction rs arbitrary: a)
  case (Cons r rs)
  then have r: "opSequence r = int (Suc a)" "map opSequence rs = map int [Suc (Suc a)..<Suc (Suc a) + length rs]"
    using upt_conv_Cons [of "Suc a" "Suc a + length (r # rs)"] by (simp_all del: upt.simps)
  show ?case using r(1) Cons.IH [OF r(2)] by (cases "v - a") (auto simp: diff_Suc split: nat.splits)
qed simp

lemma seq_sorted: "wfTables t \<Longrightarrow> sorted (map opSequence (documentOps t d))"
  by (simp add: wf_seq sorted_map del: upt.simps)

lemma rows_after:
  assumes wf: "wfTables t" and "0 \<le> v"
  shows "sort_key opSequence (filter (\<lambda>r. v < opSequence r) (documentOps t d)) = drop (nat v) (documentOps t d)"
proof -
  let ?rs = "documentOps t d"
  have "filter (\<lambda>r. v < opSequence r) ?rs = drop (nat v) ?rs"
    using filter_after [of ?rs 0 "nat v"] wf_seq [OF wf, of d] assms(2) by simp
  moreover have "sorted (map opSequence ?rs)" using wf by (rule seq_sorted)
  ultimately show ?thesis by (simp add: sort_key_id_if_sorted sorted_wrt_drop flip: drop_map)
qed

lemma rows_between:
  assumes wf: "wfTables t" and "0 \<le> v" "0 \<le> w"
  shows "sort_key opSequence (filter (\<lambda>r. v < opSequence r \<and> opSequence r \<le> w) (documentOps t d))
    = drop (nat v) (take (nat w) (documentOps t d))"
proof -
  let ?rs = "documentOps t d"
  have up: "filter (\<lambda>r. opSequence r \<le> w) ?rs = take (nat w) ?rs"
    using filter_upto [of ?rs 0 "nat w"] wf_seq [OF wf, of d] assms by simp
  have "map opSequence (take (nat w) ?rs) = map int [Suc 0..<Suc 0 + length (take (nat w) ?rs)]"
    using wf_seq [OF wf, of d] take_upt [of 1 "nat w" "Suc (length ?rs)"]
    by (cases "length ?rs \<le> nat w") (simp_all add: take_map min_def flip: take_map [of _ opSequence] del: upt.simps)
  from filter_after [OF this, of "nat v"] have "filter (\<lambda>r. v < opSequence r) (take (nat w) ?rs) = drop (nat v) (take (nat w) ?rs)"
    using assms by simp
  then have eq: "filter (\<lambda>r. v < opSequence r \<and> opSequence r \<le> w) ?rs = drop (nat v) (take (nat w) ?rs)"
    by (simp add: up [symmetric] conj_commute)
  have "sorted (map opSequence ?rs)" using wf by (rule seq_sorted)
  then show ?thesis
    unfolding eq by (simp add: sort_key_id_if_sorted sorted_wrt_drop sorted_wrt_take flip: drop_map take_map)
qed

lemma rows_wf: "wfTables t \<Longrightarrow> r \<in> set (documentOps t d) \<Longrightarrow> wfOpRow t r"
  by (auto simp: wfTables_def documentOps_def)

text \<open>What a load returns: the stored snapshot and the rest of the log.\<close>

lemma LoadDocument_ok:
  assumes wf: "wfTables (tables s)" and "readDB s" "\<forall>c. flt c = None"
    and r: "documentBySlug (tables s) slug = Some r" "0 \<le> docVersion r"
    and cs: "decodeSnapshot ''decode snapshot'' (docSnapshot r) = Inr cs"
  shows "LoadDocument flt slug s = Inr
    \<lparr>storedID = docID r, storedSlug = slug, storedTitle = (case docTitle r of None \<Rightarrow> '''' | Some x \<Rightarrow> x),
     storedSnapshot = cs, storedVersion = docVersion r,
     loadedOperations = map recordOf (drop (nat (docVersion r)) (documentOps (tables s) (docID r)))\<rparr>"
proof -
  have "docSlug r = slug" using r(1) by (auto simp: documentBySlug_def find_Some_iff)
  moreover have "scanRecords flt 0 (drop (nat (docVersion r)) (documentOps (tables s) (docID r)))
      = Inr (map recordOf (drop (nat (docVersion r)) (documentOps (tables s) (docID r))))"
    using rows_wf [OF wf] assms(3) by (intro scanRecords_ok [of _ _ "tables s"]) (auto dest: in_set_dropD)
  ultimately show ?thesis
    using assms(2,3) r cs rows_after [OF wf r(2), of "docID r"] by (simp add: LoadDocument_def dbCall_def)
qed

lemma OperationsInRange_ok:
  assumes wf: "wfTables (tables s)" and "readDB s" "\<forall>c. flt c = None"
    and r: "documentBySlug (tables s) slug = Some r" and v: "0 \<le> v"
  shows "OperationsInRange flt slug v w s =
    Inr (drop (nat v) (take (nat w) (map snd (documentLog (tables s) (docID r)))))"
proof (cases "w < v")
  case True
  then show ?thesis using assms(2) v by (simp add: OperationsInRange_def)
next
  case False
  let ?rows = "drop (nat v) (take (nat w) (documentOps (tables s) (docID r)))"
  have "scanHistory flt 0 ?rows = Inr (map rowOp ?rows)"
    using rows_wf [OF wf] assms(3) by (intro scanHistory_ok [of _ _ "tables s"]) (meson in_set_dropD in_set_takeD)+
  then show ?thesis
    using assms(2,3) r False v rows_between [OF wf v, of w "docID r"]
    by (simp add: OperationsInRange_def historyDocumentID_def dbCall_def documentLog_def drop_map take_map comp_def)
qed

section \<open>Saving a snapshot\<close>

lemma SaveSnapshot_effect:
  assumes wf: "wfTables (tables s)" and res: "SaveSnapshot flt stamp d cs v s = (res, s')"
  shows "wfTables (tables s') \<and> documentLog (tables s') = documentLog (tables s)
    \<and> readDB s' = readDB s \<and> writeDB s' = writeDB s
    \<and> (documentBySlug (tables s') slug = documentBySlug (tables s) slug
       \<or> (\<exists>r. documentBySlug (tables s) slug = Some r \<and> docID r = d
            \<and> documentBySlug (tables s') slug =
                Some (r\<lparr>docSnapshot := Some (marshalChars cs), docVersion := v, docUpdated := stamp\<rparr>)))
    \<and> (res = Inr () \<longrightarrow> 0 \<le> v \<and> d \<in> docID ` set (documents (tables s))
         \<and> (\<forall>r. documentBySlug (tables s) slug = Some r \<and> docID r = d \<longrightarrow>
              documentBySlug (tables s') slug =
                Some (r\<lparr>docSnapshot := Some (marshalChars cs), docVersion := v, docUpdated := stamp\<rparr>)))"
proof (cases "writeDB s \<and> 0 \<le> v \<and> flt (DbExec 0) = None")
  case False
  then have "s' = s" "res \<noteq> Inr ()" using res by (auto simp: SaveSnapshot_def dbCall_def split: if_splits option.splits)
  then show ?thesis using wf by simp
next
  case True
  let ?f = "\<lambda>r. r\<lparr>docSnapshot := Some (marshalChars cs), docVersion := v, docUpdated := stamp\<rparr>"
  let ?u = "updateDocuments d ?f (tables s)"
  obtain rows t where u: "?u = (rows, t)" by (cases ?u)
  have s': "s' = s\<lparr>tables := snd ?u\<rparr>" and ok: "res = Inr () \<Longrightarrow> fst ?u = 1"
    using res True by (auto simp: SaveSnapshot_def dbCall_def Let_def u split: if_splits option.splits)
  have slug: "documentBySlug (snd ?u) slug = map_option (\<lambda>r. if docID r = d then ?f r else r) (documentBySlug (tables s) slug)"
    by (rule documentBySlug_update) simp
  have "fst ?u = (if d \<in> docID ` set (documents (tables s)) then 1 else 0)"
    using wf by (intro updateDocuments_rows) (simp add: wfTables_def)
  then have "d \<in> docID ` set (documents (tables s))" if "res = Inr ()"
    using ok [OF that] by (metis zero_neq_one)
  moreover have "wfTables (snd ?u)" using wf by (intro updateDocuments_wf) simp_all
  moreover have "documentLog (snd ?u) = documentLog (tables s)" by (rule ext) simp
  ultimately show ?thesis
    using True unfolding s' by (cases "documentBySlug (tables s) slug") (simp_all add: slug)
qed


end
