(* ===== verification/Store_Theorems.thy ===== *)
theory Store_Theorems
  imports Store_Log
begin

text \<open>
  The properties of the store: batches are atomic and extend the log, snapshots and logs read
  back as written, users and slugs are unique.
\<close>

section \<open>Users\<close>

definition effectiveName :: "string \<Rightarrow> string" where
  "effectiveName name = (if trimSpace name = '''' then ''Anonymous'' else trimSpace name)"

lemma runeCount_lower: "runeCount (lowerString s) = runeCount s"
proof -
  have byte: "of_char (lowerChar c) = (if 65 \<le> (of_char c :: nat) \<and> (of_char c :: nat) \<le> 90 then of_char c + 32 else of_char c :: nat)" for c
    by (auto simp: lowerChar_def Let_def of_char_of take_bit_eq_mod)
  have "(\<not> (0x80 \<le> (of_char (lowerChar c) :: nat) \<and> (of_char (lowerChar c) :: nat) < 0xC0))
      = (\<not> (0x80 \<le> (of_char c :: nat) \<and> (of_char c :: nat) < 0xC0))" for c
    unfolding byte by auto
  then show ?thesis unfolding runeCount_def lowerString_def filter_map length_map comp_def by presburger
qed

lemma userByName_lower: "lowerString n = lowerString n' \<Longrightarrow> userByName t n = userByName t n'"
  by (simp add: userByName_def)

lemma find_snoc: "find P xs = None \<Longrightarrow> find P (xs @ [x]) = (if P x then Some x else None)"
  by (induction xs) (auto split: if_splits)

lemma insertUserRow_wf:
  assumes wf: "wfTables t" and ins: "insertUserRow name color t = Inr t'"
  shows "wfTables t' \<and> userByName t' name = Some \<lparr>userID = lastUser t', userName = name, userColor = color\<rparr>
    \<and> operations t' = operations t \<and> documents t' = documents t"
proof -
  let ?u = "\<lparr>userID = lastUser t + 1, userName = name, userColor = color\<rparr>"
  have t': "t' = t\<lparr>users := users t @ [?u], lastUser := lastUser t + 1\<rparr>" and none: "userByName t name = None"
    using ins by (auto simp: insertUserRow_def split: if_splits)
  have names: "lowerString name \<notin> (lowerString \<circ> userName) ` set (users t)"
    using none by (auto simp: userByName_def find_None_iff)
  have ids: "lastUser t + 1 \<notin> userID ` set (users t)" and le: "\<forall>u \<in> set (users t). userID u \<le> lastUser t"
    using wf by (auto simp: wfTables_def)
  have ops: "documentOps t' d = documentOps t d" for d by (simp add: t' documentOps_def)
  have row: "wfOpRow t' r" if "wfOpRow t r" for r
    using that by (auto simp: wfOpRow_def t')
  have "wfTables t'"
    using wf names ids le row unfolding wfTables_def ops by (auto simp: t')
  moreover have "userByName t' name = Some ?u"
    using none unfolding userByName_def t' by (simp add: find_snoc)
  ultimately show ?thesis by (simp add: t')
qed

lemma FindOrCreateUser_ok:
  assumes wf: "wfTables (tables s)" and ok: "FindOrCreateUser flt name s = (Inr u, s')"
  shows "writeDB s \<and> runeCount (effectiveName name) \<le> 64 \<and> wfTables (tables s')
    \<and> userByName (tables s') (effectiveName name) = Some u \<and> (\<exists>t. s' = s\<lparr>tables := t\<rparr>)
    \<and> (case userByName (tables s) (effectiveName name) of
         Some u' \<Rightarrow> u' = u \<and> s' = s
       | None \<Rightarrow> userName u = effectiveName name \<and> userColor u \<in> set userColors
           \<and> users (tables s') = users (tables s) @ [u] \<and> operations (tables s') = operations (tables s)
           \<and> documents (tables s') = documents (tables s))"
proof -
  let ?t = "tables s" and ?n = "effectiveName name"
  have w: "writeDB s" "runeCount ?n \<le> 64"
    using ok by (auto simp: FindOrCreateUser_def effectiveName_def Let_def split: if_splits)
  show ?thesis
  proof (cases "userByName ?t ?n")
    case (Some u')
    then have "u' = u" "s' = s"
      using ok by (auto simp: FindOrCreateUser_def effectiveName_def Let_def split: if_splits sum.splits)
    then show ?thesis using Some w wf by (auto intro: exI [of _ "tables s"])
  next
    case None
    let ?c = "userColors ! ((length (users ?t) - 1) mod length userColors)"
    obtain t' where t': "insertUserRow ?n ?c ?t = Inr t'" "s' = s\<lparr>tables := t'\<rparr>"
        "u = \<lparr>userID = lastUser t', userName = ?n, userColor = ?c\<rparr>"
      using ok None
      by (auto simp: FindOrCreateUser_def effectiveName_def Let_def andThen_def split: if_splits sum.splits)
    have "?c \<in> set userColors" by (rule nth_mem) (simp add: userColors_def)
    then show ?thesis
      using insertUserRow_wf [OF wf t'(1)] w None t' by (auto simp: insertUserRow_def split: if_splits)
  qed
qed

section \<open>Documents\<close>

lemma takeSlugBytes_alphabet:
  assumes "set result \<subseteq> set slugAlphabet" "length result \<le> slugLength"
  shows "set (takeSlugBytes bs result) \<subseteq> set slugAlphabet \<and> length (takeSlugBytes bs result) \<le> slugLength"
  using assms
proof (induction bs arbitrary: result)
  case (Cons b bs)
  have "slugAlphabet ! (b mod length slugAlphabet) \<in> set slugAlphabet"
    by (rule nth_mem) (simp add: slugAlphabet_def)
  then show ?case using Cons.prems Cons.IH by simp
qed simp

lemma randomSlug_alphabet:
  "randomSlug reads result = Some (Inr (slug, rest)) \<Longrightarrow> set result \<subseteq> set slugAlphabet
   \<Longrightarrow> length result \<le> slugLength \<Longrightarrow> set slug \<subseteq> set slugAlphabet \<and> length slug = slugLength"
proof (induction reads result rule: randomSlug.induct)
  case (1 reads result)
  show ?case
  proof (cases "length result < slugLength")
    case True
    then obtain block rest' where r: "reads = Some block # rest'"
        "randomSlug rest' (takeSlugBytes block result) = Some (Inr (slug, rest))"
      using "1.prems"(1) by (subst (asm) randomSlug.simps) (auto split: list.splits option.splits)
    show ?thesis
      using "1.IH" [of "Some block" rest' block] r takeSlugBytes_alphabet [OF "1.prems"(2,3)] True by simp
  next
    case False
    then show ?thesis using "1.prems" by (subst (asm) randomSlug.simps) auto
  qed
qed

lemma insertDocumentRow_wf:
  assumes wf: "wfTables t" and ins: "insertDocumentRow stamp slug t = Inr t'"
  shows "wfTables t' \<and> documentBySlug t slug = None \<and> operations t' = operations t \<and> users t' = users t
    \<and> documentOps t' (lastDocument t') = []
    \<and> documents t' = documents t @ [\<lparr>docID = lastDocument t', docSlug = slug, docTitle = None, docSnapshot = None,
         docVersion = 0, docCreated = stamp, docUpdated = stamp\<rparr>]
    \<and> lastDocument t' \<notin> docID ` set (documents t)"
proof -
  have t': "t' = t\<lparr>documents := documents t @ [\<lparr>docID = lastDocument t + 1, docSlug = slug, docTitle = None,
        docSnapshot = None, docVersion = 0, docCreated = stamp, docUpdated = stamp\<rparr>], lastDocument := lastDocument t + 1\<rparr>"
    and none: "documentBySlug t slug = None"
    using ins by (auto simp: insertDocumentRow_def split: if_splits)
  have slug: "slug \<notin> docSlug ` set (documents t)" using none by (auto simp: documentBySlug_def find_None_iff)
  have ids: "lastDocument t + 1 \<notin> docID ` set (documents t)" using wf by (auto simp: wfTables_def)
  have le: "\<forall>r \<in> set (documents t). docID r \<le> lastDocument t" using wf by (simp add: wfTables_def)
  have ops: "documentOps t' d = documentOps t d" for d by (simp add: t' documentOps_def)
  have row: "wfOpRow t' r" if "wfOpRow t r" for r using that by (auto simp: wfOpRow_def t')
  have "wfTables t'" using wf slug ids le row unfolding wfTables_def ops by (auto simp: t')
  moreover have "documentOps t (lastDocument t + 1) = []"
  proof -
    have "opDocument r \<noteq> lastDocument t + 1" if "r \<in> set (operations t)" for r
      using that wf ids unfolding wfTables_def wfOpRow_def by (metis imageE imageI)
    then show ?thesis by (auto simp: documentOps_def filter_empty_conv)
  qed
  ultimately show ?thesis using none ids by (simp add: t' documentOps_def)
qed

lemma createLoop_ok:
  "createLoop n i flt stamp reads t = Some (Inr (doc, t')) \<Longrightarrow>
   insertDocumentRow stamp (storedSlug doc) t = Inr t'
   \<and> set (storedSlug doc) \<subseteq> set slugAlphabet \<and> length (storedSlug doc) = slugLength
   \<and> doc = \<lparr>storedID = lastDocument t', storedSlug = storedSlug doc, storedTitle = '''', storedSnapshot = [], storedVersion = 0\<rparr>"
proof (induction n arbitrary: i reads)
  case (Suc n)
  obtain slug rest where slug: "randomSlug reads [] = Some (Inr (slug, rest))"
    using Suc.prems by (auto split: option.splits sum.splits)
  show ?case
  proof (cases "execInsertDocument flt i stamp slug t")
    case (Inl e)
    then show ?thesis using Suc slug by (auto split: if_splits)
  next
    case (Inr t1)
    have "insertDocumentRow stamp slug t = Inr t1"
      using Inr by (auto simp: execInsertDocument_def split: option.splits)
    then show ?thesis
      using Suc.prems slug Inr randomSlug_alphabet [OF slug] by (auto simp: andThen_Inr)
  qed
qed simp

section \<open>Properties\<close>

text \<open>
  C20. Appending a batch is atomic, whatever calls to the database fail: either it reports an
  error and nothing changed, or every operation is at the end of the log of its document, in
  order and with its author (the system user for a non-positive one), no other log changed, and
  the tables stay consistent, sequence numbers without gaps in particular. Without failures a
  batch of well-typed operations of known users on an existing document is accepted.
\<close>

theorem append_batch_atomic:
  assumes wf: "wfTables (tables s)"
  shows "(case AppendOperationBatch flt stamp d writes s of
      (Inl e, s') \<Rightarrow> s' = s
    | (Inr _, s') \<Rightarrow> wfTables (tables s')
        \<and> documentLog (tables s') d = documentLog (tables s) d @ map (\<lambda>w. (writer_of w, writeOp w)) writes
        \<and> (\<forall>d'. d' \<noteq> d \<longrightarrow> documentLog (tables s') d' = documentLog (tables s) d'))
    \<and> (writeDB s \<and> flt = noFaults \<and> (\<forall>w \<in> set writes. insertable (tables s) d w)
       \<longrightarrow> fst (AppendOperationBatch flt stamp d writes s) = Inr ())"
proof -
  have "fst (AppendOperationBatch flt stamp d writes s) = Inr ()"
    if "writeDB s \<and> flt = noFaults \<and> (\<forall>w \<in> set writes. insertable (tables s) d w)"
    using that AppendOperationBatch_ok [OF wf] by (simp add: noFaults_def)
  moreover have "wfTables (appended stamp d writes (tables s))" if "\<forall>w \<in> set writes. insertable (tables s) d w"
    using wf that by (rule appended_wf)
  ultimately show ?thesis
    using AppendOperationBatch_cases [OF wf, of flt stamp d writes] wf
    by (auto simp: documentLog_appended)
qed

text \<open>A database with one document, for the examples.\<close>

definition exampleTables :: database where
  "exampleTables = initialTables\<lparr>documents := [\<lparr>docID = 1, docSlug = ''pad'', docTitle = None, docSnapshot = None,
     docVersion = 0, docCreated = '''', docUpdated = ''''\<rparr>], lastDocument := 1\<rparr>"

definition exampleStore :: Store where
  "exampleStore = \<lparr>readDB = True, writeDB = True, tables = exampleTables\<rparr>"

lemma wfTables_example: "wfTables exampleTables"
  by (simp add: wfTables_def exampleTables_def initialTables_def systemUserID_def documentOps_def)

lemma example_tables [simp]: "tables exampleStore = exampleTables" "readDB exampleStore" "writeDB exampleStore"
  by (simp_all add: exampleStore_def)

definition exampleWrite :: OperationWrite where
  "exampleWrite = \<lparr>writeUser = 0, writeOp = \<lparr>opType = Insert, opID = CharID ''a'' 1, opValue = 65,
     opLeftID = None, opRightID = None\<rparr>\<rparr>"

lemma example_insertable: "insertable exampleTables 1 exampleWrite"
  by (simp add: insertable_def exampleTables_def initialTables_def exampleWrite_def writer_of_def systemUserID_def)

theorem append_batch_atomic_witness:
  "\<exists>s'. AppendOperationBatch noFaults ''now'' 1 [exampleWrite] exampleStore = (Inr (), s')
     \<and> documentLog (tables s') 1 = [(1, writeOp exampleWrite)]"
proof -
  have "fst (AppendOperationBatch noFaults ''now'' 1 [exampleWrite] exampleStore) = Inr ()"
    using append_batch_atomic [where s = exampleStore and flt = noFaults and stamp = "''now''" and d = 1 and writes = "[exampleWrite]"] wfTables_example example_insertable
    by simp
  then obtain s' where s': "AppendOperationBatch noFaults ''now'' 1 [exampleWrite] exampleStore = (Inr (), s')"
    by (metis prod.collapse)
  have "documentLog exampleTables 1 = []"
    by (simp add: documentLog_def documentOps_def exampleTables_def initialTables_def)
  moreover have "writer_of exampleWrite = 1"
    by (simp add: exampleWrite_def writer_of_def systemUserID_def)
  ultimately show ?thesis
    using s' append_batch_atomic [where s = exampleStore and flt = noFaults and stamp = "''now''" and d = 1 and writes = "[exampleWrite]"] wfTables_example by simp
qed


text \<open>
  C21. A snapshot reads back as it was saved: after \<open>SaveSnapshot\<close> succeeded,
  \<open>LoadDocument\<close> returns those characters and that version, and with them exactly the
  operations of the log after that version, in order, with their sequence numbers and authors.
\<close>

theorem save_then_load:
  assumes wf: "wfTables (tables s)" and "readDB s" and r: "documentBySlug (tables s) slug = Some r"
    and save: "SaveSnapshot flt stamp (docID r) cs v s = (Inr (), s')"
  shows "\<exists>l. LoadDocument noFaults slug s' = Inr l \<and> storedID l = docID r
    \<and> storedSnapshot l = cs \<and> storedVersion l = v
    \<and> map recSequence (loadedOperations l) = map int [Suc (nat v)..<Suc (length (documentLog (tables s) (docID r)))]
    \<and> map (\<lambda>q. (recUser q, recOp q)) (loadedOperations l) = drop (nat v) (documentLog (tables s) (docID r))"
proof -
  note eff = SaveSnapshot_effect [OF wf save, where slug = slug]
  let ?r = "r\<lparr>docSnapshot := Some (marshalChars cs), docVersion := v, docUpdated := stamp\<rparr>"
  have wf': "wfTables (tables s')" and log: "documentLog (tables s') = documentLog (tables s)"
    and "readDB s'" "0 \<le> v" and r': "documentBySlug (tables s') slug = Some ?r"
    using eff r assms(2) by auto
  let ?rows = "documentOps (tables s') (docID r)"
  have load: "LoadDocument noFaults slug s' = Inr
    \<lparr>storedID = docID r, storedSlug = slug, storedTitle = (case docTitle r of None \<Rightarrow> '''' | Some x \<Rightarrow> x),
     storedSnapshot = cs, storedVersion = v, loadedOperations = map recordOf (drop (nat v) ?rows)\<rparr>"
    using LoadDocument_ok [OF wf' \<open>readDB s'\<close> _ r', of noFaults cs] \<open>0 \<le> v\<close>
    by (simp add: noFaults_def decodeSnapshot_def unmarshal_marshalChars)
  have len: "length ?rows = length (documentLog (tables s) (docID r))"
    using log by (metis length_documentLog)
  have "map opSequence (drop (nat v) ?rows) = drop (nat v) (map int [1..<Suc (length ?rows)])"
    by (simp only: wf_seq [OF wf', symmetric] drop_map)
  also have "\<dots> = map int [Suc (nat v)..<Suc (length (documentLog (tables s) (docID r)))]"
    unfolding len by (simp add: drop_map del: upt.simps)
  finally have "map recSequence (map recordOf (drop (nat v) ?rows))
      = map int [Suc (nat v)..<Suc (length (documentLog (tables s) (docID r)))]"
    by (simp add: recordOf_def comp_def)
  moreover have "map (\<lambda>q. (recUser q, recOp q)) (map recordOf (drop (nat v) ?rows))
      = drop (nat v) (documentLog (tables s') (docID r))"
    by (simp add: recordOf_def comp_def documentLog_def drop_map)
  ultimately show ?thesis using load log by simp
qed

theorem save_then_load_witness:
  "\<exists>l s'. SaveSnapshot noFaults ''now'' 1 [zeroChar] 0 exampleStore = (Inr (), s')
     \<and> LoadDocument noFaults ''pad'' s' = Inr l \<and> storedSnapshot l = [zeroChar]"
proof -
  let ?r = "\<lparr>docID = 1, docSlug = ''pad'', docTitle = None, docSnapshot = None,
     docVersion = 0, docCreated = '''', docUpdated = ''''\<rparr>"
  have r: "documentBySlug (tables exampleStore) ''pad'' = Some ?r"
    by (simp add: documentBySlug_def exampleTables_def initialTables_def)
  obtain s' where s': "SaveSnapshot noFaults ''now'' 1 [zeroChar] 0 exampleStore = (Inr (), s')"
    by (simp add: SaveSnapshot_def dbCall_def noFaults_def updateDocuments_def exampleTables_def initialTables_def)
  then have "SaveSnapshot noFaults ''now'' (docID ?r) [zeroChar] 0 exampleStore = (Inr (), s')" by simp
  with wfTables_example have "\<exists>l. LoadDocument noFaults ''pad'' s' = Inr l \<and> storedSnapshot l = [zeroChar]"
    using save_then_load [OF _ _ r, of noFaults "''now''" "[zeroChar]" 0 s'] by fastforce
  then show ?thesis using s' by blast
qed

text \<open>
  C22. A username is one user, whatever its letter case and surrounding white space: a call that
  succeeded returns the user stored under that name, creates at most one row, and every later
  call with the same name up to case returns the same user and changes nothing. A call that
  failed changed nothing.
\<close>

theorem user_is_stable:
  assumes wf: "wfTables (tables s)"
    and call: "FindOrCreateUser flt name s = (res, s')"
  shows "case res of
      Inl e \<Rightarrow> s' = s
    | Inr u \<Rightarrow> wfTables (tables s') \<and> u \<in> set (users (tables s'))
        \<and> lowerString (userName u) = lowerString (effectiveName name)
        \<and> (users (tables s') = users (tables s) \<or> users (tables s') = users (tables s) @ [u])
        \<and> documentLog (tables s') = documentLog (tables s)
        \<and> (\<forall>name'. lowerString (effectiveName name') = lowerString (effectiveName name) \<longrightarrow>
             FindOrCreateUser noFaults name' s' = (Inr u, s'))"
proof (cases res)
  case (Inl e)
  then show ?thesis
    using call by (auto simp: FindOrCreateUser_def Let_def split: if_splits sum.splits option.splits)
next
  case (Inr u)
  note ok = FindOrCreateUser_ok [OF wf call [unfolded Inr]]
  then obtain t where t: "s' = s\<lparr>tables := t\<rparr>" "writeDB s" by blast
  have u: "u \<in> set (users (tables s'))" "lowerString (userName u) = lowerString (effectiveName name)"
    using ok by (auto simp: userByName_def find_Some_iff)
  have again: "FindOrCreateUser noFaults name' s' = (Inr u, s')"
    if "lowerString (effectiveName name') = lowerString (effectiveName name)" for name'
  proof -
    have "runeCount (effectiveName name') \<le> 64"
      using that ok runeCount_lower [of "effectiveName name"] runeCount_lower [of "effectiveName name'"] by simp
    moreover have "userByName (tables s') (effectiveName name') = Some u"
      using that ok userByName_lower by metis
    ultimately show ?thesis
      using t by (auto simp: FindOrCreateUser_def effectiveName_def Let_def dbCall_def noFaults_def)
  qed
  have "documentLog (tables s') = documentLog (tables s)"
    using ok by (auto simp: documentLog_def documentOps_def fun_eq_iff split: option.splits)
  then show ?thesis using ok u again Inr by (auto split: option.splits)
qed

theorem user_is_stable_witness:
  "FindOrCreateUser noFaults ''ANN'' (snd (FindOrCreateUser noFaults '' ann'' exampleStore))
     = (Inr \<lparr>userID = 2, userName = ''ann'', userColor = ''#4dd8c0''\<rparr>,
        snd (FindOrCreateUser noFaults '' ann'' exampleStore))"
proof -
  let ?u = "\<lparr>userID = 2, userName = ''ann'', userColor = ''#4dd8c0''\<rparr>"
  have names: "lowerString (effectiveName ''ANN'') = lowerString (effectiveName '' ann'')" by code_simp
  have "fst (FindOrCreateUser noFaults '' ann'' exampleStore) = Inr ?u" by code_simp
  then obtain s' where s': "FindOrCreateUser noFaults '' ann'' exampleStore = (Inr ?u, s')"
    by (metis prod.collapse)
  have "wfTables (tables exampleStore)" using wfTables_example by simp
  from user_is_stable [OF this s'] names s' show ?thesis by simp
qed

text \<open>A created document loads as the empty document.\<close>

lemma created_document_loads:
  assumes wf: "wfTables (tables s)" and "readDB s" and call: "CreateDocument flt stamp reads s = Some (Inr doc, s')"
  shows "wfTables (tables s') \<and> readDB s' \<and> length (storedSlug doc) = 12 \<and> set (storedSlug doc) \<subseteq> set slugAlphabet
    \<and> LoadDocument noFaults (storedSlug doc) s' = Inr \<lparr>storedID = storedID doc, storedSlug = storedSlug doc,
        storedTitle = '''', storedSnapshot = [], storedVersion = 0, loadedOperations = []\<rparr>"
proof -
  obtain t' where loop: "createLoop 10 0 flt stamp reads (tables s) = Some (Inr (doc, t'))" and s': "s' = s\<lparr>tables := t'\<rparr>"
    using call by (cases "createLoop 10 0 flt stamp reads (tables s)")
      (auto simp: CreateDocument_def split: if_splits sum.splits)
  note doc = createLoop_ok [OF loop]
  note ins = insertDocumentRow_wf [OF wf, of stamp "storedSlug doc" t']
  let ?r = "\<lparr>docID = lastDocument t', docSlug = storedSlug doc, docTitle = None, docSnapshot = None,
         docVersion = 0, docCreated = stamp, docUpdated = stamp\<rparr>"
  have id: "storedID doc = lastDocument t'" using doc by (metis StoredDocument.select_convs(1))
  have none: "find (\<lambda>r. docSlug r = storedSlug doc) (documents (tables s)) = None"
    using doc ins by (simp add: documentBySlug_def)
  have r: "documentBySlug (tables s') (storedSlug doc) = Some ?r"
    using doc ins find_snoc [OF none, of ?r] by (simp add: documentBySlug_def s')
  show ?thesis
    using LoadDocument_ok [OF _ _ _ r, of noFaults "[]"] doc ins assms(2) id
    by (simp add: noFaults_def decodeSnapshot_def s' slugLength_def)
qed

lemma failed_creation: "CreateDocument flt stamp reads s = Some (Inl e, s') \<Longrightarrow> s' = s"
  by (cases "createLoop 10 0 flt stamp reads (tables s)") (auto simp: CreateDocument_def split: if_splits sum.splits)

text \<open>
  C23. A created document has a fresh slug of twelve characters of the alphabet, an identity of
  its own and an empty log, and loads as the empty document; every other document and log is as
  before. A failed creation changed nothing.
\<close>

theorem created_document_is_fresh:
  assumes wf: "wfTables (tables s)" and "readDB s"
    and call: "CreateDocument flt stamp reads s = Some (res, s')"
  shows "case res of
      Inl e \<Rightarrow> s' = s
    | Inr doc \<Rightarrow> wfTables (tables s') \<and> length (storedSlug doc) = 12 \<and> set (storedSlug doc) \<subseteq> set slugAlphabet
        \<and> documentBySlug (tables s) (storedSlug doc) = None
        \<and> storedID doc \<notin> docID ` set (documents (tables s))
        \<and> documentLog (tables s') = documentLog (tables s) \<and> documentLog (tables s') (storedID doc) = []
        \<and> (\<forall>slug. slug \<noteq> storedSlug doc \<longrightarrow> documentBySlug (tables s') slug = documentBySlug (tables s) slug)
        \<and> (\<exists>l. LoadDocument noFaults (storedSlug doc) s' = Inr l \<and> storedID l = storedID doc
             \<and> storedSnapshot l = [] \<and> storedVersion l = 0 \<and> loadedOperations l = [])"
proof (cases res)
  case (Inl e)
  then show ?thesis using call failed_creation by simp
next
  case (Inr doc)
  then obtain t' where loop: "createLoop 10 0 flt stamp reads (tables s) = Some (Inr (doc, t'))"
    and s': "s' = s\<lparr>tables := t'\<rparr>"
    using call by (cases "createLoop 10 0 flt stamp reads (tables s)")
      (auto simp: CreateDocument_def split: if_splits sum.splits)
  note doc = createLoop_ok [OF loop]
  note ins = insertDocumentRow_wf [OF wf, of stamp "storedSlug doc" t']
  have id: "storedID doc = lastDocument t'" using doc by (metis StoredDocument.select_convs(1))
  have ops: "documentOps t' d = documentOps (tables s) d" for d using doc ins by (simp add: documentOps_def)
  have "\<exists>l. LoadDocument noFaults (storedSlug doc) s' = Inr l \<and> storedID l = storedID doc
      \<and> storedSnapshot l = [] \<and> storedVersion l = 0 \<and> loadedOperations l = []"
    using created_document_loads [OF wf assms(2) call [unfolded Inr]] by auto
  moreover have "documentBySlug (tables s') slug = documentBySlug (tables s) slug" if "slug \<noteq> storedSlug doc" for slug
  proof -
    have "find P (xs @ [x]) = find P xs" if "\<not> P x" for P xs and x :: doc_row
      using that by (induction xs) auto
    then show ?thesis using doc ins that by (simp add: documentBySlug_def s')
  qed
  moreover have "documentLog (tables s') = documentLog (tables s)"
    using ops by (simp add: documentLog_def fun_eq_iff s')
  moreover have "documentLog (tables s') (storedID doc) = []"
    using doc ins id by (simp add: documentLog_def s')
  ultimately show ?thesis using Inr doc ins id by (simp add: s' slugLength_def)
qed

theorem created_document_is_fresh_witness:
  "\<exists>doc s'. CreateDocument noFaults ''now'' [Some [0, 255, 1, 2, 3, 4, 5, 6, 7, 8, 9, 10], Some [11, 12]] exampleStore
       = Some (Inr doc, s')
     \<and> storedSlug doc = ''0123456789AB'' \<and> documentBySlug exampleTables ''0123456789AB'' = None"
proof -
  let ?call = "CreateDocument noFaults ''now'' [Some [0, 255, 1, 2, 3, 4, 5, 6, 7, 8, 9, 10], Some [11, 12]] exampleStore"
  have "map_option (map_sum id storedSlug \<circ> fst) ?call = Some (Inr ''0123456789AB'')" by code_simp
  then obtain res s' where call: "?call = Some (res, s')" and "map_sum id storedSlug res = Inr ''0123456789AB''"
    by auto
  then obtain doc where doc: "res = Inr doc" "storedSlug doc = ''0123456789AB''" by (cases res) auto
  have "wfTables (tables exampleStore)" "readDB exampleStore" using wfTables_example by simp_all
  from created_document_is_fresh [OF this call] show ?thesis using call doc by auto
qed


end
