(* ===== verification/Writer_Log.thy ===== *)
theory Writer_Log
  imports Writer Store_Theorems "HOL-Library.Sublist"
begin

text \<open>
  What the write-behind queue does to the log of its executor. The interface \<open>durable_log\<close>
  says what an executor promises; the store keeps it. Runs of the writer interleave producers,
  the goroutine and its timer; the invariants are proved by induction on the run.
\<close>

section \<open>Runs\<close>

text \<open>
  A run from \<open>w0\<close>: \<open>acc\<close> are the operations \<open>EnqueueOps\<close> has accepted,
  in order, with their documents; \<open>n\<close> counts the calls of \<open>EnqueueSnapshot\<close> that are
  between their two critical sections.
\<close>

definition writesOf :: "int \<Rightarrow> Operation list \<Rightarrow> OperationWrite list" where
  "writesOf user ops = map (\<lambda>op. \<lparr>writeUser = user, writeOp = op\<rparr>) ops"

inductive writer_run ::
  "('x, 'e) WriterExecutor \<Rightarrow> ('x, 'e) Writer \<Rightarrow> (int \<times> OperationWrite) list \<Rightarrow> nat \<Rightarrow> ('x, 'e) Writer \<Rightarrow> bool"
  for ex w0 where
  start: "writer_run ex w0 [] 0 w0"
| enqueue: "writer_run ex w0 acc n w \<Longrightarrow> EnqueueOps d user ops (Some w) = (ok, Some w') \<Longrightarrow>
    writer_run ex w0 (if ok then acc @ map (Pair d) (writesOf user ops) else acc) n w'"
| register: "writer_run ex w0 acc n w \<Longrightarrow> \<not> writerClosed w \<Longrightarrow> registerSnapshot d cs v w = (should, w') \<Longrightarrow>
    writer_run ex w0 acc (if should then Suc n else n) w'"
| signal: "writer_run ex w0 acc (Suc n) w \<Longrightarrow> sendSignal w = (ok, w') \<Longrightarrow> writer_run ex w0 acc n w'"
| barrier: "writer_run ex w0 acc n w \<Longrightarrow> jobKind job = writerFlush \<or> jobKind job = writerClose \<Longrightarrow>
    enqueueBarrier cancelled job w = Some (res, w') \<Longrightarrow> writer_run ex w0 acc n w'"
| receive: "writer_run ex w0 acc n w \<Longrightarrow> receiveJob ex w = Some w' \<Longrightarrow> writer_run ex w0 acc n w'"
| timer: "writer_run ex w0 acc n w \<Longrightarrow> \<not> doneWriter w \<Longrightarrow> writer_run ex w0 acc n (timerFired ex w)"

definition acceptedOf :: "(int \<times> OperationWrite) list \<Rightarrow> int \<Rightarrow> OperationWrite list" where
  "acceptedOf acc d = map snd (filter (\<lambda>p. fst p = d) acc)"

definition pendingWrites :: "('x, 'e) Writer \<Rightarrow> int \<Rightarrow> OperationWrite list" where
  "pendingWrites w d =
     (case map_of (pendingOps w) d of None \<Rightarrow> []
      | Some qs \<Rightarrow> map (\<lambda>q. \<lparr>writeUser = queuedUser q, writeOp = queuedOp q\<rparr>) qs)"

definition jobWrites :: "int \<Rightarrow> writerJob \<Rightarrow> OperationWrite list" where
  "jobWrites d j =
     (if jobKind j = writerOperations \<and> jobDocument j = d then writesOf (jobUser j) (jobOps j) else [])"

definition queuedWrites :: "('x, 'e) Writer \<Rightarrow> int \<Rightarrow> OperationWrite list" where
  "queuedWrites w d = concat (map (jobWrites d) (jobs w))"

section \<open>The counters of the goroutine\<close>

text \<open>
  Between two iterations the counter agrees with the batches, stays below the batch size, and
  the timer is armed whenever something is pending.
\<close>

definition wfPending :: "('x, 'e) Writer \<Rightarrow> bool" where
  "wfPending w \<longleftrightarrow> distinct (map fst (pendingOps w))
     \<and> pendingCount w = int (sum_list (map (length \<circ> snd) (pendingOps w)))"

lemma wfPending_zero: "wfPending w \<Longrightarrow> pendingCount w = 0 \<Longrightarrow> pendingWrites w d = []"
proof -
  assume "wfPending w" "pendingCount w = 0"
  then have "\<forall>p \<in> set (pendingOps w). snd p = []" by (auto simp: wfPending_def sum_list_eq_0_iff)
  then show ?thesis by (auto simp: pendingWrites_def split: option.splits dest!: map_of_SomeD)
qed

lemma sum_list_update:
  fixes m :: "('k \<times> 'a list) list"
  assumes "distinct (map fst m)"
  shows "sum_list (map (length \<circ> snd) (AList.update k ((case map_of m k of None \<Rightarrow> [] | Some xs \<Rightarrow> xs) @ [x]) m))
    = Suc (sum_list (map (length \<circ> snd) m))"
  using assms by (induction m) (auto simp: comp_def)

definition addOne :: "int \<Rightarrow> int \<Rightarrow> Operation \<Rightarrow> ('x, 'e) Writer \<Rightarrow> ('x, 'e) Writer" where
  "addOne d user op w = w\<lparr>pendingOps := AList.update d
     ((case map_of (pendingOps w) d of None \<Rightarrow> [] | Some qs \<Rightarrow> qs) @ [\<lparr>queuedUser = user, queuedOp = op\<rparr>]) (pendingOps w),
     pendingCount := pendingCount w + 1\<rparr>"

lemma addPending_fold: "addPending d user ops w = fold (addOne d user) ops w"
  by (simp add: addPending_def addOne_def [abs_def])

lemma addOne_spec:
  assumes "wfPending w"
  shows "wfPending (addOne d user op w)
    \<and> pendingWrites (addOne d user op w) d' = pendingWrites w d' @ (if d' = d then writesOf user [op] else [])"
  using assms sum_list_update [of "pendingOps w" d "\<lparr>queuedUser = user, queuedOp = op\<rparr>"]
  by (auto simp: wfPending_def addOne_def pendingWrites_def writesOf_def split: option.splits)

lemma addPending_spec:
  assumes "wfPending w"
  shows "wfPending (addPending d user ops w)
    \<and> pendingWrites (addPending d user ops w) d' = pendingWrites w d' @ (if d' = d then writesOf user ops else [])"
  unfolding addPending_fold using assms
proof (induction ops arbitrary: w)
  case (Cons op ops)
  have "wfPending (addOne d user op w)" using addOne_spec [OF Cons.prems] by blast
  then show ?case using Cons.IH addOne_spec [OF Cons.prems, of d user op d'] by (auto simp: writesOf_def)
qed (simp add: writesOf_def)

lemma addPending_frame [simp]:
  "executor (addPending d user ops w) = executor w" "jobs (addPending d user ops w) = jobs w"
  "config (addPending d user ops w) = config w" "writeErrors (addPending d user ops w) = writeErrors w"
  "doneWriter (addPending d user ops w) = doneWriter w" "writerClosed (addPending d user ops w) = writerClosed w"
  "notified (addPending d user ops w) = notified w" "savedSnapshots (addPending d user ops w) = savedSnapshots w"
  "previousSnapshotTombs (addPending d user ops w) = previousSnapshotTombs w"
  "pendingSnapshot (addPending d user ops w) = pendingSnapshot w"
  "responses (addPending d user ops w) = responses w"
  by (induction ops arbitrary: w) (simp_all add: addPending_fold addOne_def)

section \<open>What the pieces leave alone\<close>

lemma observe_frame [simp]:
  "executor (observeQueueDepth w) = executor w" "jobs (observeQueueDepth w) = jobs w"
  "config (observeQueueDepth w) = config w" "writeErrors (observeQueueDepth w) = writeErrors w"
  "doneWriter (observeQueueDepth w) = doneWriter w" "writerClosed (observeQueueDepth w) = writerClosed w"
  "notified (observeQueueDepth w) = notified w" "savedSnapshots (observeQueueDepth w) = savedSnapshots w"
  "previousSnapshotTombs (observeQueueDepth w) = previousSnapshotTombs w"
  "pendingSnapshot (observeQueueDepth w) = pendingSnapshot w" "responses (observeQueueDepth w) = responses w"
  "pendingOps (observeQueueDepth w) = pendingOps w" "pendingCount (observeQueueDepth w) = pendingCount w"
  "timerActive (observeQueueDepth w) = timerActive w"
  by (simp_all add: observeQueueDepth_def)

lemma drop_frame [simp]:
  "executor (dropQueueItem w) = executor w" "jobs (dropQueueItem w) = jobs w"
  "config (dropQueueItem w) = config w" "writeErrors (dropQueueItem w) = writeErrors w"
  "doneWriter (dropQueueItem w) = doneWriter w" "writerClosed (dropQueueItem w) = writerClosed w"
  "notified (dropQueueItem w) = notified w" "savedSnapshots (dropQueueItem w) = savedSnapshots w"
  "previousSnapshotTombs (dropQueueItem w) = previousSnapshotTombs w"
  "pendingSnapshot (dropQueueItem w) = pendingSnapshot w" "responses (dropQueueItem w) = responses w"
  "pendingOps (dropQueueItem w) = pendingOps w" "pendingCount (dropQueueItem w) = pendingCount w"
  "timerActive (dropQueueItem w) = timerActive w"
  by (simp_all add: dropQueueItem_def)

lemma respond_frame [simp]:
  "executor (respond r errs w) = executor w" "jobs (respond r errs w) = jobs w"
  "config (respond r errs w) = config w" "writeErrors (respond r errs w) = writeErrors w"
  "doneWriter (respond r errs w) = doneWriter w" "writerClosed (respond r errs w) = writerClosed w"
  "notified (respond r errs w) = notified w" "savedSnapshots (respond r errs w) = savedSnapshots w"
  "previousSnapshotTombs (respond r errs w) = previousSnapshotTombs w"
  "pendingSnapshot (respond r errs w) = pendingSnapshot w"
  "pendingOps (respond r errs w) = pendingOps w" "pendingCount (respond r errs w) = pendingCount w"
  "timerActive (respond r errs w) = timerActive w"
  by (simp_all add: respond_def split: option.splits)

text \<open>The fields the three producer steps can change are the queue and the snapshot flags.\<close>

definition sameGoroutine :: "('x, 'e) Writer \<Rightarrow> ('x, 'e) Writer \<Rightarrow> bool" where
  "sameGoroutine w w' \<longleftrightarrow> executor w' = executor w \<and> config w' = config w \<and> writeErrors w' = writeErrors w
     \<and> doneWriter w' = doneWriter w \<and> notified w' = notified w \<and> savedSnapshots w' = savedSnapshots w
     \<and> previousSnapshotTombs w' = previousSnapshotTombs w \<and> pendingOps w' = pendingOps w
     \<and> pendingCount w' = pendingCount w \<and> timerActive w' = timerActive w \<and> responses w' = responses w"

lemma enqueue_producer:
  assumes "EnqueueOps d user ops (Some w) = (ok, Some w')"
  shows "sameGoroutine w w'
    \<and> queuedWrites w' d' = queuedWrites w d' @ (if ok \<and> d' = d then writesOf user ops else [])
    \<and> (int (length (jobs w)) \<le> QueueSize (config w) \<longrightarrow> int (length (jobs w')) \<le> QueueSize (config w))"
  using assms
  by (auto simp: EnqueueOps_def sameGoroutine_def queuedWrites_def jobWrites_def writesOf_def queueFull_def
      split: if_splits)

lemma register_producer:
  "registerSnapshot d cs v w = (should, w') \<Longrightarrow> sameGoroutine w w' \<and> jobs w' = jobs w"
  by (auto simp: registerSnapshot_def sameGoroutine_def)

lemma signal_producer:
  "sendSignal w = (ok, w') \<Longrightarrow> sameGoroutine w w' \<and> queuedWrites w' d' = queuedWrites w d'
   \<and> (int (length (jobs w)) \<le> QueueSize (config w) \<longrightarrow> int (length (jobs w')) \<le> QueueSize (config w))"
  by (auto simp: sendSignal_def sameGoroutine_def queuedWrites_def jobWrites_def signalJob_def queueFull_def
      split: if_splits)

lemma barrier_producer:
  "enqueueBarrier c job w = Some (res, w') \<Longrightarrow> jobKind job = writerFlush \<or> jobKind job = writerClose \<Longrightarrow>
   sameGoroutine w w' \<and> queuedWrites w' d' = queuedWrites w d'
   \<and> (int (length (jobs w)) \<le> QueueSize (config w) \<longrightarrow> int (length (jobs w')) \<le> QueueSize (config w))"
  by (auto simp: enqueueBarrier_def sameGoroutine_def queuedWrites_def jobWrites_def queueFull_def
      split: if_splits)

lemma sameGoroutine_pending:
  "sameGoroutine w w' \<Longrightarrow> wfPending w' = wfPending w \<and> pendingWrites w' d = pendingWrites w d"
  by (simp add: sameGoroutine_def wfPending_def pendingWrites_def)

section \<open>Flushing\<close>

lemma flush_frame:
  assumes "flush ex w = (err, w')"
  shows "jobs w' = jobs w \<and> config w' = config w \<and> doneWriter w' = doneWriter w \<and> writerClosed w' = writerClosed w
    \<and> notified w' = notified w \<and> savedSnapshots w' = savedSnapshots w
    \<and> previousSnapshotTombs w' = previousSnapshotTombs w \<and> pendingSnapshot w' = pendingSnapshot w
    \<and> responses w' = responses w \<and> timerActive w' = timerActive w
    \<and> pendingCount w' = 0 \<and> (wfPending w \<longrightarrow> wfPending w') \<and> snapshotObserver w' = snapshotObserver w
    \<and> writeErrors w' = writeErrors w @ optList err"
  using assms
  by (auto simp: flush_def wfPending_def Let_def optList_def split: if_splits prod.splits)

lemma saveSnapshotJob_frame:
  assumes "saveSnapshotJob ex s w = (err, w')"
  shows "jobs w' = jobs w \<and> config w' = config w \<and> doneWriter w' = doneWriter w \<and> writerClosed w' = writerClosed w
    \<and> pendingSnapshot w' = pendingSnapshot w \<and> responses w' = responses w \<and> timerActive w' = timerActive w
    \<and> pendingCount w' = pendingCount w \<and> pendingOps w' = pendingOps w \<and> writeErrors w' = writeErrors w
    \<and> snapshotObserver w' = snapshotObserver w"
  using assms by (auto simp: saveSnapshotJob_def Let_def split: prod.splits option.splits if_splits)

lemma saveSnapshotJobs_frame:
  "saveSnapshotJobs ex ss err0 w = (err, w') \<Longrightarrow>
   jobs w' = jobs w \<and> config w' = config w \<and> doneWriter w' = doneWriter w \<and> writerClosed w' = writerClosed w
   \<and> pendingSnapshot w' = pendingSnapshot w \<and> responses w' = responses w \<and> timerActive w' = timerActive w
   \<and> pendingCount w' = pendingCount w \<and> pendingOps w' = pendingOps w \<and> writeErrors w' = writeErrors w"
proof (induction ss arbitrary: err0 w)
  case (Cons s ss)
  obtain e1 w1 where w1: "saveSnapshotJob ex s w = (e1, w1)" by (cases "saveSnapshotJob ex s w")
  then show ?case using Cons.IH [of _ w1] Cons.prems saveSnapshotJob_frame [OF w1] by simp
qed simp

lemma flushSnapshots_frame:
  assumes "flushSnapshots ex w = (err, w')"
  shows "jobs w' = jobs w \<and> config w' = config w \<and> doneWriter w' = doneWriter w \<and> writerClosed w' = writerClosed w
    \<and> pendingSnapshot w' = [] \<and> responses w' = responses w \<and> timerActive w' = timerActive w
    \<and> pendingCount w' = pendingCount w \<and> pendingOps w' = pendingOps w
    \<and> writeErrors w' = writeErrors w @ optList err"
proof -
  obtain ss w1 where t: "takeSnapshots w = (ss, w1)" by (cases "takeSnapshots w")
  obtain e w2 where j: "saveSnapshotJobs ex ss None w1 = (e, w2)" by (cases "saveSnapshotJobs ex ss None w1")
  show ?thesis
    using assms t saveSnapshotJobs_frame [OF j] by (auto simp: flushSnapshots_def j takeSnapshots_def)
qed


section \<open>The contract of an executor\<close>

text \<open>
  An executor keeps one log per document. A batch that succeeds is appended to the log of its
  document as a whole, a batch that fails changes no log, and saving a snapshot changes no log.
\<close>

locale durable_log =
  fixes ex :: "('x, 'e) WriterExecutor"
    and batch :: "int \<Rightarrow> OperationWrite list \<Rightarrow> 'x \<Rightarrow> 'e option \<times> 'x"
    and log :: "'x \<Rightarrow> int \<Rightarrow> 'a list"
    and view :: "OperationWrite \<Rightarrow> 'a"
    and ok :: "'x \<Rightarrow> bool"
  assumes batch_of: "exBatch ex = Some batch"
    and batch_ok: "ok x \<Longrightarrow> batch d ws x = (None, x') \<Longrightarrow>
      ok x' \<and> log x' d' = log x d' @ (if d' = d then map view ws else [])"
    and batch_fail: "ok x \<Longrightarrow> batch d ws x = (Some e, x') \<Longrightarrow> ok x' \<and> log x' d' = log x d'"
    and save_keeps: "ok x \<Longrightarrow> exSave ex d cs v x = (r, x') \<Longrightarrow> ok x' \<and> log x' d' = log x d'"
begin

definition batchView :: "(int \<times> queuedOperation list) list \<Rightarrow> int \<Rightarrow> 'a list" where
  "batchView bs d = (case map_of bs d of None \<Rightarrow> []
     | Some qs \<Rightarrow> map view (map (\<lambda>q. \<lparr>writeUser = queuedUser q, writeOp = queuedOp q\<rparr>) qs))"

lemma flushBatches_log:
  "ok x \<Longrightarrow> distinct (map fst bs) \<Longrightarrow> flushBatches ex bs err0 x = (err, x') \<Longrightarrow>
   ok x' \<and> (err = None \<longrightarrow> err0 = None)
   \<and> (\<exists>ys. subseq ys (batchView bs d) \<and> log x' d = log x d @ ys \<and> (err = None \<longrightarrow> ys = batchView bs d))"
proof (induction bs arbitrary: err0 x)
  case (Cons b bs)
  obtain k qs where b: "b = (k, qs)" by (cases b)
  let ?ws = "map (\<lambda>q. \<lparr>writeUser = queuedUser q, writeOp = queuedOp q\<rparr>) qs"
  obtain e1 x1 where x1: "batch k ?ws x = (e1, x1)" by (cases "batch k ?ws x")
  have run: "flushBatches ex bs (if err0 = None then e1 else err0) x1 = (err, x')"
    using Cons.prems(3) x1 by (simp add: b writeBatch_def batch_of)
  have one: "ok x1" "log x1 d = log x d @ (if d = k \<and> e1 = None then map view ?ws else [])"
    using batch_ok [OF Cons.prems(1), of k ?ws x1 d] batch_fail [OF Cons.prems(1), of k ?ws _ x1 d] x1
    by (cases e1; auto)+
  have IH: "ok x'" "err = None \<longrightarrow> (if err0 = None then e1 else err0) = None"
    using Cons.IH [OF one(1) _ run] Cons.prems(2) by (simp_all add: b)
  obtain ys where ys: "subseq ys (batchView bs d)" "log x' d = log x1 d @ ys" "err = None \<longrightarrow> ys = batchView bs d"
    using Cons.IH [OF one(1) _ run] Cons.prems(2) by (auto simp: b)
  show ?case
  proof (cases "d = k")
    case True
    then have "map_of bs d = None" using Cons.prems(2) by (auto simp: b map_of_eq_None_iff)
    then have "ys = []" "batchView (b # bs) d = map view ?ws"
      using ys(1) True by (simp_all add: batchView_def b)
    then show ?thesis using IH ys(2) one(2) True by (auto split: if_splits)
  next
    case False
    then have "batchView (b # bs) d = batchView bs d" by (simp add: batchView_def b)
    then show ?thesis using IH ys one(2) False by (auto split: if_splits)
  qed
qed (simp add: batchView_def)

lemma saveSnapshotJobs_log:
  "ok (executor w) \<Longrightarrow> saveSnapshotJobs ex ss err0 w = (err, w') \<Longrightarrow>
   ok (executor w') \<and> log (executor w') d = log (executor w) d"
proof (induction ss arbitrary: err0 w)
  case (Cons s ss)
  obtain e1 w1 where w1: "saveSnapshotJob ex s w = (e1, w1)" by (cases "saveSnapshotJob ex s w")
  obtain r x where x: "exSave ex (snapDocument s) (snapChars s) (snapVersion s) (executor w) = (r, x)"
    by (cases "exSave ex (snapDocument s) (snapChars s) (snapVersion s) (executor w)")
  have "executor w1 = x"
    using w1 x by (auto simp: saveSnapshotJob_def Let_def split: option.splits if_splits)
  then show ?case using Cons.IH [of w1] Cons.prems save_keeps [OF Cons.prems(1) x, of d] w1 by simp
qed simp

text \<open>
  The invariant of a run: for every document the operations accepted so far are those handed to
  the executor, those pending and those queued, in this order; the log holds a subsequence of
  the first, all of them when no write has failed.
\<close>

definition runInv :: "'x \<Rightarrow> (int \<times> OperationWrite) list \<Rightarrow> ('x, 'e) Writer \<Rightarrow> bool" where
  "runInv x0 acc w \<longleftrightarrow> ok (executor w) \<and> wfPending w
     \<and> (\<forall>d. \<exists>done ys. acceptedOf acc d = done @ pendingWrites w d @ queuedWrites w d
          \<and> log (executor w) d = log x0 d @ ys \<and> subseq ys (map view done)
          \<and> (writeErrors w = [] \<longrightarrow> ys = map view done))"

lemma runInv_producer:
  assumes inv: "runInv x0 acc w" and same: "sameGoroutine w w'"
    and grow: "\<And>d. \<exists>new. acceptedOf acc' d = acceptedOf acc d @ new \<and> queuedWrites w' d = queuedWrites w d @ new"
  shows "runInv x0 acc' w'"
proof -
  have "\<exists>done ys. acceptedOf acc' d = done @ pendingWrites w' d @ queuedWrites w' d
      \<and> log (executor w') d = log x0 d @ ys \<and> subseq ys (map view done)
      \<and> (writeErrors w' = [] \<longrightarrow> ys = map view done)" for d
  proof -
    obtain new where new: "acceptedOf acc' d = acceptedOf acc d @ new" "queuedWrites w' d = queuedWrites w d @ new"
      using grow by blast
    obtain dn ys where "acceptedOf acc d = dn @ pendingWrites w d @ queuedWrites w d"
        "log (executor w) d = log x0 d @ ys" "subseq ys (map view dn)" "writeErrors w = [] \<longrightarrow> ys = map view dn"
      using inv unfolding runInv_def by blast
    then show ?thesis
      using new same sameGoroutine_pending [OF same, of d]
      by (intro exI [of _ dn] exI [of _ ys]) (simp add: sameGoroutine_def)
  qed
  then show ?thesis
    using inv same sameGoroutine_pending [OF same] by (simp add: runInv_def sameGoroutine_def)
qed

lemma runInv_producer':
  assumes "runInv x0 acc w" "executor w' = executor w" "pendingOps w' = pendingOps w"
    "pendingCount w' = pendingCount w" "jobs w' = jobs w" "writeErrors w' = writeErrors w"
  shows "runInv x0 acc w'"
  using assms by (simp add: runInv_def wfPending_def pendingWrites_def queuedWrites_def)

lemma runInv_flush:
  assumes inv: "runInv x0 acc w" and fl: "flush ex w = (err, w')"
  shows "runInv x0 acc w' \<and> pendingWrites w' d = []"
proof (cases "pendingCount w = 0")
  case True
  then show ?thesis using inv fl wfPending_zero [of w d] by (auto simp: flush_def runInv_def)
next
  case False
  obtain e x where fb: "flushBatches ex (pendingOps w) None (executor w) = (e, x)"
    by (cases "flushBatches ex (pendingOps w) None (executor w)")
  have w': "executor w' = x" "pendingOps w' = []" "e = err"
    using fl False fb by (auto simp: flush_def Let_def split: if_splits)
  note fr = flush_frame [OF fl]
  have ok: "ok (executor w)" "distinct (map fst (pendingOps w))" and wf: "wfPending w"
    using inv by (auto simp: runInv_def wfPending_def)
  have "\<exists>done ys. acceptedOf acc d = done @ pendingWrites w' d @ queuedWrites w' d
      \<and> log (executor w') d = log x0 d @ ys \<and> subseq ys (map view done)
      \<and> (writeErrors w' = [] \<longrightarrow> ys = map view done)" for d
  proof -
    obtain dn ys where d: "acceptedOf acc d = dn @ pendingWrites w d @ queuedWrites w d"
        "log (executor w) d = log x0 d @ ys" "subseq ys (map view dn)" "writeErrors w = [] \<longrightarrow> ys = map view dn"
      using inv unfolding runInv_def by blast
    obtain zs where z: "subseq zs (batchView (pendingOps w) d)" "log x d = log (executor w) d @ zs"
        "err = None \<longrightarrow> zs = batchView (pendingOps w) d"
      using flushBatches_log [OF ok fb, of d] w'(3) by blast
    have bv: "batchView (pendingOps w) d = map view (pendingWrites w d)"
      by (simp add: batchView_def pendingWrites_def split: option.splits)
    have "subseq (ys @ zs) (map view (dn @ pendingWrites w d))"
      using d(3) z(1) bv by (simp add: list_emb_append_mono)
    then show ?thesis
      using d z fr w' bv
      by (intro exI [of _ "dn @ pendingWrites w d"] exI [of _ "ys @ zs"])
        (auto simp: pendingWrites_def queuedWrites_def optList_def split: option.splits)
  qed
  moreover have "ok x" using flushBatches_log [OF ok fb] by blast
  ultimately show ?thesis using w' fr wf by (simp add: runInv_def pendingWrites_def)
qed

lemma runInv_flushSnapshots:
  assumes inv: "runInv x0 acc w" and fl: "flushSnapshots ex w = (err, w')"
  shows "runInv x0 acc w' \<and> pendingWrites w' d = pendingWrites w d"
proof -
  obtain ss w1 where t: "takeSnapshots w = (ss, w1)" by (cases "takeSnapshots w")
  obtain e w2 where j: "saveSnapshotJobs ex ss None w1 = (e, w2)" by (cases "saveSnapshotJobs ex ss None w1")
  have w1: "executor w1 = executor w" using t by (auto simp: takeSnapshots_def)
  have w': "executor w' = executor w2" using fl t j by (auto simp: flushSnapshots_def)
  have lg: "ok (executor w')" "log (executor w') d = log (executor w) d" for d
    using saveSnapshotJobs_log [OF _ j, of d] inv w1 w' by (auto simp: runInv_def)
  note fr = flushSnapshots_frame [OF fl]
  have "pendingWrites w' d = pendingWrites w d" "queuedWrites w' d = queuedWrites w d" for d
    using fr by (simp_all add: pendingWrites_def queuedWrites_def)
  moreover have "wfPending w'" using inv fr by (simp add: runInv_def wfPending_def)
  moreover have "writeErrors w' = [] \<Longrightarrow> writeErrors w = []" using fr by simp
  ultimately show ?thesis using inv lg unfolding runInv_def by metis
qed

lemma runInv_flushAll:
  assumes "runInv x0 acc w" "flushAll ex w = (errs, w')"
  shows "runInv x0 acc w' \<and> pendingWrites w' d = [] \<and> pendingSnapshot w' = [] \<and> jobs w' = jobs w
    \<and> responses w' = responses w \<and> writeErrors w' = writeErrors w @ errs"
proof -
  obtain e1 w1 where w1: "flush ex (w\<lparr>timerActive := False\<rparr>) = (e1, w1)" by (cases "flush ex (w\<lparr>timerActive := False\<rparr>)")
  obtain e2 w2 where w2: "flushSnapshots ex w1 = (e2, w2)" by (cases "flushSnapshots ex w1")
  have w': "w' = w2" "errs = optList e1 @ optList e2" using assms(2) w1 w2 by (auto simp: flushAll_def)
  have "runInv x0 acc (w\<lparr>timerActive := False\<rparr>)"
    by (rule runInv_producer' [OF assms(1)]) simp_all
  then have "runInv x0 acc w1" "pendingWrites w1 d = []" using runInv_flush [OF _ w1] by blast+
  then show ?thesis
    using runInv_flushSnapshots [OF _ w2, of x0 acc d] flushSnapshots_frame [OF w2] flush_frame [OF w1] w' by simp
qed

lemma runInv_barrierJob:
  assumes inv: "runInv x0 acc w" and job: "jobs w = job # rest" and "jobKind job \<noteq> writerOperations"
    and fl: "flushAll ex (observeQueueDepth (w\<lparr>jobs := rest\<rparr>)) = (errs, w')"
  shows "runInv x0 acc (respond r errs w')" "runInv x0 acc ((respond r errs (w'\<lparr>writerClosed := True\<rparr>))\<lparr>doneWriter := True\<rparr>)"
proof -
  have "runInv x0 acc (observeQueueDepth (w\<lparr>jobs := rest\<rparr>))"
    using inv job assms(3) by (simp add: runInv_def wfPending_def pendingWrites_def queuedWrites_def jobWrites_def)
  then have "runInv x0 acc w'" using runInv_flushAll [OF _ fl] by blast
  then show "runInv x0 acc (respond r errs w')" "runInv x0 acc ((respond r errs (w'\<lparr>writerClosed := True\<rparr>))\<lparr>doneWriter := True\<rparr>)"
    by (rule runInv_producer'; simp)+
qed

lemma runInv_handleJob:
  assumes inv: "runInv x0 acc w" and job: "jobs w = job # rest"
  shows "runInv x0 acc (handleJob ex job (w\<lparr>jobs := rest\<rparr>))"
proof (cases "jobKind job")
  case writerOperations
  let ?w = "observeQueueDepth (w\<lparr>jobs := rest\<rparr>)"
  let ?w1 = "(addPending (jobDocument job) (jobUser job) (jobOps job) ?w)\<lparr>timerActive := True\<rparr>"
  have wf: "wfPending ?w" using inv by (simp add: runInv_def wfPending_def)
  have pend: "pendingWrites ?w1 d @ queuedWrites ?w1 d = pendingWrites w d @ queuedWrites w d" for d
    using addPending_spec [OF wf, of "jobDocument job" "jobUser job" "jobOps job" d] job writerOperations
    by (simp add: pendingWrites_def queuedWrites_def jobWrites_def)
  have "wfPending ?w1"
    using addPending_spec [OF wf, of "jobDocument job" "jobUser job" "jobOps job"] by (simp add: wfPending_def)
  then have inv1: "runInv x0 acc ?w1"
    using inv pend unfolding runInv_def by simp
  then have "runInv x0 acc (?w1\<lparr>timerActive := False\<rparr>)" by (rule runInv_producer') simp_all
  then have "runInv x0 acc (snd (flush ex (?w1\<lparr>timerActive := False\<rparr>)))"
    using runInv_flush [OF _ surjective_pairing] by blast
  then show ?thesis using inv1 writerOperations by (simp add: handleJob_def Let_def)
qed (use runInv_barrierJob [OF inv job] in \<open>auto simp: handleJob_def Let_def split: prod.splits\<close>)

lemma runInv_run:
  assumes run: "writer_run ex w0 acc n w" and init: "runInv (executor w0) [] w0"
  shows "runInv (executor w0) acc w"
  using run
proof induction
  case start
  then show ?case using init .
next
  case (enqueue acc n w d user ops ok w')
  show ?case
  proof (rule runInv_producer [OF enqueue.IH])
    show "sameGoroutine w w'" using enqueue_producer [OF enqueue.hyps(2)] by blast
    show "\<exists>new. acceptedOf (if ok then acc @ map (Pair d) (writesOf user ops) else acc) d'
        = acceptedOf acc d' @ new \<and> queuedWrites w' d' = queuedWrites w d' @ new" for d'
      using enqueue_producer [OF enqueue.hyps(2), of d']
      by (auto simp: acceptedOf_def filter_map comp_def)
  qed
next
  case (register acc n w d cs v should w')
  have "sameGoroutine w w'" "jobs w' = jobs w" using register_producer [OF register.hyps(3)] by auto
  then show ?case by (intro runInv_producer [OF register.IH]) (simp_all add: queuedWrites_def)
next
  case (signal acc n w ok w')
  show ?case using signal_producer [OF signal.hyps(2)] by (intro runInv_producer [OF signal.IH]) auto
next
  case (barrier acc n w job cancelled res w')
  show ?case using barrier_producer [OF barrier.hyps(3,2)] by (intro runInv_producer [OF barrier.IH]) auto
next
  case (receive acc n w w')
  then show ?case by (auto simp: receiveJob_def split: if_splits list.splits intro: runInv_handleJob)
next
  case (timer acc n w)
  have "runInv (executor w0) acc (w\<lparr>timerActive := False\<rparr>)" by (rule runInv_producer' [OF timer.IH]) simp_all
  then show ?case using runInv_flush [OF _ surjective_pairing] unfolding timerFired_def by blast
qed

end

end
