(* ===== verification/Writer_Theorems.thy ===== *)
theory Writer_Theorems
  imports Writer_Log
begin

text \<open>
  The properties of the write-behind queue over the SQLite store: order and completeness of the
  log, barriers, bounds, and the window between two snapshots that compaction relies on.
\<close>

section \<open>The store as an executor\<close>

text \<open>The \<open>n\<close>-th call meets the failures and the time stamp \<open>env n\<close>.\<close>

definition storeResult :: "nat \<Rightarrow> (store_error + unit) \<times> Store \<Rightarrow> store_error option \<times> (Store \<times> nat)" where
  "storeResult n r = (case r of (Inl e, s) \<Rightarrow> (Some e, (s, Suc n)) | (Inr _, s) \<Rightarrow> (None, (s, Suc n)))"

definition storeBatch ::
  "(nat \<Rightarrow> db_faults \<times> string) \<Rightarrow> int \<Rightarrow> OperationWrite list \<Rightarrow> Store \<times> nat \<Rightarrow> store_error option \<times> (Store \<times> nat)" where
  "storeBatch env d ws x =
     (case x of (s, n) \<Rightarrow> storeResult n (AppendOperationBatch (fst (env n)) (snd (env n)) d ws s))"

definition storeExecutor :: "(nat \<Rightarrow> db_faults \<times> string) \<Rightarrow> (Store \<times> nat, store_error) WriterExecutor" where
  "storeExecutor env =
     \<lparr>exBatch = Some (storeBatch env),
      exAppend = (\<lambda>d ops (s, n). storeResult n (AppendOperations (fst (env n)) (snd (env n)) d ops s)),
      exSave = (\<lambda>d cs v (s, n). storeResult n (SaveSnapshot (fst (env n)) (snd (env n)) d cs v s))\<rparr>"

definition storeLog :: "Store \<times> nat \<Rightarrow> int \<Rightarrow> (int \<times> Operation) list" where
  "storeLog x = documentLog (tables (fst x))"

definition attributed :: "OperationWrite \<Rightarrow> int \<times> Operation" where
  "attributed w = (writer_of w, writeOp w)"

definition storeOk :: "Store \<times> nat \<Rightarrow> bool" where
  "storeOk x \<longleftrightarrow> wfTables (tables (fst x))"

lemma storeBatch_log:
  assumes "storeOk x" "storeBatch env d ws x = (e, x')"
  shows "storeOk x' \<and> storeLog x' d' = storeLog x d' @ (if e = None \<and> d' = d then map attributed ws else [])"
proof -
  obtain s n where x: "x = (s, n)" by (cases x)
  have wf: "wfTables (tables s)" using assms(1) by (simp add: storeOk_def x)
  show ?thesis
    using AppendOperationBatch_cases [OF wf, of "fst (env n)" "snd (env n)" d ws] assms(2) wf
      appended_wf [OF wf, of ws d "snd (env n)"]
    by (auto simp: x storeBatch_def storeResult_def storeOk_def storeLog_def documentLog_appended attributed_def)
qed

interpretation storelog: durable_log "storeExecutor env" "storeBatch env" storeLog attributed storeOk for env
proof
  show "exBatch (storeExecutor env) = Some (storeBatch env)" by (simp add: storeExecutor_def)
  show "storeOk x' \<and> storeLog x' d' = storeLog x d' @ (if d' = d then map attributed ws else [])"
    if "storeOk x" "storeBatch env d ws x = (None, x')" for x d ws x' d'
    using storeBatch_log [OF that, of d'] by simp
  show "storeOk x' \<and> storeLog x' d' = storeLog x d'"
    if "storeOk x" "storeBatch env d ws x = (Some e, x')" for x d ws e x' d'
    using storeBatch_log [OF that, of d'] by simp
  show "storeOk x' \<and> storeLog x' d' = storeLog x d'"
    if "storeOk x" "exSave (storeExecutor env) d cs v x = (r, x')" for x d cs v r x' d'
  proof -
    obtain s n where x: "x = (s, n)" by (cases x)
    obtain res s' where save: "SaveSnapshot (fst (env n)) (snd (env n)) d cs v s = (res, s')"
      by (cases "SaveSnapshot (fst (env n)) (snd (env n)) d cs v s")
    have "x' = (s', Suc n)"
      using that(2) save by (auto simp: storeExecutor_def storeResult_def x split: sum.splits)
    then show ?thesis
      using SaveSnapshot_effect [OF _ save] that(1) by (simp add: storeOk_def storeLog_def x)
  qed
qed

lemma new_writer [simp]:
  "executor (NewWriterWithConfig x obs c) = x" "pendingOps (NewWriterWithConfig x obs c) = []"
  "pendingCount (NewWriterWithConfig x obs c) = 0" "jobs (NewWriterWithConfig x obs c) = []"
  "writeErrors (NewWriterWithConfig x obs c) = []" "notified (NewWriterWithConfig x obs c) = []"
  "savedSnapshots (NewWriterWithConfig x obs c) = []" "previousSnapshotTombs (NewWriterWithConfig x obs c) = []"
  by (simp_all add: NewWriterWithConfig_def Let_def)

lemma store_run:
  assumes "wfTables (tables s)" "writer_run (storeExecutor env) (NewWriterWithConfig (s, k) obs c) acc n w"
  shows "storelog.runInv (s, k) acc w"
proof -
  have "storelog.runInv (s, k) [] (NewWriterWithConfig (s, k) obs c)"
    using assms(1) by (simp add: storelog.runInv_def storeOk_def wfPending_def acceptedOf_def pendingWrites_def queuedWrites_def)
  then show ?thesis using storelog.runInv_run [OF assms(2)] by simp
qed

section \<open>Bounds\<close>

definition boundInv :: "('x, 'e) Writer \<Rightarrow> bool" where
  "boundInv w \<longleftrightarrow> 0 < OperationBatchSize (config w) \<and> 0 < QueueSize (config w)
     \<and> int (length (jobs w)) \<le> QueueSize (config w)
     \<and> wfPending w \<and> 0 \<le> pendingCount w \<and> pendingCount w < OperationBatchSize (config w)
     \<and> (0 < pendingCount w \<longrightarrow> timerActive w)"

lemma boundInv_producer:
  "boundInv w \<Longrightarrow> sameGoroutine w w' \<Longrightarrow>
   (int (length (jobs w)) \<le> QueueSize (config w) \<longrightarrow> int (length (jobs w')) \<le> QueueSize (config w)) \<Longrightarrow> boundInv w'"
  by (simp add: boundInv_def sameGoroutine_def wfPending_def)

lemma boundInv_flush:
  assumes "0 < OperationBatchSize (config w)" "0 < QueueSize (config w)"
    "int (length (jobs w)) \<le> QueueSize (config w)" "wfPending w" "flush ex w = (err, w')"
  shows "boundInv w'"
  using flush_frame [OF assms(5)] assms by (simp add: boundInv_def)

lemma boundInv_flushAll:
  assumes "boundInv w" "flushAll ex w = (errs, w')"
  shows "boundInv w'"
proof -
  obtain e1 w1 where w1: "flush ex (w\<lparr>timerActive := False\<rparr>) = (e1, w1)" by (cases "flush ex (w\<lparr>timerActive := False\<rparr>)")
  obtain e2 w2 where w2: "flushSnapshots ex w1 = (e2, w2)" by (cases "flushSnapshots ex w1")
  have "boundInv w1" using assms(1) boundInv_flush [OF _ _ _ _ w1] by (simp add: boundInv_def wfPending_def)
  then have "boundInv w2" using flushSnapshots_frame [OF w2] by (simp add: boundInv_def wfPending_def)
  moreover have "w' = w2" using assms(2) w1 w2 by (auto simp: flushAll_def)
  ultimately show ?thesis by simp
qed

lemma boundInv_barrierJob:
  assumes inv: "boundInv w" and job: "jobs w = job # rest"
    and fl: "flushAll ex (observeQueueDepth (w\<lparr>jobs := rest\<rparr>)) = (errs, w')"
  shows "boundInv (respond r errs w')" "boundInv ((respond r errs (w'\<lparr>writerClosed := True\<rparr>))\<lparr>doneWriter := True\<rparr>)"
proof -
  have "boundInv (observeQueueDepth (w\<lparr>jobs := rest\<rparr>))" using inv job by (simp add: boundInv_def wfPending_def)
  then have "boundInv w'" using fl by (rule boundInv_flushAll)
  then show "boundInv (respond r errs w')" "boundInv ((respond r errs (w'\<lparr>writerClosed := True\<rparr>))\<lparr>doneWriter := True\<rparr>)"
    by (simp_all add: boundInv_def wfPending_def)
qed

lemma boundInv_handleJob:
  assumes inv: "boundInv w" and job: "jobs w = job # rest"
  shows "boundInv (handleJob ex job (w\<lparr>jobs := rest\<rparr>))"
proof (cases "jobKind job")
  case writerOperations
  let ?w = "observeQueueDepth (w\<lparr>jobs := rest\<rparr>)"
  let ?w1 = "(addPending (jobDocument job) (jobUser job) (jobOps job) ?w)\<lparr>timerActive := True\<rparr>"
  have wf: "wfPending ?w" using inv by (simp add: boundInv_def wfPending_def)
  have wf1: "wfPending ?w1"
    using addPending_spec [OF wf, of "jobDocument job" "jobUser job" "jobOps job"] by (simp add: wfPending_def)
  show ?thesis
  proof (cases "pendingCount ?w1 \<ge> OperationBatchSize (config ?w1)")
    case True
    have "boundInv (snd (flush ex (?w1\<lparr>timerActive := False\<rparr>)))"
      by (rule boundInv_flush [OF _ _ _ _ surjective_pairing])
        (use inv job wf1 in \<open>auto simp: boundInv_def wfPending_def\<close>)
    then show ?thesis using True writerOperations by (simp add: handleJob_def Let_def)
  next
    case False
    moreover have "0 \<le> pendingCount ?w1" using wf1 by (simp add: wfPending_def)
    ultimately show ?thesis
      using inv job wf1 writerOperations by (simp add: handleJob_def Let_def boundInv_def)
  qed
qed (use boundInv_barrierJob [OF inv job] in \<open>auto simp: handleJob_def Let_def split: prod.splits\<close>)

lemma boundInv_run:
  assumes "writer_run ex (NewWriterWithConfig x obs c) acc n w"
  shows "boundInv w"
  using assms
proof induction
  case start
  show ?case
    by (simp add: boundInv_def wfPending_def NewWriterWithConfig_def Let_def defaultWriterConfig_def
        DefaultOperationBatchSize_def DefaultWriterQueueSize_def)
next
  case (enqueue acc n w d user ops ok w')
  then show ?case using boundInv_producer enqueue_producer [OF enqueue.hyps(2)] by blast
next
  case (register acc n w d cs v should w')
  then show ?case using boundInv_producer register_producer [OF register.hyps(3)] by metis
next
  case (signal acc n w ok w')
  then show ?case using boundInv_producer signal_producer [OF signal.hyps(2)] by blast
next
  case (barrier acc n w job cancelled res w')
  then show ?case using boundInv_producer barrier_producer [OF barrier.hyps(3,2)] by blast
next
  case (receive acc n w w')
  then show ?case by (auto simp: receiveJob_def split: if_splits list.splits intro: boundInv_handleJob)
next
  case (timer acc n w)
  then show ?case unfolding timerFired_def
    by (intro boundInv_flush [OF _ _ _ _ surjective_pairing]) (simp_all add: boundInv_def wfPending_def)
qed

section \<open>The window between two snapshots\<close>

text \<open>The last snapshot of a document that was saved.\<close>

definition lastSaved :: "snapshotJob list \<Rightarrow> int \<Rightarrow> snapshotJob option" where
  "lastSaved ss d = (let xs = filter (\<lambda>s. snapDocument s = d) ss in if xs = [] then None else Some (last xs))"

lemma lastSaved_snoc: "lastSaved (ss @ [s]) d = (if snapDocument s = d then Some s else lastSaved ss d)"
  by (simp add: lastSaved_def)

definition windowInv :: "('x, 'e) Writer \<Rightarrow> bool" where
  "windowInv w \<longleftrightarrow>
     (\<forall>d. tombsOf (previousSnapshotTombs w) d =
        (case lastSaved (savedSnapshots w) d of None \<Rightarrow> [] | Some s \<Rightarrow> tombstoneIDs (snapChars s)))
   \<and> (\<forall>c \<in> set (notified w). \<exists>before s' after s. savedSnapshots w = before @ s' # after
        \<and> snapDocument s' = savedDocument c \<and> savedVersion c = snapVersion s'
        \<and> lastSaved before (savedDocument c) = Some s \<and> savedTombs c = tombstoneIDs (snapChars s))"

lemma windowInv_frame:
  "windowInv w \<Longrightarrow> notified w' = notified w \<Longrightarrow> savedSnapshots w' = savedSnapshots w \<Longrightarrow>
   previousSnapshotTombs w' = previousSnapshotTombs w \<Longrightarrow> windowInv w'"
  by (simp add: windowInv_def)

lemma windowInv_save:
  assumes inv: "windowInv w" and save: "saveSnapshotJob ex s w = (err, w')"
  shows "windowInv w'"
proof -
  obtain e x where x: "exSave ex (snapDocument s) (snapChars s) (snapVersion s) (executor w) = (e, x)"
    by (cases "exSave ex (snapDocument s) (snapChars s) (snapVersion s) (executor w)")
  show ?thesis
  proof (cases e)
    case (Some e')
    then show ?thesis using save x by (auto simp: saveSnapshotJob_def intro: windowInv_frame [OF inv])
  next
    case None
    let ?d = "snapDocument s"
    let ?prev = "tombsOf (previousSnapshotTombs w) ?d"
    let ?call = "\<lparr>savedDocument = ?d, savedTombs = ?prev, savedVersion = snapVersion s\<rparr>"
    have saved: "savedSnapshots w' = savedSnapshots w @ [s]"
      and prev: "previousSnapshotTombs w' = AList.update ?d (tombstoneIDs (snapChars s)) (previousSnapshotTombs w)"
      and told: "notified w' = notified w \<or> (notified w' = notified w @ [?call] \<and> ?prev \<noteq> [])"
      using save x None by (auto simp: saveSnapshotJob_def Let_def split: if_splits)
    have A: "tombsOf (previousSnapshotTombs w') d =
        (case lastSaved (savedSnapshots w') d of None \<Rightarrow> [] | Some s \<Rightarrow> tombstoneIDs (snapChars s))" for d
      using inv by (auto simp: windowInv_def saved prev lastSaved_snoc tombsOf_def)
    have old: "\<exists>before s' after s2. savedSnapshots w' = before @ s' # after
        \<and> snapDocument s' = savedDocument c \<and> savedVersion c = snapVersion s'
        \<and> lastSaved before (savedDocument c) = Some s2 \<and> savedTombs c = tombstoneIDs (snapChars s2)"
      if c: "c \<in> set (notified w)" for c
    proof -
      obtain before s' after s2 where "savedSnapshots w = before @ s' # after"
          "snapDocument s' = savedDocument c" "savedVersion c = snapVersion s'"
          "lastSaved before (savedDocument c) = Some s2" "savedTombs c = tombstoneIDs (snapChars s2)"
        using inv c unfolding windowInv_def by blast
      then show ?thesis
        by (intro exI [of _ before] exI [of _ s'] exI [of _ "after @ [s]"] exI [of _ s2]) (simp add: saved)
    qed
    have new: "\<exists>before s' after s2. savedSnapshots w' = before @ s' # after
        \<and> snapDocument s' = savedDocument ?call \<and> savedVersion ?call = snapVersion s'
        \<and> lastSaved before (savedDocument ?call) = Some s2 \<and> savedTombs ?call = tombstoneIDs (snapChars s2)"
      if ne: "?prev \<noteq> []"
    proof -
      obtain s2 where "lastSaved (savedSnapshots w) ?d = Some s2" "?prev = tombstoneIDs (snapChars s2)"
        using inv ne by (auto simp: windowInv_def split: option.splits)
      then show ?thesis
        by (intro exI [of _ "savedSnapshots w"] exI [of _ s] exI [of _ "[]"] exI [of _ s2]) (simp add: saved)
    qed
    show ?thesis
      unfolding windowInv_def
    proof (intro conjI allI ballI)
      fix c assume "c \<in> set (notified w')"
      then consider "c \<in> set (notified w)" | "c = ?call" "?prev \<noteq> []" using told by auto
      then show "\<exists>before s' after s. savedSnapshots w' = before @ s' # after
        \<and> snapDocument s' = savedDocument c \<and> savedVersion c = snapVersion s'
        \<and> lastSaved before (savedDocument c) = Some s \<and> savedTombs c = tombstoneIDs (snapChars s)"
        by cases (use old new in blast)+
    qed (rule A)
  qed
qed


lemma windowInv_saves: "windowInv w \<Longrightarrow> saveSnapshotJobs ex ss err0 w = (err, w') \<Longrightarrow> windowInv w'"
proof (induction ss arbitrary: err0 w)
  case (Cons s ss)
  obtain e1 w1 where w1: "saveSnapshotJob ex s w = (e1, w1)" by (cases "saveSnapshotJob ex s w")
  then show ?case using Cons.IH [OF windowInv_save [OF Cons.prems(1) w1]] Cons.prems(2) by simp
qed simp

lemma windowInv_flush: "windowInv w \<Longrightarrow> flush ex w = (err, w') \<Longrightarrow> windowInv w'"
  using flush_frame [of ex w err w'] by (auto intro: windowInv_frame)

lemma windowInv_flushAll:
  assumes "windowInv w" "flushAll ex w = (errs, w')"
  shows "windowInv w'"
proof -
  obtain e1 w1 where w1: "flush ex (w\<lparr>timerActive := False\<rparr>) = (e1, w1)" by (cases "flush ex (w\<lparr>timerActive := False\<rparr>)")
  obtain ss w2 where w2: "takeSnapshots w1 = (ss, w2)" by (cases "takeSnapshots w1")
  obtain e2 w3 where w3: "saveSnapshotJobs ex ss None w2 = (e2, w3)" by (cases "saveSnapshotJobs ex ss None w2")
  have "windowInv (w\<lparr>timerActive := False\<rparr>)" by (rule windowInv_frame [OF assms(1)]) simp_all
  then have "windowInv w1" using w1 by (rule windowInv_flush)
  then have "windowInv w2" using w2 by (auto simp: takeSnapshots_def intro: windowInv_frame)
  then have "windowInv w3" using w3 by (rule windowInv_saves)
  then have "windowInv (w3\<lparr>writeErrors := es\<rparr>)" for es by (rule windowInv_frame) simp_all
  then show ?thesis using assms(2) by (auto simp: flushAll_def flushSnapshots_def w1 w2 w3)
qed

lemma windowInv_handleJob:
  assumes inv: "windowInv w"
  shows "windowInv (handleJob ex job (w\<lparr>jobs := rest\<rparr>))"
proof -
  let ?w = "observeQueueDepth (w\<lparr>jobs := rest\<rparr>)"
  have w: "windowInv ?w" by (rule windowInv_frame [OF inv]) simp_all
  let ?w1 = "(addPending (jobDocument job) (jobUser job) (jobOps job) ?w)\<lparr>timerActive := True\<rparr>"
  have w1: "windowInv ?w1" by (rule windowInv_frame [OF w]) simp_all
  have "windowInv (?w1\<lparr>timerActive := False\<rparr>)" by (rule windowInv_frame [OF w1]) simp_all
  then have fl: "windowInv (snd (flush ex (?w1\<lparr>timerActive := False\<rparr>)))"
    using surjective_pairing by (rule windowInv_flush)
  obtain errs w2 where w2: "flushAll ex ?w = (errs, w2)" by (cases "flushAll ex ?w")
  have "windowInv w2" using w w2 by (rule windowInv_flushAll)
  then have "windowInv (respond r errs w2)"
    "windowInv ((respond r errs (w2\<lparr>writerClosed := True\<rparr>))\<lparr>doneWriter := True\<rparr>)" for r
    by (rule windowInv_frame; simp)+
  then show ?thesis
    using w1 fl by (cases "jobKind job") (auto simp: handleJob_def Let_def w2)
qed

lemma windowInv_run:
  assumes "writer_run ex (NewWriterWithConfig x obs c) acc n w"
  shows "windowInv w"
  using assms
proof induction
  case start
  show ?case by (simp add: windowInv_def tombsOf_def lastSaved_def)
next
  case (enqueue acc n w d user ops ok w')
  then show ?case using enqueue_producer [OF enqueue.hyps(2)] by (auto simp: sameGoroutine_def intro: windowInv_frame)
next
  case (register acc n w d cs v should w')
  then show ?case using register_producer [OF register.hyps(3)] by (auto simp: sameGoroutine_def intro: windowInv_frame)
next
  case (signal acc n w ok w')
  then show ?case using signal_producer [OF signal.hyps(2)] by (auto simp: sameGoroutine_def intro: windowInv_frame)
next
  case (barrier acc n w job cancelled res w')
  then show ?case using barrier_producer [OF barrier.hyps(3,2)] by (auto simp: sameGoroutine_def intro: windowInv_frame)
next
  case (receive acc n w w')
  then show ?case by (auto simp: receiveJob_def split: if_splits list.splits intro: windowInv_handleJob)
next
  case (timer acc n w)
  have "windowInv (w\<lparr>timerActive := False\<rparr>)" by (rule windowInv_frame [OF timer.IH]) simp_all
  then show ?case unfolding timerFired_def using surjective_pairing by (rule windowInv_flush)
qed

section \<open>After the end of the goroutine\<close>

lemma stopped_run:
  assumes "writer_run ex w0 acc n w" "doneWriter w0"
  shows "doneWriter w \<and> executor w = executor w0"
  using assms
proof induction
  case (enqueue acc n w d user ops ok w')
  then show ?case using enqueue_producer [OF enqueue.hyps(2)] by (simp add: sameGoroutine_def)
next
  case (register acc n w d cs v should w')
  then show ?case using register_producer [OF register.hyps(3)] by (simp add: sameGoroutine_def)
next
  case (signal acc n w ok w')
  then show ?case using signal_producer [OF signal.hyps(2)] by (simp add: sameGoroutine_def)
next
  case (barrier acc n w job cancelled res w')
  then show ?case using barrier_producer [OF barrier.hyps(3,2)] by (simp add: sameGoroutine_def)
qed (auto simp: receiveJob_def)


section \<open>A small run\<close>

definition exampleEnv :: "nat \<Rightarrow> db_faults \<times> string" where
  "exampleEnv n = (noFaults, ''now'')"

definition exampleWriter :: "(Store \<times> nat, store_error) Writer" where
  "exampleWriter = NewWriterWithConfig (exampleStore, 0) True
     \<lparr>QueueSize = 4, OperationBatchSize = 2, OperationFlushDelay = 1, hasObserver = True\<rparr>"

definition exampleQueued :: "(Store \<times> nat, store_error) Writer" where
  "exampleQueued = the (snd (EnqueueOps 1 0 [writeOp exampleWrite] (Some exampleWriter)))"

definition exampleReceived :: "(Store \<times> nat, store_error) Writer" where
  "exampleReceived = the (receiveJob (storeExecutor exampleEnv) exampleQueued)"

lemma example_start:
  "writer_run (storeExecutor exampleEnv) exampleWriter [] 0 exampleWriter"
  by (rule writer_run.start)

lemma example_queued:
  "writer_run (storeExecutor exampleEnv) exampleWriter [(1, exampleWrite)] 0 exampleQueued"
proof -
  have "fst (EnqueueOps 1 0 [writeOp exampleWrite] (Some exampleWriter))" by code_simp
  then have "EnqueueOps 1 0 [writeOp exampleWrite] (Some exampleWriter) = (True, Some exampleQueued)"
    by (auto simp: exampleQueued_def EnqueueOps_def split: if_splits)
  from writer_run.enqueue [OF example_start this] show ?thesis
    by (simp add: writesOf_def exampleWrite_def)
qed

lemma example_received:
  "writer_run (storeExecutor exampleEnv) exampleWriter [(1, exampleWrite)] 0 exampleReceived"
proof -
  have "receiveJob (storeExecutor exampleEnv) exampleQueued = Some exampleReceived"
    by (simp add: exampleReceived_def receiveJob_def exampleQueued_def EnqueueOps_def exampleWriter_def
        NewWriterWithConfig_def queueFull_def)
  with example_queued show ?thesis by (rule writer_run.receive)
qed

section \<open>Properties\<close>

text \<open>
  C24. The writer keeps the order of operations and loses none by itself. At every moment of
  every run, for every document, the operations accepted so far are those handed to the store,
  then those pending, then those queued; the log in the database grew by a subsequence of the
  first, and by all of them when no write has failed.
\<close>

theorem writer_keeps_order:
  assumes "wfTables (tables s)"
    and "writer_run (storeExecutor env) (NewWriterWithConfig (s, k) obs c) acc n w"
  shows "wfTables (tables (fst (executor w)))
    \<and> (\<exists>written logged. acceptedOf acc d = written @ pendingWrites w d @ queuedWrites w d
      \<and> documentLog (tables (fst (executor w))) d = documentLog (tables s) d @ logged
      \<and> subseq logged (map (\<lambda>q. (writer_of q, writeOp q)) written)
      \<and> (writeErrors w = [] \<longrightarrow> logged = map (\<lambda>q. (writer_of q, writeOp q)) written))"
  using store_run [OF assms] unfolding storelog.runInv_def
  by (auto simp: storeOk_def storeLog_def attributed_def [abs_def])

theorem writer_keeps_order_witness:
  "\<exists>written. acceptedOf [(1, exampleWrite)] 1 = written @ pendingWrites exampleReceived 1 @ queuedWrites exampleReceived 1"
  using writer_keeps_order [OF _ example_received [unfolded exampleWriter_def], of 1] wfTables_example by auto


definition exampleFlushing :: "(Store \<times> nat, store_error) Writer" where
  "exampleFlushing = snd (the (enqueueBarrier False (flushJob 7) exampleReceived))"


text \<open>
  C26. The queues are bounded and nothing pending is forgotten: at every moment the channel holds
  at most \<open>QueueSize\<close> jobs, fewer than \<open>OperationBatchSize\<close> operations are pending, the counter is
  their exact number, and whenever something is pending the flush timer is armed.
\<close>

theorem writer_bounds:
  assumes "writer_run ex (NewWriterWithConfig x obs c) acc n w"
  shows "int (length (jobs w)) \<le> QueueSize (config w)
    \<and> pendingCount w = int (sum_list (map (length \<circ> snd) (pendingOps w)))
    \<and> pendingCount w < OperationBatchSize (config w)
    \<and> (0 < pendingCount w \<longrightarrow> timerActive w)"
  using boundInv_run [OF assms] by (simp add: boundInv_def wfPending_def)

theorem writer_bounds_witness: "timerActive exampleReceived"
proof -
  have "0 < pendingCount exampleReceived" by code_simp
  then show ?thesis using writer_bounds [OF example_received [unfolded exampleWriter_def]] by blast
qed


text \<open>
  C27. Compaction is only asked for tombstones that survived a full snapshot interval: every
  call of \<open>SnapshotSaved\<close> reports the tombstones of a snapshot that was saved, right before the
  later snapshot of the same document whose version it names was saved as well.
\<close>

theorem compaction_window:
  assumes "writer_run ex (NewWriterWithConfig x obs c) acc n w" "call \<in> set (notified w)"
  shows "\<exists>before s' after s. savedSnapshots w = before @ s' # after
    \<and> snapDocument s' = savedDocument call \<and> snapVersion s' = savedVersion call
    \<and> lastSaved before (savedDocument call) = Some s
    \<and> savedTombs call = map ID (filter Deleted (snapChars s))"
  using windowInv_run [OF assms(1)] assms(2) unfolding windowInv_def tombstoneIDs_def by metis

text \<open>A run that saves two snapshots of a document with one tombstone.\<close>

abbreviation exampleTomb :: crdt_char where
  "exampleTomb \<equiv> \<lparr>ID = CharID ''a'' 1, Value = 65, LeftID = None, RightID = None, Deleted = True\<rparr>"

definition snapRegister :: "int \<Rightarrow> (Store \<times> nat, store_error) Writer \<Rightarrow> (Store \<times> nat, store_error) Writer" where
  "snapRegister v w = snd (registerSnapshot 1 [exampleTomb] v w)"

definition snapSend :: "(Store \<times> nat, store_error) Writer \<Rightarrow> (Store \<times> nat, store_error) Writer" where
  "snapSend w = snd (sendSignal w)"

definition exampleReceive :: "(Store \<times> nat, store_error) Writer \<Rightarrow> (Store \<times> nat, store_error) Writer" where
  "exampleReceive w = the (receiveJob (storeExecutor exampleEnv) w)"

lemma example_snapshot_round:
  assumes "writer_run (storeExecutor exampleEnv) exampleWriter acc 0 w" "\<not> writerClosed w" "\<not> snapshotQueued w"
    and "receiveJob (storeExecutor exampleEnv) (snapSend (snapRegister v w)) \<noteq> None"
  shows "writer_run (storeExecutor exampleEnv) exampleWriter acc 0 (exampleReceive (snapSend (snapRegister v w)))"
proof -
  have "registerSnapshot 1 [exampleTomb] v w = (True, snapRegister v w)"
    using assms(3) by (simp add: snapRegister_def registerSnapshot_def)
  from writer_run.register [OF assms(1,2) this]
  have "writer_run (storeExecutor exampleEnv) exampleWriter acc (Suc 0) (snapRegister v w)" by simp
  from writer_run.signal [OF this]
  have "writer_run (storeExecutor exampleEnv) exampleWriter acc 0 (snapSend (snapRegister v w))"
    by (cases "sendSignal (snapRegister v w)") (simp add: snapSend_def)
  then show ?thesis
    by (rule writer_run.receive) (use assms(4) in \<open>auto simp: exampleReceive_def\<close>)
qed

abbreviation exampleSaved1 :: "(Store \<times> nat, store_error) Writer" where
  "exampleSaved1 \<equiv> exampleReceive (snapSend (snapRegister 0 exampleWriter))"
abbreviation exampleSaved2 :: "(Store \<times> nat, store_error) Writer" where
  "exampleSaved2 \<equiv> exampleReceive (snapSend (snapRegister 3 exampleSaved1))"

theorem compaction_window_witness:
  "\<exists>before s' after s. savedSnapshots exampleSaved2 = before @ s' # after \<and> snapVersion s' = 3
    \<and> lastSaved before 1 = Some s \<and> [CharID ''a'' 1] = map ID (filter Deleted (snapChars s))"
proof -
  have "writer_run (storeExecutor exampleEnv) exampleWriter [] 0 exampleSaved1"
  proof (rule example_snapshot_round [OF example_start])
    show "\<not> writerClosed exampleWriter" "\<not> snapshotQueued exampleWriter" by code_simp+
    have "\<not> doneWriter (snapSend (snapRegister 0 exampleWriter)) \<and> jobs (snapSend (snapRegister 0 exampleWriter)) \<noteq> []"
      by code_simp
    then show "receiveJob (storeExecutor exampleEnv) (snapSend (snapRegister 0 exampleWriter)) \<noteq> None"
      by (auto simp: receiveJob_def split: list.splits)
  qed
  then have "writer_run (storeExecutor exampleEnv) exampleWriter [] 0 exampleSaved2"
  proof (rule example_snapshot_round)
    show "\<not> writerClosed exampleSaved1" "\<not> snapshotQueued exampleSaved1" by code_simp+
    have "\<not> doneWriter (snapSend (snapRegister 3 exampleSaved1)) \<and> jobs (snapSend (snapRegister 3 exampleSaved1)) \<noteq> []"
      by code_simp
    then show "receiveJob (storeExecutor exampleEnv) (snapSend (snapRegister 3 exampleSaved1)) \<noteq> None"
      by (auto simp: receiveJob_def split: list.splits)
  qed
  moreover have "\<lparr>savedDocument = 1, savedTombs = [CharID ''a'' 1], savedVersion = 3\<rparr> \<in> set (notified exampleSaved2)"
    by code_simp
  ultimately show ?thesis
    using compaction_window [where ex = "storeExecutor exampleEnv" and w = exampleSaved2] unfolding exampleWriter_def
    by fastforce
qed

text \<open>
  C28. Operations can be accepted and lost: between the moment \<open>Close\<close> put its job in the queue and
  the moment the goroutine takes it, \<open>EnqueueOps\<close> still answers true, but the goroutine
  ends without taking the jobs behind the barrier, so that no continuation of the run ever writes
  them, although no write failed.
\<close>

theorem accepted_after_close_is_lost:
  "\<exists>acc n w. writer_run (storeExecutor exampleEnv) exampleWriter acc n w
    \<and> acceptedOf acc 1 = [exampleWrite] \<and> writeErrors w = [] \<and> doneWriter w
    \<and> {w'. \<exists>acc' n'. writer_run (storeExecutor exampleEnv) w acc' n' w'}
         \<subseteq> {w'. documentLog (tables (fst (executor w'))) 1 = []}"
proof -
  define w1 where "w1 = snd (the (enqueueBarrier False (closeJob 1) exampleWriter))"
  define w2 where "w2 = the (snd (EnqueueOps 1 0 [writeOp exampleWrite] (Some w1)))"
  define w3 where "w3 = exampleReceive w2"
  have "jobs exampleWriter = []" "\<not> queueFull exampleWriter" "\<not> writerClosed exampleWriter" by code_simp+
  then have b: "enqueueBarrier False (closeJob 1) exampleWriter = Some (Inr (), w1)"
    by (simp add: w1_def enqueueBarrier_def)
  have r1: "writer_run (storeExecutor exampleEnv) exampleWriter [] 0 w1"
    by (rule writer_run.barrier [OF example_start _ b]) (simp add: closeJob_def)
  have "fst (EnqueueOps 1 0 [writeOp exampleWrite] (Some w1))" unfolding w1_def by code_simp
  then have "EnqueueOps 1 0 [writeOp exampleWrite] (Some w1) = (True, Some w2)"
    by (auto simp: w2_def EnqueueOps_def split: if_splits)
  from writer_run.enqueue [OF r1 this]
  have r2: "writer_run (storeExecutor exampleEnv) exampleWriter [(1, exampleWrite)] 0 w2"
    by (simp add: writesOf_def exampleWrite_def)
  have "receiveJob (storeExecutor exampleEnv) w2 = Some w3"
    unfolding w3_def exampleReceive_def w2_def w1_def
    by (simp add: receiveJob_def EnqueueOps_def enqueueBarrier_def exampleWriter_def NewWriterWithConfig_def queueFull_def)
  with r2 have r3: "writer_run (storeExecutor exampleEnv) exampleWriter [(1, exampleWrite)] 0 w3"
    by (rule writer_run.receive)
  have ended: "doneWriter w3" "writeErrors w3 = []" "documentLog (tables (fst (executor w3))) 1 = []"
    unfolding w3_def w2_def w1_def by code_simp+
  have "documentLog (tables (fst (executor w'))) 1 = []"
    if "writer_run (storeExecutor exampleEnv) w3 acc' n' w'" for acc' n' w'
    using stopped_run [OF that ended(1)] ended(3) by simp
  then show ?thesis using r3 ended(1,2)
    by (intro exI [of _ "[(1, exampleWrite)]"] exI [of _ 0] exI [of _ w3]) (auto simp: acceptedOf_def)
qed


end
