(* ===== verification/Writer_Liveness.thy ===== *)
theory Writer_Liveness
  imports Writer_Theorems
begin

text \<open>
  Barriers are answered: the goroutine is never stuck while a job waits, and a \<open>Flush\<close> or
  \<open>Close\<close> job is answered as soon as the goroutine has taken the jobs before it, whatever the
  producers and the timer do meanwhile.
\<close>

section \<open>Interleavings\<close>

text \<open>Steps of everything but the branch of the goroutine that takes a job.\<close>

inductive producer_step :: "('x, 'e) WriterExecutor \<Rightarrow> ('x, 'e) Writer \<Rightarrow> ('x, 'e) Writer \<Rightarrow> bool" for ex where
  "EnqueueOps d user ops (Some w) = (ok, Some w') \<Longrightarrow> producer_step ex w w'"
| "registerSnapshot d cs v w = (should, w') \<Longrightarrow> producer_step ex w w'"
| "sendSignal w = (ok, w') \<Longrightarrow> producer_step ex w w'"
| "enqueueBarrier cancelled job w = Some (res, w') \<Longrightarrow> producer_step ex w w'"
| "producer_step ex w (timerFired ex w)"

text \<open>\<open>writer_steps ex w n w'\<close>: from \<open>w\<close> to \<open>w'\<close>, with \<open>n\<close> jobs taken on the way.\<close>

inductive writer_steps ::
  "('x, 'e) WriterExecutor \<Rightarrow> ('x, 'e) Writer \<Rightarrow> nat \<Rightarrow> ('x, 'e) Writer \<Rightarrow> bool" for ex w where
  none: "writer_steps ex w 0 w"
| other: "writer_steps ex w n w1 \<Longrightarrow> producer_step ex w1 w2 \<Longrightarrow> writer_steps ex w n w2"
| take: "writer_steps ex w n w1 \<Longrightarrow> receiveJob ex w1 = Some w2 \<Longrightarrow> writer_steps ex w (Suc n) w2"

lemma producer_jobs:
  assumes "producer_step ex w w'"
  shows "\<exists>more. jobs w' = jobs w @ more \<and> doneWriter w' = doneWriter w \<and> responses w' = responses w"
  using assms
proof cases
  case 5
  obtain err w1 where "flush ex (w\<lparr>timerActive := False\<rparr>) = (err, w1)" by fastforce
  then show ?thesis using 5 flush_frame [of ex "w\<lparr>timerActive := False\<rparr>" err w1] by (simp add: timerFired_def)
qed (auto simp: EnqueueOps_def registerSnapshot_def sendSignal_def enqueueBarrier_def split: if_splits)

lemma flushAll_frame:
  assumes "flushAll ex w = (errs, w')"
  shows "jobs w' = jobs w \<and> doneWriter w' = doneWriter w \<and> responses w' = responses w"
proof -
  obtain e1 w1 where 1: "flush ex (w\<lparr>timerActive := False\<rparr>) = (e1, w1)" by fastforce
  obtain e2 w2 where 2: "flushSnapshots ex w1 = (e2, w2)" by fastforce
  show ?thesis using assms flush_frame [OF 1] flushSnapshots_frame [OF 2] by (simp add: flushAll_def 1 2)
qed

lemma respond_responses:
  "responses (respond r errs w) = responses w @ (case r of None \<Rightarrow> [] | Some k \<Rightarrow> [(k, errs)])"
  by (simp add: respond_def split: option.splits)

definition answers :: "writerJob \<Rightarrow> (nat \<times> 'e list) list \<Rightarrow> bool" where
  "answers job rs \<longleftrightarrow> (\<forall>k. jobResponse job = Some k \<longrightarrow> k \<in> fst ` set rs)"

lemma handleJob_frame:
  "jobs (handleJob ex job w) = jobs w"
  "jobKind job \<noteq> writerClose \<Longrightarrow> doneWriter (handleJob ex job w) = doneWriter w"
  "\<exists>more. responses (handleJob ex job w) = responses w @ more \<and> (jobKind job \<noteq> writerOperations \<longrightarrow> answers job more)"
proof -
  let ?w = "(addPending (jobDocument job) (jobUser job) (jobOps job) (observeQueueDepth w))\<lparr>timerActive := False\<rparr>"
  obtain err w' where fl: "flush ex ?w = (err, w')" by fastforce
  obtain errs w1 where fa: "flushAll ex (observeQueueDepth w) = (errs, w1)" by fastforce
  note eval = handleJob_def Let_def fl fa respond_responses
  show "jobs (handleJob ex job w) = jobs w"
    using flush_frame [OF fl] flushAll_frame [OF fa] by (cases "jobKind job") (simp_all add: eval)
  show "doneWriter (handleJob ex job w) = doneWriter w" if "jobKind job \<noteq> writerClose"
    using that flush_frame [OF fl] flushAll_frame [OF fa] by (cases "jobKind job") (simp_all add: eval)
  have ops: "responses (handleJob ex job w) = responses w" if "jobKind job = writerOperations"
    using that flush_frame [OF fl] by (simp add: eval)
  have "responses (handleJob ex job w) = responses w @ (case jobResponse job of None \<Rightarrow> [] | Some k \<Rightarrow> [(k, errs)])"
    if "jobKind job \<noteq> writerOperations"
    using that flushAll_frame [OF fa] by (cases "jobKind job") (simp_all add: eval)
  then show "\<exists>more. responses (handleJob ex job w) = responses w @ more \<and> (jobKind job \<noteq> writerOperations \<longrightarrow> answers job more)"
    using ops by (cases "jobKind job = writerOperations") (auto simp: answers_def split: option.splits)
qed

section \<open>Barriers\<close>

lemma barrier_progress:
  assumes "writer_steps ex w n w'" "\<not> doneWriter w" "jobs w = before @ job # after"
    and "\<forall>j \<in> set before. jobKind j \<noteq> writerClose" "jobKind job \<noteq> writerOperations" "jobResponse job = Some k"
  shows "if n \<le> length before then \<not> doneWriter w' \<and> (\<exists>more. jobs w' = drop n before @ job # more)
    else k \<in> fst ` set (responses w')"
  using assms
proof (induction rule: writer_steps.induct)
  case none
  then show ?case by simp
next
  case (other n w1 w2)
  then show ?case using producer_jobs [OF other.hyps(2)] by (auto split: if_splits)
next
  case (take n w1 w2)
  obtain j rest where j: "jobs w1 = j # rest" "w2 = handleJob ex j (w1\<lparr>jobs := rest\<rparr>)"
    using take.hyps(2) by (auto simp: receiveJob_def split: if_splits list.splits)
  note frame = handleJob_frame [where ex = ex and job = j and w = "w1\<lparr>jobs := rest\<rparr>"]
  consider "n < length before" | "n = length before" | "length before < n" by linarith
  then show ?case
  proof cases
    case 1
    then obtain more where more: "jobs w1 = drop n before @ job # more" "\<not> doneWriter w1" using take by auto
    then have "j = before ! n" "rest = drop (Suc n) before @ job # more"
      using 1 j(1) by (simp_all add: Cons_nth_drop_Suc [symmetric])
    then show ?thesis using frame(1,2) 1 take.prems(3) more(2) by (simp add: j(2))
  next
    case 2
    then have "j = job" using take j(1) by auto
    then show ?thesis using frame(3) 2 take.prems(4,5) by (auto simp: j(2) answers_def)
  next
    case 3
    then show ?thesis using take.IH take.prems frame(3) by (auto simp: j(2))
  qed
qed



end
