(* ===== verification/Http.thy ===== *)
theory Http
  imports Json
begin

text \<open>
  Responses of the HTTP handlers, and the two helpers of \<open>net/http\<close> they use. A body is
  a text or a JSON value.
\<close>

datatype http_body = TextBody string | JsonBody json | PageBody string

record http_response =
  statusCode :: nat
  respHeaders :: "(string \<times> string) list"
  respBody :: http_body

definition newline :: string where "newline = [CHR 0x0A]"

definition quote :: string where "quote = [CHR 0x22]"

definition httpError :: "string \<Rightarrow> nat \<Rightarrow> http_response" where
  "httpError message code =
     \<lparr>statusCode = code,
      respHeaders = [(''Content-Type'', ''text/plain; charset=utf-8''), (''X-Content-Type-Options'', ''nosniff'')],
      respBody = TextBody (message @ newline)\<rparr>"

definition httpNotFound :: http_response where
  "httpNotFound = httpError ''404 page not found'' 404"

definition httpJson :: "nat \<Rightarrow> json \<Rightarrow> http_response" where
  "httpJson code j =
     \<lparr>statusCode = code, respHeaders = [(''Content-Type'', ''application/json; charset=utf-8'')], respBody = JsonBody j\<rparr>"

end
