(* ===== verification/Metrics.thy ===== *)
theory Metrics
  imports Complex_Main Http
begin

text \<open>
  \<open>internal/metrics/metrics.go\<close>: gauges as integers, counters as 64-bit words, and
  cumulative histograms. Observed values and bucket bounds (\<open>float64\<close>) are rational
  numbers; the rounding of the running sum is not modelled.
\<close>

section \<open>Histograms\<close>

definition defaultBuckets :: "rat list" where
  "defaultBuckets = [1/1000, 5/1000, 1/100, 25/1000, 5/100, 1/10, 25/100, 1/2, 1, 2, 5]"

record histogram =
  buckets :: "rat list"
  counts :: "u64 list"
  hcount :: u64
  hsum :: rat

definition newHistogram :: histogram where
  "newHistogram =
     \<lparr>buckets = defaultBuckets, counts = replicate (length defaultBuckets) 0, hcount = 0, hsum = 0\<rparr>"

text \<open>The loop of \<open>observe\<close> over the buckets.\<close>

fun bumpBuckets :: "rat \<Rightarrow> rat list \<Rightarrow> nat \<Rightarrow> u64 list \<Rightarrow> u64 list" where
  "bumpBuckets v [] i cs = cs"
| "bumpBuckets v (b # bs) i cs = bumpBuckets v bs (Suc i) (if v \<le> b then cs[i := cs ! i + 1] else cs)"

definition observe :: "rat \<Rightarrow> histogram \<Rightarrow> histogram" where
  "observe v h =
     h\<lparr>hcount := hcount h + 1, hsum := hsum h + v, counts := bumpBuckets v (buckets h) 0 (counts h)\<rparr>"

section \<open>The registry\<close>

record Metrics =
  activeConnections :: int
  activeRooms :: int
  operationsTotal :: u64
  droppedClients :: u64
  tombstonesCompacted :: u64
  queueDropped :: u64
  writeQueueDepth :: int
  broadcastLatency :: histogram
  writeBatchSize :: histogram
  writeBatchLatency :: histogram

definition Metrics_New :: Metrics where
  "Metrics_New =
     \<lparr>activeConnections = 0, activeRooms = 0, operationsTotal = 0, droppedClients = 0,
      tombstonesCompacted = 0, queueDropped = 0, writeQueueDepth = 0, broadcastLatency = newHistogram,
      writeBatchSize = newHistogram, writeBatchLatency = newHistogram\<rparr>"

text \<open>Every method does nothing on a nil receiver.\<close>

definition SetActiveConnections :: "int \<Rightarrow> Metrics option \<Rightarrow> Metrics option" where
  "SetActiveConnections v = map_option (\<lambda>m. m\<lparr>activeConnections := v\<rparr>)"

definition AddActiveConnections :: "int \<Rightarrow> Metrics option \<Rightarrow> Metrics option" where
  "AddActiveConnections delta = map_option (\<lambda>m.
     let v = activeConnections m + delta in m\<lparr>activeConnections := (if v < 0 then 0 else v)\<rparr>)"

definition IncActiveConnections :: "Metrics option \<Rightarrow> Metrics option" where
  "IncActiveConnections = AddActiveConnections 1"

definition DecActiveConnections :: "Metrics option \<Rightarrow> Metrics option" where
  "DecActiveConnections = AddActiveConnections (- 1)"

definition SetActiveRooms :: "int \<Rightarrow> Metrics option \<Rightarrow> Metrics option" where
  "SetActiveRooms v = map_option (\<lambda>m. m\<lparr>activeRooms := v\<rparr>)"

definition AddActiveRooms :: "int \<Rightarrow> Metrics option \<Rightarrow> Metrics option" where
  "AddActiveRooms delta = map_option (\<lambda>m.
     let v = activeRooms m + delta in m\<lparr>activeRooms := (if v < 0 then 0 else v)\<rparr>)"

definition IncOperations :: "Metrics option \<Rightarrow> Metrics option" where
  "IncOperations = map_option (\<lambda>m. m\<lparr>operationsTotal := operationsTotal m + 1\<rparr>)"

text \<open>Durations are nanoseconds; \<open>Seconds()\<close> divides.\<close>

definition seconds :: "int \<Rightarrow> rat" where
  "seconds d = of_int d / 1000000000"

definition ObserveBroadcastLatency :: "int \<Rightarrow> Metrics option \<Rightarrow> Metrics option" where
  "ObserveBroadcastLatency d = map_option (\<lambda>m. m\<lparr>broadcastLatency := observe (seconds d) (broadcastLatency m)\<rparr>)"

definition Metrics_ObserveWriteBatch :: "int \<Rightarrow> int \<Rightarrow> Metrics option \<Rightarrow> Metrics option" where
  "Metrics_ObserveWriteBatch n d = map_option (\<lambda>m.
     m\<lparr>writeBatchSize := observe (of_int n) (writeBatchSize m),
       writeBatchLatency := observe (seconds d) (writeBatchLatency m)\<rparr>)"

definition Metrics_SetWriteQueueDepth :: "int \<Rightarrow> Metrics option \<Rightarrow> Metrics option" where
  "Metrics_SetWriteQueueDepth v = map_option (\<lambda>m. m\<lparr>writeQueueDepth := v\<rparr>)"

definition Metrics_IncWriteQueueDropped :: "Metrics option \<Rightarrow> Metrics option" where
  "Metrics_IncWriteQueueDropped = map_option (\<lambda>m. m\<lparr>queueDropped := queueDropped m + 1\<rparr>)"

definition IncDroppedClients :: "Metrics option \<Rightarrow> Metrics option" where
  "IncDroppedClients = map_option (\<lambda>m. m\<lparr>droppedClients := droppedClients m + 1\<rparr>)"

definition AddTombstonesCompacted :: "int \<Rightarrow> Metrics option \<Rightarrow> Metrics option" where
  "AddTombstonesCompacted v = map_option (\<lambda>m.
     if v \<le> 0 then m else m\<lparr>tombstonesCompacted := tombstonesCompacted m + word_of_int v\<rparr>)"

section \<open>Exposition\<close>

text \<open>\<open>fmtG\<close> stands for the verb \<open>%g\<close> on a floating-point number.\<close>

definition metricText :: "string \<Rightarrow> string \<Rightarrow> string \<Rightarrow> string" where
  "metricText kind name v = ''# TYPE '' @ name @ '' '' @ kind @ newline @ name @ '' '' @ v @ newline"

definition bucketText :: "string \<Rightarrow> string \<Rightarrow> string \<Rightarrow> string" where
  "bucketText name le v = name @ ''_bucket{le='' @ quote @ le @ quote @ ''} '' @ v @ newline"

definition writeHistogram :: "(rat \<Rightarrow> string) \<Rightarrow> string \<Rightarrow> histogram \<Rightarrow> string" where
  "writeHistogram fmtG name h =
     ''# TYPE '' @ name @ '' histogram'' @ newline
     @ concat (map (\<lambda>(b, c). bucketText name (fmtG b) (decimal (unat c))) (zip (buckets h) (counts h)))
     @ bucketText name ''+Inf'' (decimal (unat (hcount h)))
     @ name @ ''_sum '' @ fmtG (hsum h) @ newline @ name @ ''_count '' @ decimal (unat (hcount h)) @ newline"

definition Metrics_ServeHTTP :: "(rat \<Rightarrow> string) \<Rightarrow> Metrics option \<Rightarrow> http_response" where
  "Metrics_ServeHTTP fmtG receiver =
     (case receiver of
        None \<Rightarrow> httpError ''metrics are not configured'' 503
      | Some m \<Rightarrow>
          \<lparr>statusCode = 200, respHeaders = [(''Content-Type'', ''text/plain; version=0.0.4; charset=utf-8'')],
           respBody = TextBody
             (metricText ''gauge'' ''gopad_active_connections'' (decimalInt (activeConnections m))
              @ metricText ''gauge'' ''gopad_active_rooms'' (decimalInt (activeRooms m))
              @ metricText ''counter'' ''gopad_operations_total'' (decimal (unat (operationsTotal m)))
              @ metricText ''counter'' ''gopad_dropped_clients_total'' (decimal (unat (droppedClients m)))
              @ metricText ''counter'' ''gopad_tombstones_compacted_total'' (decimal (unat (tombstonesCompacted m)))
              @ metricText ''counter'' ''gopad_write_queue_dropped_total'' (decimal (unat (queueDropped m)))
              @ metricText ''gauge'' ''gopad_write_queue_depth'' (decimalInt (writeQueueDepth m))
              @ writeHistogram fmtG ''gopad_broadcast_latency_seconds'' (broadcastLatency m)
              @ writeHistogram fmtG ''gopad_write_batch_size'' (writeBatchSize m)
              @ writeHistogram fmtG ''gopad_write_batch_latency_seconds'' (writeBatchLatency m))\<rparr>)"

section \<open>Histograms are cumulative\<close>

lemma bumpBuckets_nth:
  "i + length bs \<le> length cs \<Longrightarrow>
   length (bumpBuckets v bs i cs) = length cs
   \<and> (\<forall>j < length cs. bumpBuckets v bs i cs ! j =
        (if i \<le> j \<and> j < i + length bs \<and> v \<le> bs ! (j - i) then cs ! j + 1 else cs ! j))"
proof (induction bs arbitrary: i cs)
  case (Cons b bs)
  let ?cs = "if v \<le> b then cs[i := cs ! i + 1] else cs"
  have IH: "length (bumpBuckets v bs (Suc i) ?cs) = length cs"
      "\<forall>j < length cs. bumpBuckets v bs (Suc i) ?cs ! j =
        (if Suc i \<le> j \<and> j < Suc i + length bs \<and> v \<le> bs ! (j - Suc i) then ?cs ! j + 1 else ?cs ! j)"
    using Cons.IH [of "Suc i" ?cs] Cons.prems by auto
  have "bumpBuckets v (b # bs) i cs ! j =
      (if i \<le> j \<and> j < i + length (b # bs) \<and> v \<le> (b # bs) ! (j - i) then cs ! j + 1 else cs ! j)"
    if "j < length cs" for j
    using IH(2) that Cons.prems by (cases "j = i") (auto simp: nth_Cons' Suc_diff_Suc)
  then show ?case using IH(1) by simp
qed simp

lemma observe_all:
  assumes "length (counts h) = length (buckets h)"
  shows "let h' = fold observe vs h in
      hcount h' = hcount h + of_nat (length vs) \<and> buckets h' = buckets h
    \<and> length (counts h') = length (buckets h)
    \<and> (\<forall>j < length (buckets h). counts h' ! j = counts h ! j + of_nat (length (filter (\<lambda>v. v \<le> buckets h ! j) vs)))"
  using assms
proof (induction vs arbitrary: h)
  case (Cons v vs)
  let ?h = "observe v h"
  have one: "buckets ?h = buckets h" "length (counts ?h) = length (buckets h)" "hcount ?h = hcount h + 1"
      "\<forall>j < length (buckets h). counts ?h ! j = (if v \<le> buckets h ! j then counts h ! j + 1 else counts h ! j)"
    using bumpBuckets_nth [of 0 "buckets h" "counts h" v] Cons.prems by (auto simp: observe_def)
  show ?case using Cons.IH [of ?h] one by (auto simp: Let_def)
qed (simp add: Let_def)

end
