(* ===== verification/Protocol.thy ===== *)
theory Protocol
  imports Json
begin

text \<open>
  \<open>internal/realtime/protocol.go\<close>: the WebSocket messages, their JSON forms by struct tag,
  and the decoders of the inbound ones. A message that is not JSON is \<^const>\<open>None\<close>.
\<close>

section \<open>Messages\<close>

definition MessageOp :: string where "MessageOp = ''op''"
definition MessageHello :: string where "MessageHello = ''hello''"
definition MessageCursor :: string where "MessageCursor = ''cursor''"
definition MessagePresence :: string where "MessagePresence = ''presence''"
definition MessageSync :: string where "MessageSync = ''sync''"
definition MessageError :: string where "MessageError = ''error''"

record Envelope =
  envType :: string
  envPayload :: "json option"

record OperationPayload =
  payloadOp :: Operation
  payloadSequence :: int
  payloadSentAt :: int

record PresenceIdentity =
  identUser :: int
  identName :: string
  identColor :: string
  identSite :: string

record CursorAnchor =
  anchorLeft :: "CharID option"
  anchorRight :: "CharID option"

record CursorPayload =
  cursorSite :: string
  cursorUser :: int
  cursorName :: string
  cursorColor :: string
  cursorStart :: CursorAnchor
  cursorEnd :: CursorAnchor

section \<open>Encoding\<close>

definition marshalEnvelope :: "string \<Rightarrow> json \<Rightarrow> json" where
  "marshalEnvelope t payload = JObject [(''type'', JString t), (''payload'', payload)]"

definition encodeOperationPayload :: "OperationPayload \<Rightarrow> json" where
  "encodeOperationPayload p = JObject
     (operationFields (payloadOp p)
      @ omitEmpty (payloadSequence p = 0) ''sequence'' (JInt (payloadSequence p))
      @ omitEmpty (payloadSentAt p = 0) ''clientSentAt'' (JInt (payloadSentAt p)))"

definition encodeIdentity :: "PresenceIdentity \<Rightarrow> json" where
  "encodeIdentity i = JObject
     [(''userID'', JInt (identUser i)), (''username'', JString (identName i)),
      (''color'', JString (identColor i)), (''siteID'', JString (identSite i))]"

text \<open>The slice of characters of \<open>SyncPayload\<close> is passed in its JSON form.\<close>

definition encodeSync :: "PresenceIdentity \<Rightarrow> json \<Rightarrow> int \<Rightarrow> PresenceIdentity list \<Rightarrow> json" where
  "encodeSync i snapshot sequence presence = JObject
     [(''siteID'', JString (identSite i)), (''userID'', JInt (identUser i)), (''username'', JString (identName i)),
      (''color'', JString (identColor i)), (''snapshot'', snapshot), (''sequence'', JInt sequence),
      (''presence'', JArray (map encodeIdentity presence))]"

definition encodePresence :: "string \<Rightarrow> PresenceIdentity \<Rightarrow> PresenceIdentity list \<Rightarrow> json" where
  "encodePresence event i active = JObject
     ([(''event'', JString event), (''user'', encodeIdentity i)]
      @ omitEmpty (active = []) ''active'' (JArray (map encodeIdentity active)))"

definition encodeAnchor :: "CursorAnchor \<Rightarrow> json" where
  "encodeAnchor a = JObject (omitPointer ''leftID'' (anchorLeft a) @ omitPointer ''rightID'' (anchorRight a))"

definition encodeCursor :: "CursorPayload \<Rightarrow> json" where
  "encodeCursor p = JObject
     [(''siteID'', JString (cursorSite p)), (''userID'', JInt (cursorUser p)), (''username'', JString (cursorName p)),
      (''color'', JString (cursorColor p)), (''start'', encodeAnchor (cursorStart p)), (''end'', encodeAnchor (cursorEnd p))]"

definition encodeErrorPayload :: "string \<Rightarrow> json" where
  "encodeErrorPayload message = JObject [(''message'', JString message)]"

section \<open>Decoding\<close>

definition setEnvelope :: "string \<Rightarrow> json \<Rightarrow> Envelope \<Rightarrow> Envelope option" where
  "setEnvelope k v e =
     (if k = ''type'' then map_option (\<lambda>t. e\<lparr>envType := t\<rparr>) (decodeString v (envType e))
      else if k = ''payload'' then Some (e\<lparr>envPayload := Some v\<rparr>)
      else Some e)"

definition decodeEnvelope :: "json option \<Rightarrow> Envelope option" where
  "decodeEnvelope data =
     (case data of None \<Rightarrow> None | Some j \<Rightarrow> decodeStruct setEnvelope j \<lparr>envType = '''', envPayload = None\<rparr>)"

definition zeroPayload :: OperationPayload where
  "zeroPayload = \<lparr>payloadOp = zeroOp, payloadSequence = 0, payloadSentAt = 0\<rparr>"

definition setOperationPayload :: "string \<Rightarrow> json \<Rightarrow> OperationPayload \<Rightarrow> OperationPayload option" where
  "setOperationPayload k v p =
     (if k = ''sequence'' then map_option (\<lambda>n. p\<lparr>payloadSequence := n\<rparr>) (decodeInt64 v (payloadSequence p))
      else if k = ''clientsentat'' then map_option (\<lambda>n. p\<lparr>payloadSentAt := n\<rparr>) (decodeInt64 v (payloadSentAt p))
      else map_option (\<lambda>op. p\<lparr>payloadOp := op\<rparr>) (setOperation k v (payloadOp p)))"

definition decodeOperationPayload :: "json option \<Rightarrow> OperationPayload option" where
  "decodeOperationPayload payload =
     (case payload of None \<Rightarrow> None | Some j \<Rightarrow> decodeStruct setOperationPayload j zeroPayload)"

definition decodeHello :: "json option \<Rightarrow> string option" where
  "decodeHello payload =
     (case payload of
        None \<Rightarrow> None
      | Some j \<Rightarrow> decodeStruct (\<lambda>k v name. if k = ''username'' then decodeString v name else Some name) j '''')"

definition zeroAnchor :: CursorAnchor where
  "zeroAnchor = \<lparr>anchorLeft = None, anchorRight = None\<rparr>"

definition setAnchor :: "string \<Rightarrow> json \<Rightarrow> CursorAnchor \<Rightarrow> CursorAnchor option" where
  "setAnchor k v a =
     (if k = ''leftid'' then map_option (\<lambda>p. a\<lparr>anchorLeft := p\<rparr>) (decodePointer setCharID rootID v (anchorLeft a))
      else if k = ''rightid'' then map_option (\<lambda>p. a\<lparr>anchorRight := p\<rparr>) (decodePointer setCharID rootID v (anchorRight a))
      else Some a)"

definition zeroCursor :: CursorPayload where
  "zeroCursor = \<lparr>cursorSite = '''', cursorUser = 0, cursorName = '''', cursorColor = '''',
     cursorStart = zeroAnchor, cursorEnd = zeroAnchor\<rparr>"

definition setCursor :: "string \<Rightarrow> json \<Rightarrow> CursorPayload \<Rightarrow> CursorPayload option" where
  "setCursor k v p =
     (if k = ''siteid'' then map_option (\<lambda>s. p\<lparr>cursorSite := s\<rparr>) (decodeString v (cursorSite p))
      else if k = ''userid'' then map_option (\<lambda>n. p\<lparr>cursorUser := n\<rparr>) (decodeInt64 v (cursorUser p))
      else if k = ''username'' then map_option (\<lambda>s. p\<lparr>cursorName := s\<rparr>) (decodeString v (cursorName p))
      else if k = ''color'' then map_option (\<lambda>s. p\<lparr>cursorColor := s\<rparr>) (decodeString v (cursorColor p))
      else if k = ''start'' then map_option (\<lambda>a. p\<lparr>cursorStart := a\<rparr>) (decodeStruct setAnchor v (cursorStart p))
      else if k = ''end'' then map_option (\<lambda>a. p\<lparr>cursorEnd := a\<rparr>) (decodeStruct setAnchor v (cursorEnd p))
      else Some p)"

definition decodeCursor :: "json option \<Rightarrow> CursorPayload option" where
  "decodeCursor payload =
     (case payload of None \<Rightarrow> None | Some j \<Rightarrow> decodeStruct setCursor j zeroCursor)"

text \<open>\<open>decodeOperation\<close> of \<open>client.go\<close>.\<close>

definition decodeOperation :: "json option \<Rightarrow> Operation option" where
  "decodeOperation data =
     (case decodeEnvelope data of
        None \<Rightarrow> None
      | Some e \<Rightarrow>
          if envType e \<noteq> MessageOp then None
          else map_option payloadOp (decodeOperationPayload (envPayload e)))"

section \<open>Round trips\<close>

lemma lower_protocol_keys [simp]:
  "lowerString ''payload'' = ''payload''" "lowerString ''sequence'' = ''sequence''"
  "lowerString ''clientSentAt'' = ''clientsentat''" "lowerString ''userID'' = ''userid''"
  "lowerString ''username'' = ''username''" "lowerString ''color'' = ''color''"
  "lowerString ''start'' = ''start''" "lowerString ''end'' = ''end''"
  by code_simp+

lemma decode_marshalEnvelope:
  "decodeEnvelope (Some (marshalEnvelope t payload)) = Some \<lparr>envType = t, envPayload = Some payload\<rparr>"
  by (simp add: decodeEnvelope_def marshalEnvelope_def setEnvelope_def decodeString_def)

lemma decode_payload_fields:
  assumes "\<forall>(k, v) \<in> set fs. lowerString k \<noteq> ''sequence'' \<and> lowerString k \<noteq> ''clientsentat''"
  shows "decodeFields setOperationPayload fs p = map_option (\<lambda>op. p\<lparr>payloadOp := op\<rparr>) (decodeFields setOperation fs (payloadOp p))"
  using assms
proof (induction fs arbitrary: p)
  case (Cons f fs)
  then show ?case
    by (cases f) (auto simp: setOperationPayload_def map_option_case split: option.splits)
qed simp

lemma decode_encodeOperationPayload:
  assumes "- (2 ^ 63) \<le> payloadSequence p" "payloadSequence p < 2 ^ 63"
    "- (2 ^ 63) \<le> payloadSentAt p" "payloadSentAt p < 2 ^ 63"
  shows "decodeOperationPayload (Some (encodeOperationPayload p)) = Some p"
proof -
  have "\<forall>(k, v) \<in> set (operationFields (payloadOp p)). lowerString k \<noteq> ''sequence'' \<and> lowerString k \<noteq> ''clientsentat''"
    by (auto simp: operationFields_def omitPointer_def omitEmpty_def split: option.splits)
  then have "decodeFields setOperationPayload (operationFields (payloadOp p)) zeroPayload = Some (zeroPayload\<lparr>payloadOp := payloadOp p\<rparr>)"
    using decode_operationFields [of "payloadOp p"] by (simp add: decode_payload_fields zeroPayload_def)
  then show ?thesis
    using assms
    by (auto simp: decodeOperationPayload_def encodeOperationPayload_def decodeFields_append omitEmpty_def
        setOperationPayload_def decodeInt64_def zeroPayload_def)
qed

end
