(* ===== verification/Room.thy ===== *)
theory Room
  imports Protocol Writer Metrics History
begin

text \<open>
  \<open>internal/realtime/room.go\<close> and the client side of \<open>client.go\<close>. Rooms and
  clients are objects behind pointers: the hub state holds a heap of each, and a pointer is an
  index. A room owns its document; its goroutine takes one command at a time, so a command is
  one function on the hub state. The fan-out workers and the writer make their steps between
  commands. The time a broadcast takes is a field of the state, and \<open>fanoutLog\<close> records
  every job that was ever submitted.
\<close>

section \<open>Clients\<close>

record Client =
  clientSend :: "json list"
  clientCap :: nat
  clientDone :: bool
  clientRoom :: "nat option"
  clientSite :: string
  clientUser :: int
  clientName :: string
  clientColor :: string

definition Client_enqueue :: "json \<Rightarrow> Client \<Rightarrow> bool \<times> Client" where
  "Client_enqueue data c =
     (if clientDone c then (False, c)
      else if length (clientSend c) < clientCap c then (True, c\<lparr>clientSend := clientSend c @ [data]\<rparr>)
      else (False, c))"

definition Client_close :: "Client \<Rightarrow> Client" where
  "Client_close c = c\<lparr>clientDone := True\<rparr>"

definition Client_identity :: "Client \<Rightarrow> PresenceIdentity" where
  "Client_identity c =
     \<lparr>identUser = clientUser c, identName = clientName c, identColor = clientColor c, identSite = clientSite c\<rparr>"

section \<open>State\<close>

datatype roomCommand =
  commandRegister "nat option"
| commandUnregister "nat option"
| commandOperation "nat option" Operation int
| commandCursor nat
| commandCompact "CharID list"
| commandShutdown

record Room =
  roomSlug :: string
  roomDocumentID :: int
  roomDocument :: Document
  roomSequence :: int
  roomOperations :: "OperationRecord list"
  roomPersist :: "(int option \<times> Operation) list"
  opsSinceSnapshot :: int
  commands :: "roomCommand list"
  roomDone :: bool
  roomClients :: "nat list"
  pendingCursors :: "(nat \<times> CursorPayload) list"
  cursorQueued :: "(nat \<times> bool) list"
  idleArmed :: bool
  shutdownSent :: bool

record fanoutJob =
  fanClient :: nat
  fanData :: json
  fanRoom :: nat

record HubConfig =
  IdleTimeout :: duration
  ClientQueueSize :: int
  FanoutQueueSize :: int
  FanoutWorkers :: int
  SnapshotOpThreshold :: int
  SnapshotInterval :: duration

record ('x, 'e) Hub =
  roomHeap :: "nat \<Rightarrow> Room"
  nextRoom :: nat
  hubRooms :: "(string \<times> nat) list"
  clientHeap :: "nat \<Rightarrow> Client"
  fanoutJobs :: "fanoutJob list"
  fanoutLog :: "fanoutJob list"
  hubConfig :: HubConfig
  hubWriter :: "('x, 'e) Writer option"
  hubMetrics :: "Metrics option"
  hubSlugs :: "SlugCache option"
  hubClosed :: bool
  hubCloseErr :: "'e barrier_result"
  broadcastTime :: duration

definition setRoom :: "nat \<Rightarrow> (Room \<Rightarrow> Room) \<Rightarrow> ('x, 'e) Hub \<Rightarrow> ('x, 'e) Hub" where
  "setRoom r f h = h\<lparr>roomHeap := (roomHeap h)(r := f (roomHeap h r))\<rparr>"

definition setClient :: "nat \<Rightarrow> (Client \<Rightarrow> Client) \<Rightarrow> ('x, 'e) Hub \<Rightarrow> ('x, 'e) Hub" where
  "setClient c f h = h\<lparr>clientHeap := (clientHeap h)(c := f (clientHeap h c))\<rparr>"

definition setMetrics :: "(Metrics option \<Rightarrow> Metrics option) \<Rightarrow> ('x, 'e) Hub \<Rightarrow> ('x, 'e) Hub" where
  "setMetrics f h = h\<lparr>hubMetrics := f (hubMetrics h)\<rparr>"

text \<open>\<open>client.enqueue\<close> on the heap; a nil client refuses.\<close>

definition enqueueTo :: "nat option \<Rightarrow> json \<Rightarrow> ('x, 'e) Hub \<Rightarrow> bool \<times> ('x, 'e) Hub" where
  "enqueueTo p data h =
     (case p of
        None \<Rightarrow> (False, h)
      | Some c \<Rightarrow> (case Client_enqueue data (clientHeap h c) of (ok, c') \<Rightarrow> (ok, setClient c (\<lambda>_. c') h)))"

definition sendError :: "nat \<Rightarrow> string \<Rightarrow> ('x, 'e) Hub \<Rightarrow> ('x, 'e) Hub" where
  "sendError c message h = snd (enqueueTo (Some c) (marshalEnvelope MessageError (encodeErrorPayload message)) h)"

definition newRoom ::
  "string \<Rightarrow> int \<Rightarrow> Document \<Rightarrow> int \<Rightarrow> OperationRecord list \<Rightarrow> Room" where
  "newRoom slug d doc version recs =
     \<lparr>roomSlug = slug, roomDocumentID = d, roomDocument = doc,
      roomSequence = fold (\<lambda>q n. if recSequence q > n then recSequence q else n) recs version,
      roomOperations = recs, roomPersist = [], opsSinceSnapshot = 0, commands = [], roomDone = False,
      roomClients = [], pendingCursors = [], cursorQueued = [], idleArmed = True, shutdownSent = False\<rparr>"

definition documentFromLoaded :: "LoadedDocument \<Rightarrow> build_error + Document" where
  "documentFromLoaded l = BuildAt (storedSnapshot l) (map recOp (loadedOperations l))"

section \<open>Fan-out\<close>

definition fanoutSubmit :: "fanoutJob \<Rightarrow> ('x, 'e) Hub \<Rightarrow> bool \<times> ('x, 'e) Hub" where
  "fanoutSubmit job h =
     (if int (length (fanoutJobs h)) < FanoutQueueSize (hubConfig h)
      then (True, h\<lparr>fanoutJobs := fanoutJobs h @ [job], fanoutLog := fanoutLog h @ [job]\<rparr>) else (False, h))"

definition activePresence :: "nat \<Rightarrow> ('x, 'e) Hub \<Rightarrow> PresenceIdentity list" where
  "activePresence r h =
     sort_key identSite (map (\<lambda>c. Client_identity (clientHeap h c)) (roomClients (roomHeap h r)))"

definition presenceData :: "string \<Rightarrow> nat \<Rightarrow> nat \<Rightarrow> ('x, 'e) Hub \<Rightarrow> json" where
  "presenceData event c r h =
     marshalEnvelope MessagePresence (encodePresence event (Client_identity (clientHeap h c)) (activePresence r h))"

definition clearCursor :: "nat \<Rightarrow> nat \<Rightarrow> ('x, 'e) Hub \<Rightarrow> ('x, 'e) Hub" where
  "clearCursor r c = setRoom r (\<lambda>x. x\<lparr>pendingCursors := AList.delete c (pendingCursors x),
                                     cursorQueued := AList.delete c (cursorQueued x)\<rparr>)"

text \<open>The first part of \<open>unregister\<close>, for a client that is registered.\<close>

definition removeClient :: "nat \<Rightarrow> nat \<Rightarrow> ('x, 'e) Hub \<Rightarrow> ('x, 'e) Hub" where
  "removeClient r c h =
     setClient c Client_close
       (clearCursor r c
         (setMetrics DecActiveConnections
           (setRoom r (\<lambda>x. x\<lparr>roomClients := remove1 c (roomClients x)\<rparr>) h)))"

text \<open>
  The loop of \<open>broadcast\<close> over the clients present when it started; one that has been
  removed meanwhile is not visited. A refused submission unregisters the client, which
  broadcasts its departure to the others. The first argument bounds the nesting; each level
  removes a client, so the number of clients is enough.
\<close>

fun broadcastLoop ::
  "nat \<Rightarrow> nat \<Rightarrow> json \<Rightarrow> nat option \<Rightarrow> nat list \<Rightarrow> ('x, 'e) Hub \<Rightarrow> ('x, 'e) Hub" where
  "broadcastLoop n r data exclude [] h =
     setMetrics (ObserveBroadcastLatency (broadcastTime h)) h"
| "broadcastLoop n r data exclude (c # cs) h =
     (if c \<notin> set (roomClients (roomHeap h r)) \<or> exclude = Some c then broadcastLoop n r data exclude cs h
      else case fanoutSubmit \<lparr>fanClient = c, fanData = data, fanRoom = r\<rparr> h of
          (True, h1) \<Rightarrow> broadcastLoop n r data exclude cs h1
        | (False, h1) \<Rightarrow>
            (case n of
               0 \<Rightarrow> h1
             | Suc m \<Rightarrow>
                 let h2 = removeClient r c (setMetrics IncDroppedClients h1);
                     h3 = broadcastLoop m r (presenceData ''leave'' c r h2) None (roomClients (roomHeap h2 r)) h2
                 in broadcastLoop n r data exclude cs h3))"

definition broadcast :: "nat \<Rightarrow> json \<Rightarrow> nat option \<Rightarrow> ('x, 'e) Hub \<Rightarrow> ('x, 'e) Hub" where
  "broadcast r data exclude h =
     (let cs = roomClients (roomHeap h r) in broadcastLoop (length cs) r data exclude cs h)"

definition broadcastPresence :: "nat \<Rightarrow> string \<Rightarrow> nat \<Rightarrow> nat option \<Rightarrow> ('x, 'e) Hub \<Rightarrow> ('x, 'e) Hub" where
  "broadcastPresence r event c exclude h = broadcast r (presenceData event c r h) exclude h"

definition unregister :: "nat \<Rightarrow> nat option \<Rightarrow> ('x, 'e) Hub \<Rightarrow> ('x, 'e) Hub" where
  "unregister r p h =
     (case p of
        None \<Rightarrow> h
      | Some c \<Rightarrow>
          if c \<in> set (roomClients (roomHeap h r)) then broadcastPresence r ''leave'' c None (removeClient r c h) else h)"

text \<open>The snapshot a room takes of its document, and its JSON form in a \<open>sync\<close> message.\<close>

definition snapshotOf :: "Document \<Rightarrow> crdt_char list" where
  "snapshotOf d = (case Snapshot (Some d) of Some cs \<Rightarrow> cs | None \<Rightarrow> [])"

definition syncData :: "nat \<Rightarrow> nat \<Rightarrow> ('x, 'e) Hub \<Rightarrow> json" where
  "syncData r c h =
     (let x = roomHeap h r; d = roomDocument x
      in marshalEnvelope MessageSync
           (encodeSync (Client_identity (clientHeap h c))
              (if chars d = [] then JNull else marshalChars (snapshotOf d)) (roomSequence x) (activePresence r h)))"

definition register :: "nat \<Rightarrow> nat option \<Rightarrow> ('x, 'e) Hub \<Rightarrow> ('x, 'e) Hub" where
  "register r p h =
     (case p of
        None \<Rightarrow> h
      | Some c \<Rightarrow>
          let h1 = setRoom r (\<lambda>x. x\<lparr>roomClients := (if c \<in> set (roomClients x) then roomClients x else roomClients x @ [c])\<rparr>)
                (setClient c (\<lambda>x. x\<lparr>clientRoom := Some r\<rparr>) h)
          in case enqueueTo (Some c) (syncData r c h1) h1 of
               (False, h2) \<Rightarrow> setClient c Client_close (setRoom r (\<lambda>x. x\<lparr>roomClients := remove1 c (roomClients x)\<rparr>) h2)
             | (True, h2) \<Rightarrow> broadcastPresence r ''join'' c (Some c) (setMetrics IncActiveConnections h2))"

section \<open>Operations, snapshots, compaction\<close>

definition queuePersistence :: "nat \<Rightarrow> nat option \<Rightarrow> Operation \<Rightarrow> ('x, 'e) Hub \<Rightarrow> ('x, 'e) Hub" where
  "queuePersistence r p op h =
     (case hubWriter h of
        Some w \<Rightarrow>
          let user = (case p of None \<Rightarrow> 1 | Some c \<Rightarrow> if clientUser (clientHeap h c) > 0 then clientUser (clientHeap h c) else 1)
          in h\<lparr>hubWriter := snd (EnqueueOps (roomDocumentID (roomHeap h r)) user [op] (Some w))\<rparr>
      | None \<Rightarrow>
          setRoom r (\<lambda>x. x\<lparr>roomPersist := roomPersist x @ [(map_option (\<lambda>c. clientUser (clientHeap h c)) p, op)]\<rparr>) h)"

definition requestSnapshot :: "nat \<Rightarrow> ('x, 'e) Hub \<Rightarrow> ('x, 'e) Hub" where
  "requestSnapshot r h =
     (case hubWriter h of
        None \<Rightarrow> h
      | Some w \<Rightarrow>
          let x = roomHeap h r
          in if opsSinceSnapshot x = 0 then h
             else case EnqueueSnapshot (roomDocumentID x) (snapshotOf (roomDocument x)) (roomSequence x) (Some w) of
                 (ok, w') \<Rightarrow>
                   let h1 = h\<lparr>hubWriter := w'\<rparr>
                   in if ok then setRoom r (\<lambda>x. x\<lparr>opsSinceSnapshot := 0\<rparr>) h1 else h1)"

definition applyOperation :: "nat \<Rightarrow> nat option \<Rightarrow> Operation \<Rightarrow> int \<Rightarrow> ('x, 'e) Hub \<Rightarrow> ('x, 'e) Hub" where
  "applyOperation r sender op sentAt h =
     (case Apply (Some (roomDocument (roomHeap h r))) op of
        Inl e \<Rightarrow>
          (case sender of
             None \<Rightarrow> h
           | Some c \<Rightarrow> snd (enqueueTo (Some c) (marshalEnvelope MessageError (encodeErrorPayload (ApplyError_Error e))) h))
      | Inr d \<Rightarrow>
          let h1 = setMetrics IncOperations
                (setRoom r (\<lambda>x. x\<lparr>roomDocument := d, roomSequence := roomSequence x + 1,
                                  opsSinceSnapshot := opsSinceSnapshot x + 1\<rparr>) h);
              payload = \<lparr>payloadOp = op, payloadSequence = roomSequence (roomHeap h1 r), payloadSentAt = sentAt\<rparr>;
              h2 = broadcast r (marshalEnvelope MessageOp (encodeOperationPayload payload)) sender h1;
              h3 = queuePersistence r sender op h2
          in if opsSinceSnapshot (roomHeap h3 r) \<ge> SnapshotOpThreshold (hubConfig h3)
             then requestSnapshot r h3 else h3)"

definition applyCompaction :: "nat \<Rightarrow> CharID list \<Rightarrow> ('x, 'e) Hub \<Rightarrow> ('x, 'e) Hub" where
  "applyCompaction r ids h =
     (case Compact (Some (roomDocument (roomHeap h r))) ids of
        Inl e \<Rightarrow> h
      | Inr (purged, d) \<Rightarrow>
          let h1 = setRoom r (\<lambda>x. x\<lparr>roomDocument := d\<rparr>) h
          in if purged > 0 then setMetrics (AddTombstonesCompacted (int purged)) h1 else h1)"

definition closeClients :: "nat \<Rightarrow> ('x, 'e) Hub \<Rightarrow> ('x, 'e) Hub" where
  "closeClients r h =
     setRoom r (\<lambda>x. x\<lparr>roomClients := []\<rparr>)
       (fold (\<lambda>c h. setClient c Client_close (clearCursor r c (setMetrics DecActiveConnections h)))
          (roomClients (roomHeap h r)) h)"

definition applyCursor :: "nat \<Rightarrow> nat \<Rightarrow> ('x, 'e) Hub \<Rightarrow> ('x, 'e) Hub" where
  "applyCursor r c h =
     (let pending = map_of (pendingCursors (roomHeap h r)) c;
          h1 = setRoom r (\<lambda>x. x\<lparr>pendingCursors := AList.delete c (pendingCursors x),
                                cursorQueued := AList.update c False (cursorQueued x)\<rparr>) h
      in case pending of
           None \<Rightarrow> h1
         | Some payload \<Rightarrow>
             if c \<notin> set (roomClients (roomHeap h1 r)) then h1
             else let cl = clientHeap h1 c
                  in broadcast r (marshalEnvelope MessageCursor (encodeCursor
                       (payload\<lparr>cursorSite := clientSite cl, cursorUser := clientUser cl,
                                cursorName := clientName cl, cursorColor := clientColor cl\<rparr>))) (Some c) h1)"

section \<open>The command queue\<close>

definition commandsFull :: "nat \<Rightarrow> ('x, 'e) Hub \<Rightarrow> bool" where
  "commandsFull r h \<longleftrightarrow> int (length (commands (roomHeap h r))) \<ge> ClientQueueSize (hubConfig h)"

definition pushCommand :: "nat \<Rightarrow> roomCommand \<Rightarrow> ('x, 'e) Hub \<Rightarrow> ('x, 'e) Hub" where
  "pushCommand r cmd = setRoom r (\<lambda>x. x\<lparr>commands := commands x @ [cmd]\<rparr>)"

text \<open>
  \<open>submit\<close> waits for room in the queue or for the end of the room. When both are ready,
  \<open>pick\<close> says which the \<open>select\<close> takes; \<^const>\<open>None\<close> means that the call still waits.
\<close>

definition submit :: "bool \<Rightarrow> nat \<Rightarrow> roomCommand \<Rightarrow> ('x, 'e) Hub \<Rightarrow> ('x, 'e) Hub option" where
  "submit pick r cmd h =
     (if \<not> commandsFull r h \<and> (\<not> roomDone (roomHeap h r) \<or> pick) then Some (pushCommand r cmd h)
      else if roomDone (roomHeap h r) then Some h
      else None)"

definition submitCompaction :: "bool \<Rightarrow> nat \<Rightarrow> CharID list \<Rightarrow> ('x, 'e) Hub \<Rightarrow> ('x, 'e) Hub" where
  "submitCompaction pick r ids h =
     (if ids = [] then h
      else if \<not> commandsFull r h \<and> (\<not> roomDone (roomHeap h r) \<or> pick) then pushCommand r (commandCompact ids) h
      else h)"

definition SubmitCursor :: "bool \<Rightarrow> nat \<Rightarrow> nat \<Rightarrow> CursorPayload \<Rightarrow> ('x, 'e) Hub \<Rightarrow> ('x, 'e) Hub" where
  "SubmitCursor pick r c payload h =
     (let queued = (map_of (cursorQueued (roomHeap h r)) c = Some True);
          h1 = setRoom r (\<lambda>x. x\<lparr>pendingCursors := AList.update c payload (pendingCursors x),
                                cursorQueued := (if queued then cursorQueued x else AList.update c True (cursorQueued x))\<rparr>) h
      in if queued then h1
         else if \<not> commandsFull r h1 \<and> (\<not> roomDone (roomHeap h1 r) \<or> pick) then pushCommand r (commandCursor c) h1
         else clearCursor r c h1)"

definition shutdown :: "bool \<Rightarrow> nat \<Rightarrow> ('x, 'e) Hub \<Rightarrow> ('x, 'e) Hub option" where
  "shutdown pick r h =
     (if shutdownSent (roomHeap h r) then Some h
      else submit pick r commandShutdown (setRoom r (\<lambda>x. x\<lparr>shutdownSent := True\<rparr>) h))"

definition Room_Register :: "bool \<Rightarrow> nat \<Rightarrow> nat option \<Rightarrow> ('x, 'e) Hub \<Rightarrow> ('x, 'e) Hub option" where
  "Room_Register pick r p = submit pick r (commandRegister p)"

definition Room_Unregister :: "bool \<Rightarrow> nat \<Rightarrow> nat option \<Rightarrow> ('x, 'e) Hub \<Rightarrow> ('x, 'e) Hub option" where
  "Room_Unregister pick r p = submit pick r (commandUnregister p)"

definition SubmitOperation :: "bool \<Rightarrow> nat \<Rightarrow> nat option \<Rightarrow> Operation \<Rightarrow> ('x, 'e) Hub \<Rightarrow> ('x, 'e) Hub option" where
  "SubmitOperation pick r p op = submit pick r (commandOperation p op 0)"

definition SubmitOperationWithTimestamp ::
  "bool \<Rightarrow> nat \<Rightarrow> nat option \<Rightarrow> Operation \<Rightarrow> int \<Rightarrow> ('x, 'e) Hub \<Rightarrow> ('x, 'e) Hub option" where
  "SubmitOperationWithTimestamp pick r p op sentAt = submit pick r (commandOperation p op sentAt)"

section \<open>The goroutine of a room\<close>

definition removeRoom :: "nat \<Rightarrow> ('x, 'e) Hub \<Rightarrow> ('x, 'e) Hub" where
  "removeRoom r h =
     (let slug = roomSlug (roomHeap h r)
      in if map_of (hubRooms h) slug = Some r
         then setMetrics (AddActiveRooms (- 1)) (h\<lparr>hubRooms := AList.delete slug (hubRooms h)\<rparr>)
         else h)"

definition finishRoom :: "nat \<Rightarrow> ('x, 'e) Hub \<Rightarrow> ('x, 'e) Hub" where
  "finishRoom r = setRoom r (\<lambda>x. x\<lparr>roomDone := True\<rparr>)"

definition armIdle :: "bool \<Rightarrow> nat \<Rightarrow> ('x, 'e) Hub \<Rightarrow> ('x, 'e) Hub" where
  "armIdle b r = setRoom r (\<lambda>x. x\<lparr>idleArmed := b\<rparr>)"

definition handleCommand :: "nat \<Rightarrow> roomCommand \<Rightarrow> ('x, 'e) Hub \<Rightarrow> ('x, 'e) Hub" where
  "handleCommand r cmd h =
     (case cmd of
        commandRegister p \<Rightarrow> register r p (armIdle False r h)
      | commandUnregister p \<Rightarrow>
          let h1 = unregister r p h in if roomClients (roomHeap h1 r) = [] then armIdle True r h1 else h1
      | commandOperation p op sentAt \<Rightarrow> applyOperation r p op sentAt h
      | commandCursor c \<Rightarrow> applyCursor r c h
      | commandCompact ids \<Rightarrow> applyCompaction r ids h
      | commandShutdown \<Rightarrow> finishRoom r (closeClients r (requestSnapshot r h)))"

text \<open>The branches of the \<open>select\<close>: a command, the idle timer, the ticker, the context.\<close>

definition takeCommand :: "nat \<Rightarrow> ('x, 'e) Hub \<Rightarrow> ('x, 'e) Hub option" where
  "takeCommand r h =
     (if roomDone (roomHeap h r) then None
      else case commands (roomHeap h r) of
          [] \<Rightarrow> None
        | cmd # rest \<Rightarrow> Some (handleCommand r cmd (setRoom r (\<lambda>x. x\<lparr>commands := rest\<rparr>) h)))"

definition idleFired :: "nat \<Rightarrow> ('x, 'e) Hub \<Rightarrow> ('x, 'e) Hub" where
  "idleFired r h =
     (if roomClients (roomHeap h r) = [] then finishRoom r (removeRoom r (requestSnapshot r h))
      else armIdle False r h)"

definition snapshotTick :: "nat \<Rightarrow> ('x, 'e) Hub \<Rightarrow> ('x, 'e) Hub" where
  "snapshotTick r h = (if hubWriter h = None then h else requestSnapshot r h)"

definition contextDone :: "nat \<Rightarrow> ('x, 'e) Hub \<Rightarrow> ('x, 'e) Hub" where
  "contextDone r h = finishRoom r (closeClients r (requestSnapshot r h))"

text \<open>
  One iteration of a fan-out worker. The callback of a refused job waits for the room's queue:
  \<^const>\<open>None\<close> when there is no job or the callback blocks.
\<close>

definition fanoutWorker :: "bool \<Rightarrow> ('x, 'e) Hub \<Rightarrow> ('x, 'e) Hub option" where
  "fanoutWorker pick h =
     (case fanoutJobs h of
        [] \<Rightarrow> None
      | job # rest \<Rightarrow>
          (case enqueueTo (Some (fanClient job)) (fanData job) (h\<lparr>fanoutJobs := rest\<rparr>) of
             (True, h1) \<Rightarrow> Some h1
           | (False, h1) \<Rightarrow> Room_Unregister pick (fanRoom job) (Some (fanClient job)) (setMetrics IncDroppedClients h1)))"

end
