(* ===== verification/Hub.thy ===== *)
theory Hub
  imports Room Http
begin

text \<open>
  \<open>internal/realtime/hub.go\<close> and the connection loops of \<open>client.go\<close>: the registry of
  rooms, joining, and shutdown. Loading a document is an argument (the store's
  \<open>LoadDocument\<close>), and so is what the WebSocket library reads.
\<close>

section \<open>Configuration\<close>

definition defaultRoomIdleTimeout :: duration where "defaultRoomIdleTimeout = 45 * second"
definition defaultClientQueueSize :: int where "defaultClientQueueSize = 64"
definition defaultFanoutQueueSize :: int where "defaultFanoutQueueSize = 256"
definition defaultFanoutWorkers :: int where "defaultFanoutWorkers = 1"

definition orDefault :: "int \<Rightarrow> int \<Rightarrow> int" where
  "orDefault v d = (if v \<le> 0 then d else v)"

text \<open>
  \<open>NewHubWithConfig\<close>: defaults for what is not positive, a fresh registry and cache where
  none is given, and the hub as the observer of the writer's snapshots.
\<close>

definition NewHubWithConfig ::
  "HubConfig \<Rightarrow> ('x, 'e) Writer option \<Rightarrow> Metrics option \<Rightarrow> SlugCache option \<Rightarrow> ('x, 'e) Hub" where
  "NewHubWithConfig c w m sc =
     \<lparr>roomHeap = (\<lambda>_. newRoom '''' 0 New 0 []), nextRoom = 0, hubRooms = [],
      clientHeap = (\<lambda>_. \<lparr>clientSend = [], clientCap = 0, clientDone = False, clientRoom = None, clientSite = '''',
                          clientUser = 0, clientName = '''', clientColor = ''''\<rparr>),
      fanoutJobs = [], fanoutLog = [],
      hubConfig =
        \<lparr>IdleTimeout = orDefault (IdleTimeout c) defaultRoomIdleTimeout,
         ClientQueueSize = orDefault (ClientQueueSize c) defaultClientQueueSize,
         FanoutQueueSize = orDefault (FanoutQueueSize c) defaultFanoutQueueSize,
         FanoutWorkers = orDefault (FanoutWorkers c) defaultFanoutWorkers,
         SnapshotOpThreshold = orDefault (SnapshotOpThreshold c) DefaultSnapshotOpThreshold,
         SnapshotInterval = orDefault (SnapshotInterval c) DefaultSnapshotInterval\<rparr>,
      hubWriter = SetSnapshotObserver True w,
      hubMetrics = Some (case m of None \<Rightarrow> Metrics_New | Some x \<Rightarrow> x),
      hubSlugs = Some (case sc of None \<Rightarrow> DefaultSlugCache | Some x \<Rightarrow> x),
      hubClosed = False, hubCloseErr = BarrierOk, broadcastTime = 0\<rparr>"

section \<open>The registry of rooms\<close>

text \<open>\<open>SnapshotSaved\<close>: the first room of that document is asked to compact.\<close>

definition SnapshotSaved :: "bool \<Rightarrow> int \<Rightarrow> CharID list \<Rightarrow> ('x, 'e) Hub option \<Rightarrow> ('x, 'e) Hub option" where
  "SnapshotSaved pick d ids receiver =
     (case receiver of
        None \<Rightarrow> None
      | Some h \<Rightarrow>
          if ids = [] then Some h
          else case find (\<lambda>r. roomDocumentID (roomHeap h r) = d) (map snd (hubRooms h)) of
              None \<Rightarrow> Some h
            | Some r \<Rightarrow> Some (submitCompaction pick r ids h))"

datatype room_error =
  HubNotConfigured | CachedNotFound | LoadFailed store_error | RebuildFailed build_error

fun isRoomNotFound :: "room_error \<Rightarrow> bool" where
  "isRoomNotFound CachedNotFound = True"
| "isRoomNotFound (LoadFailed e) = isDocumentNotFound e"
| "isRoomNotFound _ = False"

text \<open>
  \<open>GetOrCreateRoom\<close> up to the point where the room is put into the registry: an existing
  room, an error, or a room to install. \<open>t1\<close>, \<open>t2\<close>, \<open>t3\<close> are the
  readings of the clock by the slug cache.
\<close>

definition prepareRoom ::
  "time \<Rightarrow> time \<Rightarrow> time \<Rightarrow> (string \<Rightarrow> store_error + LoadedDocument) \<Rightarrow> string \<Rightarrow> ('x, 'e) Hub
   \<Rightarrow> (room_error + (nat + Room)) \<times> ('x, 'e) Hub" where
  "prepareRoom t1 t2 t3 load slug h =
     (case map_of (hubRooms h) slug of
        Some r \<Rightarrow> (Inr (Inl r), h)
      | None \<Rightarrow>
          if SlugCache_Lookup t1 t2 (hubSlugs h) slug = (False, True) then (Inl CachedNotFound, h)
          else case load slug of
              Inl e \<Rightarrow>
                (Inl (LoadFailed e), if isDocumentNotFound e then h\<lparr>hubSlugs := SetMissing t3 slug (hubSlugs h)\<rparr> else h)
            | Inr l \<Rightarrow>
                let h1 = h\<lparr>hubSlugs := SetExists t3 slug (hubSlugs h)\<rparr>
                in case documentFromLoaded l of
                     Inl e \<Rightarrow> (Inl (RebuildFailed e), h1)
                   | Inr d \<Rightarrow> (Inr (Inr (newRoom slug (storedID l) d (storedVersion l) (loadedOperations l))), h1))"

text \<open>\<open>LoadOrStore\<close>: another caller may have installed a room for the slug meanwhile.\<close>

definition installRoom :: "string \<Rightarrow> Room \<Rightarrow> ('x, 'e) Hub \<Rightarrow> nat \<times> ('x, 'e) Hub" where
  "installRoom slug room h =
     (case map_of (hubRooms h) slug of
        Some r \<Rightarrow> (r, h)
      | None \<Rightarrow>
          let r = nextRoom h
          in (r, setMetrics (AddActiveRooms 1)
                (h\<lparr>roomHeap := (roomHeap h)(r := room), nextRoom := Suc r, hubRooms := AList.update slug r (hubRooms h)\<rparr>)))"

definition GetOrCreateRoom ::
  "time \<Rightarrow> time \<Rightarrow> time \<Rightarrow> (string \<Rightarrow> store_error + LoadedDocument) \<Rightarrow> string \<Rightarrow> ('x, 'e) Hub option
   \<Rightarrow> (room_error + nat) \<times> ('x, 'e) Hub option" where
  "GetOrCreateRoom t1 t2 t3 load slug receiver =
     (case receiver of
        None \<Rightarrow> (Inl HubNotConfigured, None)
      | Some h \<Rightarrow>
          (case prepareRoom t1 t2 t3 load slug h of
             (Inl e, h1) \<Rightarrow> (Inl e, Some h1)
           | (Inr (Inl r), h1) \<Rightarrow> (Inr r, Some h1)
           | (Inr (Inr room), h1) \<Rightarrow> (case installRoom slug room h1 of (r, h2) \<Rightarrow> (Inr r, Some h2))))"

definition validSlug :: "string \<Rightarrow> bool" where
  "validSlug slug \<longleftrightarrow> length slug = 12 \<and>
     list_all (\<lambda>c. let n = of_char c :: nat in (48 \<le> n \<and> n \<le> 57) \<or> (65 \<le> n \<and> n \<le> 90) \<or> (97 \<le> n \<and> n \<le> 122)) slug"

text \<open>\<open>ServeHTTP\<close> until the upgrade: a response, or the room to join.\<close>

definition Hub_ServeHTTP ::
  "time \<Rightarrow> time \<Rightarrow> time \<Rightarrow> (string \<Rightarrow> store_error + LoadedDocument) \<Rightarrow> string \<Rightarrow> ('x, 'e) Hub option
   \<Rightarrow> (http_response + nat) \<times> ('x, 'e) Hub option" where
  "Hub_ServeHTTP t1 t2 t3 load slug receiver =
     (if \<not> validSlug slug then (Inl httpNotFound, receiver)
      else case GetOrCreateRoom t1 t2 t3 load slug receiver of
          (Inl e, h) \<Rightarrow> (Inl (if isRoomNotFound e then httpNotFound else httpError ''could not load room'' 500), h)
        | (Inr r, h) \<Rightarrow> (Inr r, h))"

definition clientQueueSize :: "('x, 'e) Hub \<Rightarrow> int" where
  "clientQueueSize h = ClientQueueSize (hubConfig h)"

text \<open>The accessors of the shared registries.\<close>

definition Hub_Metrics :: "('x, 'e) Hub option \<Rightarrow> Metrics option" where
  "Hub_Metrics receiver = (case receiver of None \<Rightarrow> None | Some h \<Rightarrow> hubMetrics h)"

definition Hub_SlugCache :: "('x, 'e) Hub option \<Rightarrow> SlugCache option" where
  "Hub_SlugCache receiver = (case receiver of None \<Rightarrow> None | Some h \<Rightarrow> hubSlugs h)"

section \<open>Connections\<close>

text \<open>\<open>newSiteID\<close>: sixteen random bytes in hexadecimal; \<^const>\<open>None\<close> when there are none.\<close>

definition hexDigits :: string where "hexDigits = ''0123456789abcdef''"

definition newSiteID :: "nat list option \<Rightarrow> string" where
  "newSiteID bytes =
     (case bytes of
        None \<Rightarrow> ''site-fallback''
      | Some bs \<Rightarrow> concat (map (\<lambda>b. [hexDigits ! (b div 16), hexDigits ! (b mod 16)]) bs))"

definition newWebSocketClient :: "nat list option \<Rightarrow> nat \<Rightarrow> Client" where
  "newWebSocketClient bytes queueSize =
     \<lparr>clientSend = [], clientCap = queueSize, clientDone = False, clientRoom = None, clientSite = newSiteID bytes,
      clientUser = 0, clientName = '''', clientColor = ''''\<rparr>"

definition newTestClient :: "nat list option \<Rightarrow> nat \<Rightarrow> Client" where
  "newTestClient bytes queueSize =
     \<lparr>clientSend = [], clientCap = queueSize, clientDone = False, clientRoom = None, clientSite = newSiteID bytes,
      clientUser = 1, clientName = ''Test'', clientColor = ''#4dd8c0''\<rparr>"

datatype hello_error = ReadHello | NotHello | DecodeHello | FindUser store_error

text \<open>
  \<open>readHello\<close>: \<open>read\<close> is what the connection delivers (\<^const>\<open>None\<close> for a
  failed read), \<open>findUser\<close> the store's \<open>FindOrCreateUser\<close>.
\<close>

definition readHello ::
  "json option option \<Rightarrow> (string \<Rightarrow> store_error + User) \<Rightarrow> Client \<Rightarrow> hello_error + Client" where
  "readHello read findUser c =
     (case read of
        None \<Rightarrow> Inl ReadHello
      | Some data \<Rightarrow>
          (case decodeEnvelope data of
             None \<Rightarrow> Inl NotHello
           | Some e \<Rightarrow>
               if envType e \<noteq> MessageHello then Inl NotHello
               else case decodeHello (envPayload e) of
                   None \<Rightarrow> Inl DecodeHello
                 | Some name \<Rightarrow>
                     (case findUser (trimSpace name) of
                        Inl err \<Rightarrow> Inl (FindUser err)
                      | Inr u \<Rightarrow> Inr (c\<lparr>clientUser := userID u, clientName := userName u, clientColor := userColor u\<rparr>))))"

text \<open>One message of \<open>readLoop\<close>; \<^const>\<open>None\<close> while the submission waits.\<close>

definition handleInbound :: "bool \<Rightarrow> nat \<Rightarrow> nat \<Rightarrow> json option \<Rightarrow> ('x, 'e) Hub \<Rightarrow> ('x, 'e) Hub option" where
  "handleInbound pick r c data h =
     (case decodeEnvelope data of
        None \<Rightarrow> Some (sendError c ''invalid message'' h)
      | Some e \<Rightarrow>
          if envType e = MessageOp
          then (case decodeOperationPayload (envPayload e) of
                  None \<Rightarrow> Some (sendError c ''invalid operation'' h)
                | Some p \<Rightarrow> SubmitOperationWithTimestamp pick r (Some c) (payloadOp p) (payloadSentAt p) h)
          else if envType e = MessageCursor
          then (case decodeCursor (envPayload e) of
                  None \<Rightarrow> Some h
                | Some p \<Rightarrow> Some (SubmitCursor pick r c p h))
          else Some h)"

text \<open>One message of \<open>writeLoop\<close>, and a ping; a failure closes the client.\<close>

definition writeStep :: "bool \<Rightarrow> nat \<Rightarrow> ('x, 'e) Hub \<Rightarrow> (json \<times> ('x, 'e) Hub) option" where
  "writeStep ok c h =
     (if clientDone (clientHeap h c) then None
      else case clientSend (clientHeap h c) of
          [] \<Rightarrow> None
        | data # rest \<Rightarrow>
            let h1 = setClient c (\<lambda>x. x\<lparr>clientSend := rest\<rparr>) h
            in Some (data, if ok then h1 else setClient c Client_close h1))"

definition pingStep :: "bool \<Rightarrow> nat \<Rightarrow> ('x, 'e) Hub \<Rightarrow> ('x, 'e) Hub" where
  "pingStep ok c h = (if clientDone (clientHeap h c) \<or> ok then h else setClient c Client_close h)"

text \<open>The ends of \<open>serve\<close>: joining after the hello, and leaving after the read loop.\<close>

definition serveJoin ::
  "bool \<Rightarrow> json option option \<Rightarrow> (string \<Rightarrow> store_error + User) \<Rightarrow> nat \<Rightarrow> nat \<Rightarrow> ('x, 'e) Hub \<Rightarrow> ('x, 'e) Hub option" where
  "serveJoin pick read findUser r c h =
     (case readHello read findUser (clientHeap h c) of
        Inl e \<Rightarrow> Some (setClient c Client_close h)
      | Inr cl \<Rightarrow> Room_Register pick r (Some c) (setClient c (\<lambda>_. cl) h))"

definition serveLeave :: "bool \<Rightarrow> nat \<Rightarrow> nat \<Rightarrow> ('x, 'e) Hub \<Rightarrow> ('x, 'e) Hub option" where
  "serveLeave pick r c h = Room_Unregister pick r (Some c) (setClient c Client_close h)"

section \<open>Shutdown\<close>

text \<open>
  \<open>CloseContext\<close> runs once: every room is told to shut down; when all of them have ended,
  the writer and the slug cache are closed and the fan-out workers finish the queued jobs.
  \<open>wait\<close> and \<open>progress\<close> stand for what the other goroutines do while the call waits
  for the rooms and for the writer; \<^const>\<open>None\<close> means that it still waits.
\<close>

fun shutdownAll :: "bool \<Rightarrow> nat list \<Rightarrow> ('x, 'e) Hub \<Rightarrow> ('x, 'e) Hub option" where
  "shutdownAll pick [] h = Some h"
| "shutdownAll pick (r # rs) h = (case shutdown pick r h of None \<Rightarrow> None | Some h1 \<Rightarrow> shutdownAll pick rs h1)"

fun drainFanout :: "nat \<Rightarrow> bool \<Rightarrow> ('x, 'e) Hub \<Rightarrow> ('x, 'e) Hub option" where
  "drainFanout 0 pick h = Some h"
| "drainFanout (Suc n) pick h = (case fanoutWorker pick h of None \<Rightarrow> None | Some h1 \<Rightarrow> drainFanout n pick h1)"

definition fanoutClose :: "bool \<Rightarrow> ('x, 'e) Hub \<Rightarrow> ('x, 'e) Hub option" where
  "fanoutClose pick h = drainFanout (length (fanoutJobs h)) pick h"

definition closeWriter ::
  "(('x, 'e) Writer \<Rightarrow> ('x, 'e) Writer) \<Rightarrow> bool \<Rightarrow> bool \<Rightarrow> nat \<Rightarrow> ('x, 'e) Hub \<Rightarrow> ('x, 'e) Hub option" where
  "closeWriter progress cancelled1 cancelled2 k h =
     (case hubWriter h of
        None \<Rightarrow> Some h
      | Some w \<Rightarrow>
          map_option (\<lambda>(res, w'). h\<lparr>hubWriter := w', hubCloseErr := res\<rparr>)
            (Writer_Close progress cancelled1 cancelled2 k (Some w)))"

definition CloseContext ::
  "bool \<Rightarrow> (('x, 'e) Hub \<Rightarrow> ('x, 'e) Hub) \<Rightarrow> (('x, 'e) Writer \<Rightarrow> ('x, 'e) Writer) \<Rightarrow> bool \<Rightarrow> bool \<Rightarrow> nat
   \<Rightarrow> ('x, 'e) Hub option \<Rightarrow> ('e barrier_result \<times> ('x, 'e) Hub option) option" where
  "CloseContext pick wait progress cancelled1 cancelled2 k receiver =
     (case receiver of
        None \<Rightarrow> Some (BarrierOk, None)
      | Some h \<Rightarrow>
          if hubClosed h then Some (hubCloseErr h, Some h)
          else
            let rooms = map snd (hubRooms h)
            in case shutdownAll pick rooms (h\<lparr>hubClosed := True\<rparr>) of
                 None \<Rightarrow> None
               | Some h1 \<Rightarrow>
                   let h2 = wait h1
                   in if \<not> list_all (\<lambda>r. roomDone (roomHeap h2 r)) rooms then None
                      else case closeWriter progress cancelled1 cancelled2 k h2 of
                          None \<Rightarrow> None
                        | Some h3 \<Rightarrow>
                            map_option (\<lambda>h4. (hubCloseErr h4, Some h4))
                              (fanoutClose pick (h3\<lparr>hubSlugs := SlugCache_Close (hubSlugs h3)\<rparr>)))"

end
