(* ===== verification/Room_Fanout.thy ===== *)
theory Room_Fanout
  imports Hub
begin

text \<open>
  What a broadcast changes and what it submits: every client that is still registered
  afterwards got the message exactly once, the excluded one not at all; nothing of the room but
  its client set and cursor tables changes.
\<close>

section \<open>The parts of the state a broadcast touches\<close>

definition roomCore :: "Room \<Rightarrow> Room \<Rightarrow> bool" where
  "roomCore x y \<longleftrightarrow> roomSlug y = roomSlug x \<and> roomDocumentID y = roomDocumentID x \<and> roomDocument y = roomDocument x
     \<and> roomSequence y = roomSequence x \<and> roomOperations y = roomOperations x \<and> roomPersist y = roomPersist x
     \<and> opsSinceSnapshot y = opsSinceSnapshot x \<and> commands y = commands x \<and> roomDone y = roomDone x
     \<and> idleArmed y = idleArmed x \<and> shutdownSent y = shutdownSent x"

definition fewerClients :: "Room \<Rightarrow> Room \<Rightarrow> bool" where
  "fewerClients x y \<longleftrightarrow> set (roomClients y) \<subseteq> set (roomClients x)
     \<and> length (roomClients y) \<le> length (roomClients x) \<and> (distinct (roomClients x) \<longrightarrow> distinct (roomClients y))"

definition sameClient :: "Client \<Rightarrow> Client \<Rightarrow> bool" where
  "sameClient c d \<longleftrightarrow> clientSend d = clientSend c \<and> clientCap d = clientCap c \<and> clientRoom d = clientRoom c
     \<and> Client_identity d = Client_identity c \<and> (clientDone c \<longrightarrow> clientDone d)"

definition bcastFrame :: "nat \<Rightarrow> ('x, 'e) Hub \<Rightarrow> ('x, 'e) Hub \<Rightarrow> bool" where
  "bcastFrame r h k \<longleftrightarrow> (\<forall>q. q \<noteq> r \<longrightarrow> roomHeap k q = roomHeap h q)
     \<and> roomCore (roomHeap h r) (roomHeap k r) \<and> fewerClients (roomHeap h r) (roomHeap k r)
     \<and> (\<forall>c. sameClient (clientHeap h c) (clientHeap k c))
     \<and> hubRooms k = hubRooms h \<and> nextRoom k = nextRoom h \<and> hubConfig k = hubConfig h \<and> hubWriter k = hubWriter h
     \<and> hubSlugs k = hubSlugs h \<and> hubClosed k = hubClosed h \<and> hubCloseErr k = hubCloseErr h \<and> broadcastTime k = broadcastTime h
     \<and> (\<exists>js. fanoutLog k = fanoutLog h @ js \<and> fanoutJobs k = fanoutJobs h @ js \<and> (\<forall>j \<in> set js. fanRoom j = r))"

lemma bcastFrame_refl: "bcastFrame r h h"
  by (simp add: bcastFrame_def roomCore_def fewerClients_def sameClient_def)

lemma roomCore_trans: "roomCore x y \<Longrightarrow> roomCore y z \<Longrightarrow> roomCore x z"
  by (simp add: roomCore_def)

lemma fewerClients_trans: "fewerClients x y \<Longrightarrow> fewerClients y z \<Longrightarrow> fewerClients x z"
  by (auto simp: fewerClients_def)

lemma sameClient_trans: "sameClient x y \<Longrightarrow> sameClient y z \<Longrightarrow> sameClient x z"
  by (simp add: sameClient_def)

lemma bcastFrame_trans:
  assumes 1: "bcastFrame r h k" and 2: "bcastFrame r k l"
  shows "bcastFrame r h l"
proof -
  have "roomCore (roomHeap h r) (roomHeap l r)" "fewerClients (roomHeap h r) (roomHeap l r)"
    "\<forall>c. sameClient (clientHeap h c) (clientHeap l c)"
    using 1 2 unfolding bcastFrame_def by (blast intro: roomCore_trans fewerClients_trans sameClient_trans)+
  moreover obtain js where "fanoutLog k = fanoutLog h @ js" "fanoutJobs k = fanoutJobs h @ js" "\<forall>j \<in> set js. fanRoom j = r"
    using 1 unfolding bcastFrame_def by blast
  moreover obtain js' where "fanoutLog l = fanoutLog k @ js'" "fanoutJobs l = fanoutJobs k @ js'" "\<forall>j \<in> set js'. fanRoom j = r"
    using 2 unfolding bcastFrame_def by blast
  ultimately have "\<exists>js. fanoutLog l = fanoutLog h @ js \<and> fanoutJobs l = fanoutJobs h @ js \<and> (\<forall>j \<in> set js. fanRoom j = r)"
    by (intro exI [of _ "js @ js'"]) auto
  then show ?thesis
    using 1 2 \<open>roomCore (roomHeap h r) (roomHeap l r)\<close> \<open>fewerClients (roomHeap h r) (roomHeap l r)\<close>
      \<open>\<forall>c. sameClient (clientHeap h c) (clientHeap l c)\<close>
    by (simp add: bcastFrame_def)
qed

lemma setMetrics_simps [simp]:
  "roomHeap (setMetrics f h) = roomHeap h" "clientHeap (setMetrics f h) = clientHeap h"
  "fanoutJobs (setMetrics f h) = fanoutJobs h" "fanoutLog (setMetrics f h) = fanoutLog h"
  "hubConfig (setMetrics f h) = hubConfig h" "hubWriter (setMetrics f h) = hubWriter h"
  "hubRooms (setMetrics f h) = hubRooms h" "nextRoom (setMetrics f h) = nextRoom h"
  "hubSlugs (setMetrics f h) = hubSlugs h" "hubClosed (setMetrics f h) = hubClosed h"
  "broadcastTime (setMetrics f h) = broadcastTime h" "hubCloseErr (setMetrics f h) = hubCloseErr h"
  by (simp_all add: setMetrics_def)

lemma setRoom_simps [simp]:
  "roomHeap (setRoom r f h) = (roomHeap h)(r := f (roomHeap h r))" "clientHeap (setRoom r f h) = clientHeap h"
  "fanoutJobs (setRoom r f h) = fanoutJobs h" "fanoutLog (setRoom r f h) = fanoutLog h"
  "hubConfig (setRoom r f h) = hubConfig h" "hubWriter (setRoom r f h) = hubWriter h"
  "hubRooms (setRoom r f h) = hubRooms h" "nextRoom (setRoom r f h) = nextRoom h"
  "hubSlugs (setRoom r f h) = hubSlugs h" "hubClosed (setRoom r f h) = hubClosed h"
  "broadcastTime (setRoom r f h) = broadcastTime h" "hubCloseErr (setRoom r f h) = hubCloseErr h" "hubMetrics (setRoom r f h) = hubMetrics h"
  by (simp_all add: setRoom_def)

lemma setClient_simps [simp]:
  "clientHeap (setClient c f h) = (clientHeap h)(c := f (clientHeap h c))" "roomHeap (setClient c f h) = roomHeap h"
  "fanoutJobs (setClient c f h) = fanoutJobs h" "fanoutLog (setClient c f h) = fanoutLog h"
  "hubConfig (setClient c f h) = hubConfig h" "hubWriter (setClient c f h) = hubWriter h"
  "hubRooms (setClient c f h) = hubRooms h" "nextRoom (setClient c f h) = nextRoom h"
  "hubSlugs (setClient c f h) = hubSlugs h" "hubClosed (setClient c f h) = hubClosed h"
  "broadcastTime (setClient c f h) = broadcastTime h" "hubCloseErr (setClient c f h) = hubCloseErr h" "hubMetrics (setClient c f h) = hubMetrics h"
  by (simp_all add: setClient_def)

lemma setMetrics_frame: "bcastFrame r h (setMetrics f h)"
  by (simp add: bcastFrame_def roomCore_def fewerClients_def sameClient_def)

lemma length_remove1_le: "length (remove1 x xs) \<le> length xs"
  by (simp add: length_remove1)

lemma removeClient_clients:
  "roomClients (roomHeap (removeClient r c h) r) = remove1 c (roomClients (roomHeap h r))"
  by (simp add: removeClient_def clearCursor_def)

lemma removeClient_frame: "bcastFrame r h (removeClient r c h)"
  by (auto simp: bcastFrame_def roomCore_def fewerClients_def sameClient_def removeClient_def clearCursor_def
      Client_close_def Client_identity_def length_remove1_le dest: notin_set_remove1 set_remove1_subset [THEN subsetD])

lemma fanoutSubmit_frame: "fanoutSubmit \<lparr>fanClient = c, fanData = data, fanRoom = r\<rparr> h = (ok, k) \<Longrightarrow> bcastFrame r h k"
  by (auto simp: fanoutSubmit_def bcastFrame_def roomCore_def fewerClients_def sameClient_def split: if_splits)

lemma broadcastLoop_frame: "bcastFrame r h (broadcastLoop n r data exclude cs h)"
proof (induction n r data exclude cs h rule: broadcastLoop.induct)
  case (1 n r data exclude h)
  show ?case by (simp add: setMetrics_frame)
next
  case (2 n r data exclude c cs h)
  show ?case
  proof (cases "c \<notin> set (roomClients (roomHeap h r)) \<or> exclude = Some c")
    case True
    then show ?thesis using "2.IH"(1) by auto
  next
    case False
    obtain ok h1 where sub: "fanoutSubmit \<lparr>fanClient = c, fanData = data, fanRoom = r\<rparr> h = (ok, h1)"
      by (cases "fanoutSubmit \<lparr>fanClient = c, fanData = data, fanRoom = r\<rparr> h")
    note f1 = fanoutSubmit_frame [OF sub]
    show ?thesis
    proof (cases ok)
      case True
      then have "bcastFrame r h1 (broadcastLoop n r data exclude cs h1)"
        using "2.IH"(2) [OF False sub [symmetric, unfolded True]] by simp
      then show ?thesis using False sub True f1 by (auto intro: bcastFrame_trans)
    next
      case refused: False
      show ?thesis
      proof (cases n)
        case 0
        then show ?thesis using False sub refused f1 by auto
      next
        case (Suc m)
        let ?h2 = "removeClient r c (setMetrics IncDroppedClients h1)"
        let ?h3 = "broadcastLoop m r (presenceData ''leave'' c r ?h2) None (roomClients (roomHeap ?h2 r)) ?h2"
        have sub': "(False, h1) = fanoutSubmit \<lparr>fanClient = c, fanData = data, fanRoom = r\<rparr> h" using sub refused by simp
        have "bcastFrame r h ?h2"
          using f1 setMetrics_frame removeClient_frame by (blast intro: bcastFrame_trans)
        moreover have "bcastFrame r ?h2 ?h3"
          using "2.IH"(3) [OF False sub' _ Suc refl] by simp
        moreover have "bcastFrame r ?h3 (broadcastLoop n r data exclude cs ?h3)"
          using "2.IH"(4) [OF False sub' _ Suc refl refl] by simp
        ultimately have "bcastFrame r h (broadcastLoop n r data exclude cs ?h3)"
          by (blast intro: bcastFrame_trans)
        then show ?thesis using False sub refused Suc by (simp add: Let_def)
      qed
    qed
  qed
qed

section \<open>Operation messages\<close>

definition isOpMessage :: "json \<Rightarrow> bool" where
  "isOpMessage data \<longleftrightarrow> (case decodeEnvelope (Some data) of None \<Rightarrow> False | Some e \<Rightarrow> envType e = MessageOp)"

text \<open>The operation messages among the jobs for one client of one room.\<close>

definition opsSent :: "nat \<Rightarrow> nat \<Rightarrow> fanoutJob list \<Rightarrow> json list" where
  "opsSent r c js = map fanData (filter (\<lambda>j. fanRoom j = r \<and> fanClient j = c \<and> isOpMessage (fanData j)) js)"

lemma isOpMessage_marshal [simp]: "isOpMessage (marshalEnvelope t payload) \<longleftrightarrow> t = MessageOp"
  by (simp add: isOpMessage_def decode_marshalEnvelope)

lemma message_types [simp]:
  "MessagePresence \<noteq> MessageOp" "MessageCursor \<noteq> MessageOp" "MessageSync \<noteq> MessageOp" "MessageError \<noteq> MessageOp"
  by (simp_all add: MessagePresence_def MessageCursor_def MessageSync_def MessageError_def MessageOp_def)

lemma presenceData_not_op [simp]: "\<not> isOpMessage (presenceData event c r h)"
  by (simp add: presenceData_def)

lemma opsSent_append [simp]: "opsSent r c (xs @ ys) = opsSent r c xs @ opsSent r c ys"
  and opsSent_Nil [simp]: "opsSent r c [] = []"
  by (simp_all add: opsSent_def)

definition noOps :: "('x, 'e) Hub \<Rightarrow> ('x, 'e) Hub \<Rightarrow> bool" where
  "noOps h k \<longleftrightarrow> (\<exists>js. fanoutLog k = fanoutLog h @ js \<and> (\<forall>j \<in> set js. \<not> isOpMessage (fanData j)))"

lemma noOps_refl: "fanoutLog k = fanoutLog h \<Longrightarrow> noOps h k"
  by (simp add: noOps_def)

lemma noOps_trans: "noOps h k \<Longrightarrow> noOps k l \<Longrightarrow> noOps h l"
  by (auto simp: noOps_def)

lemma noOps_sent: "noOps h k \<Longrightarrow> \<exists>js. fanoutLog k = fanoutLog h @ js \<and> (\<forall>r c. opsSent r c js = [])"
  by (fastforce simp: noOps_def opsSent_def filter_empty_conv)

lemma removeClient_log [simp]: "fanoutLog (removeClient r c h) = fanoutLog h"
  by (simp add: removeClient_def clearCursor_def)

text \<open>
  Case analysis of one iteration: the client is passed over, gets the job, or is removed, which
  broadcasts its departure to the others.
\<close>

lemma broadcastLoop_Cons [consumes 1, case_names skip sent refused]:
  assumes fuel: "length (roomClients (roomHeap h r)) \<le> n"
  obtains "c \<notin> set (roomClients (roomHeap h r)) \<or> exclude = Some c"
      "broadcastLoop n r data exclude (c # cs) h = broadcastLoop n r data exclude cs h"
  | h1 where "c \<in> set (roomClients (roomHeap h r))" "exclude \<noteq> Some c"
      "int (length (fanoutJobs h)) < FanoutQueueSize (hubConfig h)"
      "h1 = h\<lparr>fanoutJobs := fanoutJobs h @ [\<lparr>fanClient = c, fanData = data, fanRoom = r\<rparr>],
              fanoutLog := fanoutLog h @ [\<lparr>fanClient = c, fanData = data, fanRoom = r\<rparr>]\<rparr>"
      "broadcastLoop n r data exclude (c # cs) h = broadcastLoop n r data exclude cs h1"
  | m h2 where "c \<in> set (roomClients (roomHeap h r))" "exclude \<noteq> Some c" "n = Suc m"
      "FanoutQueueSize (hubConfig h) \<le> int (length (fanoutJobs h))"
      "h2 = removeClient r c (setMetrics IncDroppedClients h)"
      "length (roomClients (roomHeap h2 r)) \<le> m"
      "broadcastLoop n r data exclude (c # cs) h =
         broadcastLoop n r data exclude cs
           (broadcastLoop m r (presenceData ''leave'' c r h2) None (roomClients (roomHeap h2 r)) h2)"
proof (cases "c \<notin> set (roomClients (roomHeap h r)) \<or> exclude = Some c")
  case True
  then show ?thesis by (intro that(1)) auto
next
  case present: False
  show ?thesis
  proof (cases "int (length (fanoutJobs h)) < FanoutQueueSize (hubConfig h)")
    case True
    then show ?thesis using present by (intro that(2)) (auto simp: fanoutSubmit_def)
  next
    case False
    define h2 where "h2 = removeClient r c (setMetrics IncDroppedClients h)"
    have len: "length (roomClients (roomHeap h2 r)) = length (roomClients (roomHeap h r)) - 1"
      using present by (simp add: h2_def removeClient_clients length_remove1)
    have "length (roomClients (roomHeap h r)) > 0" using present by auto
    then obtain m where m: "n = Suc m" using fuel by (cases n) auto
    show ?thesis
      by (rule that(3) [OF _ _ m _ h2_def]) (use present False len fuel m in \<open>auto simp: fanoutSubmit_def h2_def Let_def\<close>)
  qed
qed

lemma broadcastLoop_fewer:
  "length (roomClients (roomHeap (broadcastLoop n r data exclude cs h) r)) \<le> length (roomClients (roomHeap h r))"
  "set (roomClients (roomHeap (broadcastLoop n r data exclude cs h) r)) \<subseteq> set (roomClients (roomHeap h r))"
  using broadcastLoop_frame [of r h n data exclude cs] by (auto simp: bcastFrame_def fewerClients_def)

text \<open>The number of clients is enough fuel.\<close>

lemma broadcastLoop_fuel:
  "length (roomClients (roomHeap h r)) \<le> n \<Longrightarrow> length (roomClients (roomHeap h r)) \<le> n' \<Longrightarrow>
   broadcastLoop n r data exclude cs h = broadcastLoop n' r data exclude cs h"
proof (induction n arbitrary: n' data exclude cs h)
  case 0
  then have "roomClients (roomHeap h r) = []" by simp
  then show ?case by (induction cs) auto
next
  case (Suc m)
  note outer = Suc.IH
  obtain m' where "n' = Suc m' \<or> roomClients (roomHeap h r) = []" using Suc.prems by (cases n') auto
  then show ?case
  proof
    assume "roomClients (roomHeap h r) = []"
    then show ?thesis by (induction cs) auto
  next
    assume n': "n' = Suc m'"
    show ?thesis using Suc.prems
    proof (induction cs arbitrary: h)
      case (Cons c cs)
      from Cons.prems(1) show ?case
      proof (cases rule: broadcastLoop_Cons [where c = c and exclude = exclude and data = data and cs = cs])
        case skip
        then show ?thesis using Cons.IH [OF Cons.prems] by auto
      next
        case (sent h1)
        from sent(4) have "roomHeap h1 = roomHeap h" by simp
        then have "broadcastLoop (Suc m) r data exclude cs h1 = broadcastLoop n' r data exclude cs h1"
          using Cons.prems by (intro Cons.IH) auto
        moreover have "broadcastLoop n' r data exclude (c # cs) h = broadcastLoop n' r data exclude cs h1"
          using sent by (simp add: fanoutSubmit_def)
        ultimately show ?thesis using sent(5) by simp
      next
        case (refused mm h2)
        let ?h3 = "broadcastLoop m r (presenceData ''leave'' c r h2) None (roomClients (roomHeap h2 r)) h2"
        have mm: "mm = m" using refused(3) by simp
        have len: "length (roomClients (roomHeap h2 r)) \<le> m" "length (roomClients (roomHeap h2 r)) \<le> m'"
          using refused(1) Cons.prems n' unfolding refused(5) removeClient_clients by (auto simp: length_remove1)
        have eq: "?h3 = broadcastLoop m' r (presenceData ''leave'' c r h2) None (roomClients (roomHeap h2 r)) h2"
          using outer [OF len] .
        have "broadcastLoop n' r data exclude (c # cs) h = broadcastLoop n' r data exclude cs ?h3"
          unfolding eq using refused n' by (simp add: fanoutSubmit_def Let_def)
        moreover have "broadcastLoop (Suc m) r data exclude cs ?h3 = broadcastLoop n' r data exclude cs ?h3"
          using broadcastLoop_fewer(1) [of m r "presenceData ''leave'' c r h2" None "roomClients (roomHeap h2 r)" h2] len n'
          by (intro Cons.IH) auto
        ultimately show ?thesis using refused(7) mm by simp
      qed
    qed simp
  qed
qed

lemma broadcastLoop_noOps: "\<not> isOpMessage data \<Longrightarrow> noOps h (broadcastLoop n r data exclude cs h)"
proof (induction n r data exclude cs h rule: broadcastLoop.induct)
  case (1 n r data exclude h)
  then show ?case by (simp add: noOps_refl)
next
  case (2 n r data exclude c cs h)
  let ?job = "\<lparr>fanClient = c, fanData = data, fanRoom = r\<rparr>"
  show ?case
  proof (cases "c \<notin> set (roomClients (roomHeap h r)) \<or> exclude = Some c")
    case True
    then show ?thesis using "2.IH"(1) "2.prems" by auto
  next
    case present: False
    obtain ok h1 where sub: "fanoutSubmit ?job h = (ok, h1)" by (cases "fanoutSubmit ?job h")
    have h1: "noOps h h1" using sub "2.prems" by (auto simp: fanoutSubmit_def noOps_def split: if_splits)
    show ?thesis
    proof (cases ok)
      case True
      then have "noOps h1 (broadcastLoop n r data exclude cs h1)"
        using "2.IH"(2) [OF present sub [symmetric, unfolded True]] "2.prems" by simp
      then show ?thesis using present sub True h1 by (auto intro: noOps_trans)
    next
      case False
      then have sub': "(False, h1) = fanoutSubmit ?job h" using sub by simp
      show ?thesis
      proof (cases n)
        case 0
        then show ?thesis using present sub False h1 by auto
      next
        case (Suc m)
        let ?h2 = "removeClient r c (setMetrics IncDroppedClients h1)"
        have "noOps h ?h2" using h1 by (auto simp: noOps_def)
        moreover have "noOps ?h2 (broadcastLoop m r (presenceData ''leave'' c r ?h2) None (roomClients (roomHeap ?h2 r)) ?h2)"
          using "2.IH"(3) [OF present sub' _ Suc refl] by simp
        ultimately show ?thesis
          using "2.IH"(4) [OF present sub' _ Suc refl refl] "2.prems" present sub False Suc
          by (auto simp: Let_def intro: noOps_trans)
      qed
    qed
  qed
qed

text \<open>An operation reaches exactly the clients it is meant for that are still registered.\<close>

definition delivers :: "nat \<Rightarrow> json \<Rightarrow> nat set \<Rightarrow> ('x, 'e) Hub \<Rightarrow> ('x, 'e) Hub \<Rightarrow> bool" where
  "delivers r data D h k \<longleftrightarrow> (\<exists>js. fanoutLog k = fanoutLog h @ js
     \<and> (\<forall>c \<in> set (roomClients (roomHeap k r)). opsSent r c js = (if c \<in> D then [data] else [])))"

lemma delivers_after:
  assumes "delivers r data D h1 k" "fanoutLog h1 = fanoutLog h @ js" "\<And>c. c \<in> D' \<longleftrightarrow> c \<in> D \<or> c = x"
    and "\<And>c. opsSent r c js = (if c = x then [data] else [])" "x \<notin> D"
  shows "delivers r data D' h k"
proof -
  obtain js' where js': "fanoutLog k = fanoutLog h1 @ js'"
      "\<forall>c \<in> set (roomClients (roomHeap k r)). opsSent r c js' = (if c \<in> D then [data] else [])"
    using assms(1) unfolding delivers_def by blast
  then show ?thesis
    unfolding delivers_def using assms(2-5) by (intro exI [of _ "js @ js'"]) auto
qed

lemma delivers_absent:
  assumes "delivers r data D h1 k" "noOps h h1" "x \<notin> set (roomClients (roomHeap k r))" "\<And>c. c \<noteq> x \<Longrightarrow> c \<in> D' \<longleftrightarrow> c \<in> D"
  shows "delivers r data D' h k"
proof -
  obtain js' where js': "fanoutLog k = fanoutLog h1 @ js'"
      "\<forall>c \<in> set (roomClients (roomHeap k r)). opsSent r c js' = (if c \<in> D then [data] else [])"
    using assms(1) unfolding delivers_def by blast
  obtain js where "fanoutLog h1 = fanoutLog h @ js" "\<forall>r c. opsSent r c js = []"
    using noOps_sent [OF assms(2)] by blast
  moreover have same: "c \<in> D' \<longleftrightarrow> c \<in> D" if "c \<in> set (roomClients (roomHeap k r))" for c
    using assms(4) [of c] assms(3) that by (cases "c = x") auto
  ultimately show ?thesis
    unfolding delivers_def using js' same by (intro exI [of _ "js @ js'"]) auto
qed

lemma broadcastLoop_delivers:
  "isOpMessage data \<Longrightarrow> length (roomClients (roomHeap h r)) \<le> n \<Longrightarrow> distinct (roomClients (roomHeap h r)) \<Longrightarrow> distinct cs \<Longrightarrow>
   delivers r data {c \<in> set cs. exclude \<noteq> Some c} h (broadcastLoop n r data exclude cs h)"
proof (induction cs arbitrary: h)
  case Nil
  then show ?case by (simp add: delivers_def)
next
  case (Cons c cs)
  let ?k = "broadcastLoop n r data exclude (c # cs) h"
  from Cons.prems(2) show ?case
  proof (cases rule: broadcastLoop_Cons [where c = c and exclude = exclude and data = data and cs = cs])
    case skip
    have IH: "delivers r data {c \<in> set cs. exclude \<noteq> Some c} h ?k"
      using Cons.IH [of h] Cons.prems skip(2) by simp
    show ?thesis
    proof (cases "exclude = Some c")
      case True
      then have "{c' \<in> set (c # cs). exclude \<noteq> Some c'} = {c' \<in> set cs. exclude \<noteq> Some c'}" by auto
      then show ?thesis using IH by (simp only:)
    next
      case False
      then have "c \<notin> set (roomClients (roomHeap ?k r))" using skip broadcastLoop_fewer(2) by blast
      then show ?thesis by (rule delivers_absent [OF IH noOps_refl [OF refl]]) auto
    qed
  next
    case (sent h1)
    have "roomHeap h1 = roomHeap h" using sent(4) by simp
    then have "delivers r data {c \<in> set cs. exclude \<noteq> Some c} h1 ?k"
      using Cons.IH [of h1] Cons.prems sent(5) by simp
    then show ?thesis
      by (rule delivers_after [where js = "[\<lparr>fanClient = c, fanData = data, fanRoom = r\<rparr>]" and x = c])
        (use sent Cons.prems in \<open>auto simp: opsSent_def\<close>)
  next
    case (refused m h2)
    let ?h3 = "broadcastLoop m r (presenceData ''leave'' c r h2) None (roomClients (roomHeap h2 r)) h2"
    have c2: "roomClients (roomHeap h2 r) = remove1 c (roomClients (roomHeap h r))"
      unfolding refused(5) removeClient_clients by simp
    have h3: "distinct (roomClients (roomHeap ?h3 r))" "length (roomClients (roomHeap ?h3 r)) \<le> n"
        "c \<notin> set (roomClients (roomHeap ?h3 r))"
      using broadcastLoop_frame [of r h2 m "presenceData ''leave'' c r h2" None "roomClients (roomHeap h2 r)"]
        Cons.prems(3) refused(3,6) by (auto simp: bcastFrame_def fewerClients_def c2)
    have IH: "delivers r data {c \<in> set cs. exclude \<noteq> Some c} ?h3 ?k"
      using Cons.IH [of ?h3] Cons.prems h3 refused(7) by simp
    have "noOps h h2" unfolding refused(5) by (simp add: noOps_refl)
    then have "noOps h ?h3" using broadcastLoop_noOps presenceData_not_op by (blast intro: noOps_trans)
    moreover have "c \<notin> set (roomClients (roomHeap ?k r))" 
      using h3(3) broadcastLoop_fewer(2) [of n r data exclude cs ?h3] unfolding refused(7) by blast
    ultimately show ?thesis by (rule delivers_absent [OF IH]) auto
  qed
qed

end
