(* ===== verification/Hub_Run.thy ===== *)
theory Hub_Run
  imports Room_Fanout
begin

text \<open>
  Runs of the hub: the goroutines of the rooms, the fan-out worker, the connections, the writer
  and the requests that open rooms interleave as steps. The interface \<open>hub_frame\<close> says what a
  relation between the states before and after has to admit so that every step but an accepted
  operation, a join and a compaction is covered; it is interpreted once for each invariant.
\<close>

section \<open>Runs\<close>

text \<open>The events of a run that matter to a client: joins, accepted operations, compactions.\<close>

datatype room_event = Joined nat nat | Accepted nat "nat option" Operation int | Compacted nat

definition eventsOf :: "nat \<Rightarrow> ('x, 'e) Hub \<Rightarrow> room_event list" where
  "eventsOf r h =
     (case commands (roomHeap h r) of
        commandRegister (Some c) # _ \<Rightarrow> [Joined r c]
      | commandOperation p op t # _ \<Rightarrow>
          (case Apply (Some (roomDocument (roomHeap h r))) op of Inl _ \<Rightarrow> [] | Inr _ \<Rightarrow> [Accepted r p op t])
      | commandCompact _ # _ \<Rightarrow> [Compacted r]
      | _ \<Rightarrow> [])"

text \<open>Steps of the timers, the fan-out worker, the connections, the writer and the requests.\<close>

inductive hub_quiet :: "('x, 'e) WriterExecutor \<Rightarrow> ('x, 'e) Hub \<Rightarrow> ('x, 'e) Hub \<Rightarrow> bool" for ex where
  idle: "\<not> roomDone (roomHeap h r) \<Longrightarrow> idleArmed (roomHeap h r) \<Longrightarrow> hub_quiet ex h (idleFired r h)"
| tick: "\<not> roomDone (roomHeap h r) \<Longrightarrow> hub_quiet ex h (snapshotTick r h)"
| cancelled: "\<not> roomDone (roomHeap h r) \<Longrightarrow> hub_quiet ex h (contextDone r h)"
| fanout: "fanoutWorker pick h = Some k \<Longrightarrow> hub_quiet ex h k"
| join: "serveJoin pick read findUser r c h = Some k \<Longrightarrow> r < nextRoom h \<Longrightarrow> hub_quiet ex h k"
| leave: "serveLeave pick r c h = Some k \<Longrightarrow> r < nextRoom h \<Longrightarrow> hub_quiet ex h k"
| inbound: "handleInbound pick r c data h = Some k \<Longrightarrow> r < nextRoom h \<Longrightarrow> hub_quiet ex h k"
| written: "writeStep ok c h = Some (data, k) \<Longrightarrow> hub_quiet ex h k"
| ping: "hub_quiet ex h (pingStep ok c h)"
| shut: "shutdown pick r h = Some k \<Longrightarrow> r < nextRoom h \<Longrightarrow> hub_quiet ex h k"
| saved: "SnapshotSaved pick d ids (Some h) = Some k \<Longrightarrow> hub_quiet ex h k"
| request: "prepareRoom t1 t2 t3 load slug h = (res, k) \<Longrightarrow> hub_quiet ex h k"
| received: "hubWriter h = Some w \<Longrightarrow> receiveJob ex w = Some w' \<Longrightarrow> hub_quiet ex h (h\<lparr>hubWriter := Some w'\<rparr>)"
| flushed: "hubWriter h = Some w \<Longrightarrow> \<not> doneWriter w \<Longrightarrow> hub_quiet ex h (h\<lparr>hubWriter := Some (timerFired ex w)\<rparr>)"
| clock: "hub_quiet ex h (h\<lparr>broadcastTime := t\<rparr>)"
| closing: "hub_quiet ex h (h\<lparr>hubClosed := True\<rparr>)"

section \<open>Joining\<close>

definition addClient :: "nat \<Rightarrow> nat \<Rightarrow> ('x, 'e) Hub \<Rightarrow> ('x, 'e) Hub" where
  "addClient r c h =
     setRoom r (\<lambda>x. x\<lparr>roomClients := (if c \<in> set (roomClients x) then roomClients x else roomClients x @ [c])\<rparr>)
       (setClient c (\<lambda>x. x\<lparr>clientRoom := Some r\<rparr>) h)"

text \<open>The message a client gets when it joins.\<close>

definition syncMessage :: "nat \<Rightarrow> nat \<Rightarrow> PresenceIdentity list \<Rightarrow> ('x, 'e) Hub \<Rightarrow> json" where
  "syncMessage r c presence h =
     (let d = roomDocument (roomHeap h r)
      in marshalEnvelope MessageSync
           (encodeSync (Client_identity (clientHeap h c))
              (if chars d = [] then JNull else marshalChars (snapshotOf d)) (roomSequence (roomHeap h r)) presence))"

lemma register_Some:
  "register r (Some c) h =
     (case enqueueTo (Some c) (syncData r c (addClient r c h)) (addClient r c h) of
        (False, h2) \<Rightarrow> setClient c Client_close (setRoom r (\<lambda>x. x\<lparr>roomClients := remove1 c (roomClients x)\<rparr>) h2)
      | (True, h2) \<Rightarrow> broadcastPresence r ''join'' c (Some c) (setMetrics IncActiveConnections h2))"
  by (simp add: register_def addClient_def Let_def)

section \<open>Relations every quiet step respects\<close>

text \<open>Updates of a room that keep its identity, its document and its commands and add no client.\<close>

definition harmless :: "(Room \<Rightarrow> Room) \<Rightarrow> bool" where
  "harmless f \<longleftrightarrow> (\<forall>x. roomSlug (f x) = roomSlug x \<and> roomDocumentID (f x) = roomDocumentID x
     \<and> roomDocument (f x) = roomDocument x \<and> roomSequence (f x) = roomSequence x \<and> commands (f x) = commands x
     \<and> set (roomClients (f x)) \<subseteq> set (roomClients x) \<and> (distinct (roomClients x) \<longrightarrow> distinct (roomClients (f x)))
     \<and> (roomDone x \<longrightarrow> roomDone (f x)))"

text \<open>Updates of the document, its numbering and what waits to be persisted.\<close>

definition neutral :: "(Room \<Rightarrow> Room) \<Rightarrow> bool" where
  "neutral f \<longleftrightarrow> (\<forall>x. roomSlug (f x) = roomSlug x \<and> roomDocumentID (f x) = roomDocumentID x
     \<and> commands (f x) = commands x \<and> roomClients (f x) = roomClients x \<and> roomDone (f x) = roomDone x)"

text \<open>Updates of the metrics that leave the gauge of the rooms alone.\<close>

definition plainMetric :: "(Metrics option \<Rightarrow> Metrics option) \<Rightarrow> bool" where
  "plainMetric f \<longleftrightarrow> (\<forall>m. map_option activeRooms (f m) = map_option activeRooms m)"

lemma plainMetrics [simp]:
  "plainMetric IncOperations" "plainMetric IncDroppedClients" "plainMetric IncActiveConnections"
  "plainMetric DecActiveConnections" "plainMetric (ObserveBroadcastLatency d)" "plainMetric (AddTombstonesCompacted n)"
  by (auto simp: plainMetric_def IncOperations_def IncDroppedClients_def IncActiveConnections_def DecActiveConnections_def
      AddActiveConnections_def ObserveBroadcastLatency_def AddTombstonesCompacted_def option.map_comp o_def Let_def
      intro!: option.map_cong)

locale hub_frame =
  fixes F :: "('x, 'e) Hub \<Rightarrow> ('x, 'e) Hub \<Rightarrow> bool"
    and quietData :: "json \<Rightarrow> bool"
    and ex :: "('x, 'e) WriterExecutor"
  assumes F_refl: "F h h"
    and F_trans: "F h k \<Longrightarrow> F k l \<Longrightarrow> F h l"
    and F_client: "F h (setClient c f h)"
    and F_metrics: "plainMetric g \<Longrightarrow> F h (setMetrics g h)"
    and F_room: "harmless u \<Longrightarrow> F h (setRoom r u h)"
    and F_push: "\<not> commandsFull r h \<Longrightarrow> F h (pushCommand r cmd h)"
    and F_pop: "commands (roomHeap h r) = cmd # rest \<Longrightarrow> F h (setRoom r (\<lambda>x. x\<lparr>commands := rest\<rparr>) h)"
    and F_job: "quietData data \<Longrightarrow> job = \<lparr>fanClient = c, fanData = data, fanRoom = r\<rparr> \<Longrightarrow>
      F h (h\<lparr>fanoutJobs := fanoutJobs h @ [job], fanoutLog := fanoutLog h @ [job]\<rparr>)"
    and F_jobs: "F h (h\<lparr>fanoutJobs := js\<rparr>)"
    and F_slugs: "F h (h\<lparr>hubSlugs := sc\<rparr>)"
    and F_time: "F h (h\<lparr>broadcastTime := t\<rparr>)"
    and F_closing: "F h (h\<lparr>hubClosed := True\<rparr>)"
    and F_snapshot: "hubWriter h = Some w \<Longrightarrow> EnqueueSnapshot d cs v (Some w) = (ok, w') \<Longrightarrow> F h (h\<lparr>hubWriter := w'\<rparr>)"
    and F_receive: "hubWriter h = Some w \<Longrightarrow> receiveJob ex w = Some w1 \<Longrightarrow> F h (h\<lparr>hubWriter := Some w1\<rparr>)"
    and F_flush: "hubWriter h = Some w \<Longrightarrow> \<not> doneWriter w \<Longrightarrow> F h (h\<lparr>hubWriter := Some (timerFired ex w)\<rparr>)"
    and F_remove: "F h (removeRoom r h)"
    and quiet: "message \<noteq> MessageOp \<Longrightarrow> quietData (marshalEnvelope message payload)"
begin

lemma F_enqueueTo: "F h (snd (enqueueTo p data h))"
  by (auto simp: enqueueTo_def F_refl F_client split: option.splits prod.splits)

lemma F_clearCursor: "F h (clearCursor r c h)"
  unfolding clearCursor_def by (rule F_room) (simp add: harmless_def)

lemma F_armIdle: "F h (armIdle b r h)"
  unfolding armIdle_def by (rule F_room) (simp add: harmless_def)

lemma F_finishRoom: "F h (finishRoom r h)"
  unfolding finishRoom_def by (rule F_room) (simp add: harmless_def)

lemma F_dropClient: "F h (setRoom r (\<lambda>x. x\<lparr>roomClients := remove1 c (roomClients x)\<rparr>) h)"
  by (rule F_room) (auto simp: harmless_def dest: notin_set_remove1 set_remove1_subset [THEN subsetD])

lemma F_removeClient: "F h (removeClient r c h)"
proof -
  let ?h1 = "setRoom r (\<lambda>x. x\<lparr>roomClients := remove1 c (roomClients x)\<rparr>) h"
  let ?h2 = "setMetrics DecActiveConnections ?h1"
  have "F h ?h2" using F_trans [OF F_dropClient F_metrics] by simp
  then have "F h (clearCursor r c ?h2)" using F_trans F_clearCursor by blast
  then show ?thesis unfolding removeClient_def using F_trans F_client by blast
qed

lemma presence_quiet: "quietData (presenceData event c r h)"
  unfolding presenceData_def by (rule quiet) simp

lemma F_broadcastLoop: "quietData data \<Longrightarrow> F h (broadcastLoop n r data exclude cs h)"
proof (induction n r data exclude cs h rule: broadcastLoop.induct)
  case (1 n r data exclude h)
  show ?case by (simp add: F_metrics)
next
  case (2 n r data exclude c cs h)
  let ?job = "\<lparr>fanClient = c, fanData = data, fanRoom = r\<rparr>"
  show ?case
  proof (cases "c \<notin> set (roomClients (roomHeap h r)) \<or> exclude = Some c")
    case True
    then show ?thesis using "2.IH"(1) "2.prems" by auto
  next
    case present: False
    obtain ok h1 where sub: "fanoutSubmit ?job h = (ok, h1)" by (cases "fanoutSubmit ?job h")
    have h1: "F h h1"
      using sub F_job [OF "2.prems" refl] by (auto simp: fanoutSubmit_def F_refl split: if_splits)
    show ?thesis
    proof (cases ok)
      case True
      then have "F h1 (broadcastLoop n r data exclude cs h1)"
        using "2.IH"(2) [OF present sub [symmetric, unfolded True]] "2.prems" by simp
      then show ?thesis using present sub True F_trans [OF h1] by auto
    next
      case False
      then have sub': "(False, h1) = fanoutSubmit ?job h" using sub by simp
      show ?thesis
      proof (cases n)
        case 0
        then show ?thesis using present sub False h1 by auto
      next
        case (Suc m)
        let ?h2 = "removeClient r c (setMetrics IncDroppedClients h1)"
        let ?h3 = "broadcastLoop m r (presenceData ''leave'' c r ?h2) None (roomClients (roomHeap ?h2 r)) ?h2"
        have h2: "F h ?h2"
          using F_trans [OF F_trans [OF h1 F_metrics] F_removeClient] by simp
        have h3: "F ?h2 ?h3" using "2.IH"(3) [OF present sub' _ Suc refl] by (simp add: presence_quiet)
        have "F ?h3 (broadcastLoop n r data exclude cs ?h3)"
          using "2.IH"(4) [OF present sub' _ Suc refl refl] "2.prems" by simp
        then show ?thesis using F_trans [OF F_trans [OF h2 h3]] present sub False Suc by (simp add: Let_def)
      qed
    qed
  qed
qed

lemma F_broadcast: "quietData data \<Longrightarrow> F h (broadcast r data exclude h)"
  unfolding broadcast_def Let_def by (rule F_broadcastLoop)

lemma F_broadcastPresence: "F h (broadcastPresence r event c exclude h)"
  unfolding broadcastPresence_def by (rule F_broadcast [OF presence_quiet])

lemma F_requestSnapshot: "F h (requestSnapshot r h)"
proof (cases "hubWriter h")
  case None
  then show ?thesis by (simp add: requestSnapshot_def F_refl)
next
  case (Some w)
  obtain ok w' where w': "EnqueueSnapshot (roomDocumentID (roomHeap h r)) (snapshotOf (roomDocument (roomHeap h r)))
      (roomSequence (roomHeap h r)) (Some w) = (ok, w')" by fastforce
  have "F (h\<lparr>hubWriter := w'\<rparr>) (setRoom r (\<lambda>x. x\<lparr>opsSinceSnapshot := 0\<rparr>) (h\<lparr>hubWriter := w'\<rparr>))"
    by (rule F_room) (simp add: harmless_def)
  then show ?thesis
    using Some w' F_snapshot [OF Some w'] F_trans [OF F_snapshot [OF Some w']]
    by (auto simp: requestSnapshot_def Let_def F_refl)
qed

lemma F_closeClients: "F h (closeClients r h)"
proof -
  let ?f = "\<lambda>c h. setClient c Client_close (clearCursor r c (setMetrics DecActiveConnections h))"
  have one: "F k (?f c k)" for c k
    using F_trans [OF F_trans [OF F_metrics F_clearCursor] F_client] by simp
  have "F k (fold ?f cs k)" for cs k
    by (induction cs arbitrary: k) (auto simp: F_refl intro: F_trans [OF one])
  moreover have "F k (setRoom r (\<lambda>x. x\<lparr>roomClients := []\<rparr>) k)" for k
    by (rule F_room) (simp add: harmless_def)
  ultimately show ?thesis unfolding closeClients_def using F_trans by blast
qed

lemma F_unregister: "F h (unregister r p h)"
  unfolding unregister_def using F_trans [OF F_removeClient F_broadcastPresence]
  by (auto simp: F_refl split: option.splits)

lemma F_applyCursor: "F h (applyCursor r c h)"
proof -
  let ?h1 = "setRoom r (\<lambda>x. x\<lparr>pendingCursors := AList.delete c (pendingCursors x),
                             cursorQueued := AList.update c False (cursorQueued x)\<rparr>) h"
  have h1: "F h ?h1" by (rule F_room) (simp add: harmless_def)
  have "F ?h1 (broadcast r (marshalEnvelope MessageCursor p) (Some c) ?h1)" for p
    by (rule F_broadcast) (simp add: quiet)
  then show ?thesis
    unfolding applyCursor_def Let_def using h1 F_trans [OF h1] by (auto split: option.splits)
qed

lemma F_submit: "submit pick r cmd h = Some k \<Longrightarrow> F h k"
  by (auto simp: submit_def F_push F_refl split: if_splits)

lemma F_submitCompaction: "F h (submitCompaction pick r ids h)"
  by (auto simp: submitCompaction_def F_push F_refl)

lemma F_SubmitCursor: "F h (SubmitCursor pick r c payload h)"
proof -
  have set: "F h (setRoom r (\<lambda>x. x\<lparr>pendingCursors := f x, cursorQueued := g x\<rparr>) h)"
    "F h (setRoom r (\<lambda>x. x\<lparr>pendingCursors := f x\<rparr>) h)" for f g
    by (rule F_room; simp add: harmless_def)+
  show ?thesis
    unfolding SubmitCursor_def Let_def
    by (auto intro: set F_trans [OF set(1) F_push] F_trans [OF set(1) F_clearCursor])
qed

lemma F_shutdown: "shutdown pick r h = Some k \<Longrightarrow> F h k"
proof -
  have "F h (setRoom r (\<lambda>x. x\<lparr>shutdownSent := True\<rparr>) h)" by (rule F_room) (simp add: harmless_def)
  then show "shutdown pick r h = Some k \<Longrightarrow> F h k"
    using F_trans F_submit by (auto simp: shutdown_def F_refl split: if_splits)
qed

lemma F_SnapshotSaved: "SnapshotSaved pick d ids (Some h) = Some k \<Longrightarrow> F h k"
  by (auto simp: SnapshotSaved_def F_refl F_submitCompaction split: if_splits option.splits)

lemma F_handleInbound: "handleInbound pick r c data h = Some k \<Longrightarrow> F h k"
  by (auto simp: handleInbound_def sendError_def SubmitOperationWithTimestamp_def F_refl F_enqueueTo F_SubmitCursor
      split: option.splits if_splits dest: F_submit)

lemma F_writeStep: "writeStep ok c h = Some (data, k) \<Longrightarrow> F h k"
  by (auto simp: writeStep_def Let_def F_client split: if_splits list.splits intro: F_trans [OF F_client F_client])

lemma F_pingStep: "F h (pingStep ok c h)"
  by (simp add: pingStep_def F_refl F_client)

lemma F_serveJoin: "serveJoin pick read findUser r c h = Some k \<Longrightarrow> F h k"
  by (auto simp: serveJoin_def Room_Register_def F_client split: sum.splits dest!: F_submit intro: F_trans [OF F_client])

lemma F_serveLeave: "serveLeave pick r c h = Some k \<Longrightarrow> F h k"
  by (auto simp: serveLeave_def Room_Unregister_def dest!: F_submit intro: F_trans [OF F_client])

lemma F_fanoutWorker: "fanoutWorker pick h = Some k \<Longrightarrow> F h k"
proof -
  assume worker: "fanoutWorker pick h = Some k"
  then obtain job rest where jobs: "fanoutJobs h = job # rest" by (auto simp: fanoutWorker_def split: list.splits)
  let ?h1 = "h\<lparr>fanoutJobs := rest\<rparr>"
  obtain ok h2 where h2: "enqueueTo (Some (fanClient job)) (fanData job) ?h1 = (ok, h2)"
    by (cases "enqueueTo (Some (fanClient job)) (fanData job) ?h1")
  have "F ?h1 h2" using F_enqueueTo [of ?h1 "Some (fanClient job)" "fanData job"] h2 by simp
  then have F2: "F h h2" by (rule F_trans [OF F_jobs])
  then have F3: "F h (setMetrics IncDroppedClients h2)" using F_trans [OF _ F_metrics] by simp
  show "F h k"
  proof (cases ok)
    case True
    then show ?thesis using worker jobs h2 F2 by (simp add: fanoutWorker_def)
  next
    case False
    then have "submit pick (fanRoom job) (commandUnregister (Some (fanClient job))) (setMetrics IncDroppedClients h2) = Some k"
      using worker jobs h2 by (simp add: fanoutWorker_def Room_Unregister_def)
    then show ?thesis using F_trans [OF F3 F_submit] by blast
  qed
qed

lemma F_idleFired: "F h (idleFired r h)"
  unfolding idleFired_def
  using F_trans [OF F_trans [OF F_requestSnapshot F_remove] F_finishRoom] F_armIdle by auto

lemma F_snapshotTick: "F h (snapshotTick r h)"
  by (simp add: snapshotTick_def F_refl F_requestSnapshot)

lemma F_endRoom: "F h (finishRoom r (closeClients r (requestSnapshot r h)))"
  by (rule F_trans [OF F_trans [OF F_requestSnapshot F_closeClients] F_finishRoom])

lemma F_prepareRoom: "prepareRoom t1 t2 t3 load slug h = (res, k) \<Longrightarrow> F h k"
  by (auto simp: prepareRoom_def Let_def F_refl F_slugs split: option.splits if_splits sum.splits)

lemma F_quiet: "hub_quiet ex h k \<Longrightarrow> F h k"
  by (induction rule: hub_quiet.induct)
    (simp_all add: F_idleFired F_snapshotTick contextDone_def F_endRoom F_fanoutWorker F_serveJoin F_serveLeave
      F_handleInbound F_writeStep F_pingStep F_shutdown F_SnapshotSaved F_prepareRoom F_receive F_flush F_time F_closing)

lemma F_joined: "F (addClient r c h) (register r (Some c) h)"
proof -
  let ?h1 = "addClient r c h"
  obtain ok h2 where h2: "enqueueTo (Some c) (syncData r c ?h1) ?h1 = (ok, h2)"
    by (cases "enqueueTo (Some c) (syncData r c ?h1) ?h1")
  have "F ?h1 h2" using F_enqueueTo [of ?h1 "Some c" "syncData r c ?h1"] h2 by simp
  moreover have "F h2 (setClient c Client_close (setRoom r (\<lambda>x. x\<lparr>roomClients := remove1 c (roomClients x)\<rparr>) h2))"
    by (rule F_trans [OF F_dropClient F_client])
  moreover have "F h2 (broadcastPresence r ''join'' c (Some c) (setMetrics IncActiveConnections h2))"
    using F_trans [OF F_metrics F_broadcastPresence] by simp
  ultimately show ?thesis
    using h2 F_trans by (auto simp: register_Some split: bool.splits)
qed

text \<open>Every command but a join, an operation and a compaction.\<close>

lemma F_handleCommand:
  assumes "case cmd of commandRegister p \<Rightarrow> p = None | commandOperation _ _ _ \<Rightarrow> False | commandCompact _ \<Rightarrow> False | _ \<Rightarrow> True"
  shows "F h (handleCommand r cmd h)"
  using assms F_trans [OF F_unregister F_armIdle]
  by (cases cmd) (auto simp: handleCommand_def register_def Let_def F_armIdle F_unregister F_applyCursor F_endRoom)

end

text \<open>
  Relations that the other commands respect as well. Commands are taken by rooms that have not
  ended.
\<close>

locale hub_frame_all = hub_frame +
  assumes all_quiet: "quietData data"
    and F_add: "\<not> roomDone (roomHeap h r) \<Longrightarrow> F h (addClient r c h)"
    and F_doc: "neutral v \<Longrightarrow> F h (setRoom r v h)"
    and F_writer: "hubWriter h = Some w \<Longrightarrow> F h (h\<lparr>hubWriter := snd (EnqueueOps d user ops (Some w))\<rparr>)"
begin

lemma F_applyOperation: "F h (applyOperation r p op t h)"
proof (cases "Apply (Some (roomDocument (roomHeap h r))) op")
  case (Inl e)
  then show ?thesis by (auto simp: applyOperation_def F_refl F_enqueueTo split: option.splits)
next
  case (Inr d)
  let ?h1 = "setMetrics IncOperations (setRoom r (\<lambda>x. x\<lparr>roomDocument := d, roomSequence := roomSequence x + 1,
                                opsSinceSnapshot := opsSinceSnapshot x + 1\<rparr>) h)"
  have h1: "F h ?h1"
    by (rule F_trans [OF F_doc F_metrics]) (simp_all add: neutral_def)
  have persist: "F k (queuePersistence r p op k)" for k
  proof (cases "hubWriter k")
    case None
    then show ?thesis by (auto simp: queuePersistence_def intro!: F_doc simp: neutral_def)
  qed (auto simp: queuePersistence_def Let_def F_writer)
  define h2 where "h2 = queuePersistence r p op (broadcast r (marshalEnvelope MessageOp (encodeOperationPayload
    \<lparr>payloadOp = op, payloadSequence = roomSequence (roomHeap ?h1 r), payloadSentAt = t\<rparr>)) p ?h1)"
  have h2: "F h h2" unfolding h2_def by (rule F_trans [OF F_trans [OF h1 F_broadcast [OF all_quiet]] persist])
  have "applyOperation r p op t h = h2 \<or> applyOperation r p op t h = requestSnapshot r h2"
    using Inr by (auto simp: applyOperation_def Let_def h2_def)
  then show ?thesis using h2 F_trans [OF h2 F_requestSnapshot] by auto
qed

lemma F_applyCompaction: "F h (applyCompaction r ids h)"
proof -
  have "F h (setRoom r (\<lambda>x. x\<lparr>roomDocument := d\<rparr>) h)" for d by (rule F_doc) (simp add: neutral_def)
  then show ?thesis
    by (auto simp: applyCompaction_def Let_def F_refl split: sum.splits intro: F_trans [OF _ F_metrics])
qed

lemma F_command: "takeCommand r h = Some k \<Longrightarrow> F h k"
proof -
  assume take: "takeCommand r h = Some k"
  then obtain cmd rest where cmd: "commands (roomHeap h r) = cmd # rest" "\<not> roomDone (roomHeap h r)"
      and k: "k = handleCommand r cmd (setRoom r (\<lambda>x. x\<lparr>commands := rest\<rparr>) h)"
    by (auto simp: takeCommand_def split: if_splits list.splits)
  let ?h = "setRoom r (\<lambda>x. x\<lparr>commands := rest\<rparr>) h"
  have "F ?h k"
  proof (cases cmd)
    case (commandRegister p)
    show ?thesis
    proof (cases p)
      case None
      then show ?thesis using commandRegister F_handleCommand [of cmd] k by simp
    next
      case (Some c)
      have "F ?h (addClient r c (armIdle False r ?h))"
        by (rule F_trans [OF F_armIdle F_add]) (use cmd(2) in \<open>simp add: armIdle_def\<close>)
      then show ?thesis using F_trans [OF _ F_joined] commandRegister Some k by (simp add: handleCommand_def)
    qed
  next
    case (commandOperation p op t)
    then show ?thesis using k by (simp add: handleCommand_def F_applyOperation)
  next
    case (commandCompact ids)
    then show ?thesis using k by (simp add: handleCommand_def F_applyCompaction)
  qed (use F_handleCommand [of cmd ?h r] k in simp)+
  then show "F h k" by (rule F_trans [OF F_pop [OF cmd(1)]])
qed

end

text \<open>A room that is installed was rebuilt from some stored document.\<close>

inductive hub_run ::
  "('x, 'e) WriterExecutor \<Rightarrow> ('x, 'e) Hub \<Rightarrow> room_event list \<Rightarrow> ('x, 'e) Hub \<Rightarrow> bool" for ex h0 where
  start: "hub_run ex h0 [] h0"
| quiet: "hub_run ex h0 tr h \<Longrightarrow> hub_quiet ex h k \<Longrightarrow> hub_run ex h0 tr k"
| command: "hub_run ex h0 tr h \<Longrightarrow> r < nextRoom h \<Longrightarrow> takeCommand r h = Some k \<Longrightarrow> hub_run ex h0 (tr @ eventsOf r h) k"
| opened: "hub_run ex h0 tr h \<Longrightarrow> documentFromLoaded l = Inr d \<Longrightarrow>
    installRoom slug (newRoom slug (storedID l) d (storedVersion l) (loadedOperations l)) h = (r, k) \<Longrightarrow> hub_run ex h0 tr k"

end
