(* ===== verification/Writer_Open.thy ===== *)
theory Writer_Open
  imports Writer_Theorems
begin

text \<open>
  A writer that nobody has asked to close: it has no barrier in its queue and answers none, it
  accepts every operation unless its queue is full, and every refusal is reported to the observer.
\<close>

definition plainJob :: "writerJob \<Rightarrow> bool" where
  "plainJob j \<longleftrightarrow> (jobKind j = writerOperations \<or> jobKind j = writerSnapshotSignal) \<and> jobResponse j = None"

definition openWriter :: "('x, 'e) Writer \<Rightarrow> bool" where
  "openWriter w \<longleftrightarrow> \<not> writerClosed w \<and> \<not> doneWriter w \<and> \<not> closeStarted w \<and> responses w = [] \<and> (\<forall>j \<in> set (jobs w). plainJob j)"

definition keepsOpen :: "('x, 'e) Writer \<Rightarrow> ('x, 'e) Writer \<Rightarrow> bool" where
  "keepsOpen w w' \<longleftrightarrow> config w' = config w \<and> set (observed w) \<subseteq> set (observed w') \<and> (openWriter w \<longrightarrow> openWriter w')"

lemma openWriter_New: "openWriter (NewWriterWithConfig x obs c)"
  by (simp add: openWriter_def NewWriterWithConfig_def Let_def)

lemma keepsOpen_refl [simp]: "keepsOpen w w"
  by (simp add: keepsOpen_def)

lemma keepsOpen_trans: "keepsOpen w w1 \<Longrightarrow> keepsOpen w1 w2 \<Longrightarrow> keepsOpen w w2"
  by (auto simp: keepsOpen_def)

lemma keepsOpenI:
  assumes "config w' = config w" "set (observed w) \<subseteq> set (observed w')" "jobs w' = jobs w" "writerClosed w' = writerClosed w"
    "doneWriter w' = doneWriter w" "closeStarted w' = closeStarted w" "responses w' = responses w"
  shows "keepsOpen w w'"
  using assms by (auto simp: keepsOpen_def openWriter_def)

lemma keepsOpen_observe: "keepsOpen w (observeQueueDepth w)"
  by (rule keepsOpenI) (auto simp: observeQueueDepth_def)

lemma keepsOpen_drop: "keepsOpen w (dropQueueItem w)"
  by (rule keepsOpenI) (auto simp: dropQueueItem_def)

lemma keepsOpen_push: "plainJob j \<Longrightarrow> keepsOpen w (w\<lparr>jobs := jobs w @ [j]\<rparr>)"
  by (auto simp: keepsOpen_def openWriter_def)

lemma keepsOpen_EnqueueOps: "EnqueueOps d user ops (Some w) = (ok, Some w') \<Longrightarrow> keepsOpen w w'"
  by (auto simp: EnqueueOps_def keepsOpen_drop plainJob_def split: if_splits intro!: keepsOpen_trans [OF keepsOpen_push keepsOpen_observe])

lemma keepsOpen_register: "registerSnapshot d cs v w = (should, w') \<Longrightarrow> keepsOpen w w'"
  by (auto simp: registerSnapshot_def intro!: keepsOpenI)

lemma keepsOpen_signal: "sendSignal w = (ok, w') \<Longrightarrow> keepsOpen w w'"
proof -
  have "plainJob signalJob" by (simp add: signalJob_def plainJob_def)
  note push = keepsOpen_trans [OF keepsOpen_push [OF this] keepsOpen_observe]
  have "keepsOpen w (w\<lparr>snapshotQueued := False\<rparr>)" by (rule keepsOpenI) auto
  then have "keepsOpen w (dropQueueItem (w\<lparr>snapshotQueued := False\<rparr>))" using keepsOpen_drop by (rule keepsOpen_trans)
  then show "sendSignal w = (ok, w') \<Longrightarrow> keepsOpen w w'"
    using push by (auto simp: sendSignal_def split: if_splits)
qed

lemma keepsOpen_EnqueueSnapshot: "EnqueueSnapshot d cs v (Some w) = (ok, Some w') \<Longrightarrow> keepsOpen w w'"
  using keepsOpen_register [of d cs v w] keepsOpen_signal
  by (auto simp: EnqueueSnapshot_def split: if_splits prod.splits intro: keepsOpen_trans)

lemma keepsOpen_flush: "flush ex w = (err, w') \<Longrightarrow> keepsOpen w w'"
  by (rule keepsOpenI) (auto simp: flush_def Let_def split: if_splits prod.splits)

lemma keepsOpen_saveSnapshotJob: "saveSnapshotJob ex s w = (err, w') \<Longrightarrow> keepsOpen w w'"
  by (rule keepsOpenI) (auto simp: saveSnapshotJob_def Let_def split: if_splits prod.splits option.splits)

lemma keepsOpen_saveSnapshotJobs: "saveSnapshotJobs ex ss err0 w = (err, w') \<Longrightarrow> keepsOpen w w'"
proof (induction ss arbitrary: err0 w)
  case (Cons s ss)
  obtain e w1 where w1: "saveSnapshotJob ex s w = (e, w1)" by fastforce
  then show ?case using Cons keepsOpen_trans [OF keepsOpen_saveSnapshotJob [OF w1]] by simp
qed simp

lemma keepsOpen_flushSnapshots:
  assumes "flushSnapshots ex w = (err, w')"
  shows "keepsOpen w w'"
proof -
  obtain ss w1 where t: "takeSnapshots w = (ss, w1)" by fastforce
  obtain e w2 where j: "saveSnapshotJobs ex ss None w1 = (e, w2)" by fastforce
  have "keepsOpen w w1" using t by (intro keepsOpenI) (auto simp: takeSnapshots_def)
  moreover have "keepsOpen w2 w'" using assms by (intro keepsOpenI) (auto simp: flushSnapshots_def t j)
  ultimately show ?thesis using keepsOpen_saveSnapshotJobs [OF j] keepsOpen_trans by blast
qed

lemma keepsOpen_flushAll:
  assumes "flushAll ex w = (errs, w')"
  shows "keepsOpen w w'"
proof -
  obtain e1 w1 where 1: "flush ex (w\<lparr>timerActive := False\<rparr>) = (e1, w1)" by fastforce
  obtain e2 w2 where 2: "flushSnapshots ex w1 = (e2, w2)" by fastforce
  have "keepsOpen w (w\<lparr>timerActive := False\<rparr>)" by (rule keepsOpenI) auto
  then have "keepsOpen w w2"
    using keepsOpen_trans keepsOpen_flush [OF 1] keepsOpen_flushSnapshots [OF 2] by blast
  then show ?thesis using assms by (simp add: flushAll_def 1 2)
qed

lemma keepsOpen_timer: "keepsOpen w (timerFired ex w)"
proof -
  obtain e w1 where 1: "flush ex (w\<lparr>timerActive := False\<rparr>) = (e, w1)" by fastforce
  have "keepsOpen w (w\<lparr>timerActive := False\<rparr>)" by (rule keepsOpenI) auto
  then show ?thesis using keepsOpen_trans keepsOpen_flush [OF 1] by (auto simp: timerFired_def 1)
qed

lemma addPending_fields:
  "config (addPending d user ops w) = config w" "observed (addPending d user ops w) = observed w"
  "jobs (addPending d user ops w) = jobs w" "writerClosed (addPending d user ops w) = writerClosed w"
  "doneWriter (addPending d user ops w) = doneWriter w" "closeStarted (addPending d user ops w) = closeStarted w"
  "responses (addPending d user ops w) = responses w"
  by (induction ops arbitrary: w) (simp_all add: addPending_def)

lemma keepsOpen_handleJob:
  assumes "plainJob j"
  shows "keepsOpen w (handleJob ex j w)"
proof (cases "jobKind j = writerOperations")
  case True
  let ?w = "(addPending (jobDocument j) (jobUser j) (jobOps j) (observeQueueDepth w))"
  have pend: "keepsOpen w (?w\<lparr>timerActive := b\<rparr>)" for b
    by (rule keepsOpen_trans [OF keepsOpen_observe]) (rule keepsOpenI; simp add: addPending_fields)
  obtain e w1 where "flush ex (?w\<lparr>timerActive := False\<rparr>) = (e, w1)" by fastforce
  then show ?thesis
    using pend keepsOpen_trans [OF pend keepsOpen_flush] True by (simp add: handleJob_def Let_def)
next
  case False
  then have j: "jobKind j = writerSnapshotSignal" "jobResponse j = None" using assms by (auto simp: plainJob_def)
  obtain errs w1 where fl: "flushAll ex (observeQueueDepth w) = (errs, w1)" by fastforce
  then show ?thesis
    using keepsOpen_trans [OF keepsOpen_observe keepsOpen_flushAll [OF fl]] j by (simp add: handleJob_def respond_def)
qed

lemma observed_handleJob: "config (handleJob ex j w) = config w \<and> set (observed w) \<subseteq> set (observed (handleJob ex j w))"
proof (cases "plainJob (j\<lparr>jobResponse := None\<rparr>)")
  case True
  then have "keepsOpen w (handleJob ex (j\<lparr>jobResponse := None\<rparr>) w)" by (rule keepsOpen_handleJob)
  then show ?thesis
    using True by (auto simp: keepsOpen_def handleJob_def Let_def plainJob_def respond_def split: prod.splits option.splits)
next
  case False
  obtain errs w1 where fl: "flushAll ex (observeQueueDepth w) = (errs, w1)" by fastforce
  have "keepsOpen w w1" by (rule keepsOpen_trans [OF keepsOpen_observe keepsOpen_flushAll [OF fl]])
  then show ?thesis
    using False by (cases "jobKind j") (auto simp: keepsOpen_def handleJob_def fl plainJob_def respond_def split: option.splits)
qed

lemma keepsOpen_receive:
  assumes "receiveJob ex w = Some w'"
  shows "keepsOpen w w'"
proof -
  obtain j rest where j: "jobs w = j # rest" "w' = handleJob ex j (w\<lparr>jobs := rest\<rparr>)"
    using assms by (auto simp: receiveJob_def split: if_splits list.splits)
  have "openWriter w'" if "openWriter w"
  proof -
    have "plainJob j" "openWriter (w\<lparr>jobs := rest\<rparr>)" using that j(1) by (simp_all add: openWriter_def)
    then show ?thesis using keepsOpen_handleJob unfolding j(2) keepsOpen_def by blast
  qed
  then show ?thesis using observed_handleJob [of ex j "w\<lparr>jobs := rest\<rparr>"] by (simp add: keepsOpen_def j(2))
qed

text \<open>A refusal shows in the observer's calls.\<close>

lemma open_refusal:
  assumes "EnqueueOps d user ops (Some w) = (False, Some w')" "openWriter w" "hasObserver (config w)"
  shows "IncWriteQueueDropped \<in> set (observed w')"
  using assms by (auto simp: EnqueueOps_def openWriter_def dropQueueItem_def split: if_splits)

end
