(* ===== verification/Room_Persistence.thy ===== *)
theory Room_Persistence
  imports Hub_Run Writer_Open
begin

text \<open>
  Rooms and the writer together: within a run of the hub the writer makes a run of its own, and
  the operations it accepted for a document are among those the rooms of that document accepted,
  in the same order; they are all of them as long as the writer has reported no refusal.
\<close>

section \<open>Steps of the writer within a run of the hub\<close>

definition writerFrame :: "('x, 'e) WriterExecutor \<Rightarrow> ('x, 'e) Hub \<Rightarrow> ('x, 'e) Hub \<Rightarrow> bool" where
  "writerFrame ex h k \<longleftrightarrow> nextRoom k = nextRoom h \<and> (\<forall>r. roomDocumentID (roomHeap k r) = roomDocumentID (roomHeap h r))
     \<and> (\<forall>w. hubWriter h = Some w \<longrightarrow>
          (\<exists>w'. hubWriter k = Some w' \<and> keepsOpen w w' \<and> (\<forall>w0 acc n. writer_run ex w0 acc n w \<longrightarrow> writer_run ex w0 acc n w')))"

lemma writerFrame_same:
  "nextRoom k = nextRoom h \<Longrightarrow> (\<And>r. roomDocumentID (roomHeap k r) = roomDocumentID (roomHeap h r)) \<Longrightarrow>
   hubWriter k = hubWriter h \<Longrightarrow> writerFrame ex h k"
  by (simp add: writerFrame_def)

lemma writerFrame_trans: "writerFrame ex h k \<Longrightarrow> writerFrame ex k l \<Longrightarrow> writerFrame ex h l"
  by (fastforce simp: writerFrame_def intro: keepsOpen_trans)

lemma EnqueueSnapshot_run:
  assumes "EnqueueSnapshot d cs v (Some w) = (ok, w')"
  obtains w1 where "w' = Some w1" "\<And>w0 acc n. writer_run ex w0 acc n w \<Longrightarrow> writer_run ex w0 acc n w1"
proof (cases "writerClosed w")
  case True
  then show ?thesis using assms that by (auto simp: EnqueueSnapshot_def)
next
  case open_w: False
  obtain should w1 where reg: "registerSnapshot d cs v w = (should, w1)" by (cases "registerSnapshot d cs v w")
  show ?thesis
  proof (cases should)
    case True
    obtain ok2 w2 where sig: "sendSignal w1 = (ok2, w2)" by (cases "sendSignal w1")
    have "writer_run ex w0 acc n w2" if "writer_run ex w0 acc n w" for w0 acc n
      using writer_run.signal [OF _ sig] writer_run.register [OF that open_w reg] True by simp
    then show ?thesis using assms open_w reg sig True that by (auto simp: EnqueueSnapshot_def)
  next
    case False
    have "writer_run ex w0 acc n w1" if "writer_run ex w0 acc n w" for w0 acc n
      using writer_run.register [OF that open_w reg] False by simp
    then show ?thesis using assms open_w reg False that by (auto simp: EnqueueSnapshot_def)
  qed
qed

interpretation persist: hub_frame "writerFrame ex" "\<lambda>_. True" ex for ex
proof
  show "writerFrame ex h k \<Longrightarrow> writerFrame ex k l \<Longrightarrow> writerFrame ex h l" for h k l :: "('a, 'b) Hub"
    by (rule writerFrame_trans)
  show "writerFrame ex h (setRoom r u h)" if "harmless u" for h :: "('a, 'b) Hub" and r u
    using that by (intro writerFrame_same) (auto simp: harmless_def)
  show "writerFrame ex h (pushCommand r cmd h)" for h :: "('a, 'b) Hub" and r cmd
    by (intro writerFrame_same) (auto simp: pushCommand_def)
  show "writerFrame ex h (removeRoom r h)" for h :: "('a, 'b) Hub" and r
    by (intro writerFrame_same) (auto simp: removeRoom_def Let_def)
  show "writerFrame ex h (h\<lparr>hubWriter := w'\<rparr>)"
    if w: "hubWriter h = Some w" and snap: "EnqueueSnapshot d cs v (Some w) = (ok, w')" for h :: "('a, 'b) Hub" and w d cs v ok w'
  proof -
    obtain w1 where w1: "w' = Some w1" "\<And>w0 acc n. writer_run ex w0 acc n w \<Longrightarrow> writer_run ex w0 acc n w1"
      using EnqueueSnapshot_run [OF snap, of ex] by blast
    have "keepsOpen w w1" using snap unfolding w1(1) by (rule keepsOpen_EnqueueSnapshot)
    then show ?thesis using w w1 by (auto simp: writerFrame_def)
  qed
  show "writerFrame ex h (h\<lparr>hubWriter := Some w1\<rparr>)"
    if "hubWriter h = Some w" "receiveJob ex w = Some w1" for h :: "('a, 'b) Hub" and w w1
    using that writer_run.receive by (fastforce simp: writerFrame_def keepsOpen_receive)
  show "writerFrame ex h (h\<lparr>hubWriter := Some (timerFired ex w)\<rparr>)"
    if "hubWriter h = Some w" "\<not> doneWriter w" for h :: "('a, 'b) Hub" and w
    using that writer_run.timer by (fastforce simp: writerFrame_def keepsOpen_timer)
qed (auto intro: writerFrame_same)

section \<open>The operations of a document\<close>

fun eventOps :: "(nat \<Rightarrow> int) \<Rightarrow> int \<Rightarrow> room_event list \<Rightarrow> Operation list" where
  "eventOps ids d [] = []"
| "eventOps ids d (Accepted r p op t # es) = (if ids r = d then op # eventOps ids d es else eventOps ids d es)"
| "eventOps ids d (_ # es) = eventOps ids d es"

lemma eventOps_append [simp]: "eventOps ids d (xs @ ys) = eventOps ids d xs @ eventOps ids d ys"
  by (induction ids d xs rule: eventOps.induct) auto

lemma eventOps_cong:
  "(\<And>r p op t. Accepted r p op t \<in> set es \<Longrightarrow> ids r = ids' r) \<Longrightarrow> eventOps ids d es = eventOps ids' d es"
proof (induction ids d es rule: eventOps.induct)
  case (2 ids d r p op t es)
  have "ids r = ids' r" using "2.prems" [of r p op t] by simp
  moreover have "eventOps ids d es = eventOps ids' d es" using "2.IH" "2.prems" by (cases "ids r = d") auto
  ultimately show ?case by simp
qed auto

abbreviation roomIDs :: "('x, 'e) Hub \<Rightarrow> nat \<Rightarrow> int" where
  "roomIDs h \<equiv> \<lambda>r. roomDocumentID (roomHeap h r)"

text \<open>What an open writer accepted is everything that was handed to it, while it reports no refusal.\<close>

definition allAccepted ::
  "('x, 'e) Writer \<Rightarrow> ('x, 'e) Writer \<Rightarrow> (int \<times> OperationWrite) list \<Rightarrow> (int \<Rightarrow> Operation list) \<Rightarrow> bool" where
  "allAccepted w0 w acc ops \<longleftrightarrow> (openWriter w0 \<longrightarrow> openWriter w \<and> config w = config w0
     \<and> (hasObserver (config w0) \<and> IncWriteQueueDropped \<notin> set (observed w) \<longrightarrow> (\<forall>d. map writeOp (acceptedOf acc d) = ops d)))"

lemma acceptedOf_snoc: "acceptedOf (acc @ [(d', x)]) d = acceptedOf acc d @ (if d' = d then [x] else [])"
  by (simp add: acceptedOf_def)

lemma allAccepted_step: "allAccepted w0 w acc ops \<Longrightarrow> keepsOpen w w' \<Longrightarrow> allAccepted w0 w' acc ops"
  by (auto simp: allAccepted_def keepsOpen_def)

lemma allAccepted_enqueue:
  assumes all: "allAccepted w0 w acc ops" and enq: "EnqueueOps e user [op] (Some w) = (good, Some w')"
  shows "allAccepted w0 w' (if good then acc @ map (Pair e) (writesOf user [op]) else acc) (\<lambda>d. ops d @ (if e = d then [op] else []))"
  unfolding allAccepted_def
proof (intro impI conjI)
  assume w0: "openWriter w0"
  then have w: "openWriter w" "config w = config w0" using all by (auto simp: allAccepted_def)
  have keep: "openWriter w'" "config w' = config w" "set (observed w) \<subseteq> set (observed w')"
    using keepsOpen_EnqueueOps [OF enq] w(1) by (auto simp: keepsOpen_def)
  then show "openWriter w'" "config w' = config w0" using w by simp_all
  assume seen: "hasObserver (config w0) \<and> IncWriteQueueDropped \<notin> set (observed w')"
  then have good using open_refusal [of e user "[op]" w w'] enq w by (cases good) auto
  moreover have "\<forall>d. map writeOp (acceptedOf acc d) = ops d" using all w0 seen keep(3) by (auto simp: allAccepted_def)
  ultimately show "\<forall>d. map writeOp (acceptedOf (if good then acc @ map (Pair e) (writesOf user [op]) else acc) d)
      = ops d @ (if e = d then [op] else [])"
    by (simp add: writesOf_def acceptedOf_snoc)
qed

definition persistInv ::
  "('x, 'e) WriterExecutor \<Rightarrow> ('x, 'e) Writer \<Rightarrow> room_event list \<Rightarrow> ('x, 'e) Hub \<Rightarrow> bool" where
  "persistInv ex w0 tr h \<longleftrightarrow> (\<exists>w acc n. hubWriter h = Some w \<and> writer_run ex w0 acc n w
     \<and> (\<forall>d. subseq (map writeOp (acceptedOf acc d)) (eventOps (roomIDs h) d tr))
     \<and> allAccepted w0 w acc (\<lambda>d. eventOps (roomIDs h) d tr))
   \<and> (\<forall>r p op t. Accepted r p op t \<in> set tr \<longrightarrow> r < nextRoom h)"

lemma persistInv_frame:
  assumes inv: "persistInv ex w0 tr h" and step: "writerFrame ex h k"
    and es: "\<And>d ids. eventOps ids d es = []" "\<And>r p op t. Accepted r p op t \<notin> set es"
  shows "persistInv ex w0 (tr @ es) k"
proof -
  obtain w acc n where w: "hubWriter h = Some w" "writer_run ex w0 acc n w"
      "\<forall>d. subseq (map writeOp (acceptedOf acc d)) (eventOps (roomIDs h) d tr)"
      "allAccepted w0 w acc (\<lambda>d. eventOps (roomIDs h) d tr)"
    using inv unfolding persistInv_def by blast
  obtain w' where w': "hubWriter k = Some w'" "writer_run ex w0 acc n w'" "keepsOpen w w'"
    using step w(1,2) unfolding writerFrame_def by blast
  have same: "roomIDs k = roomIDs h" "nextRoom k = nextRoom h" using step by (auto simp: writerFrame_def)
  have "allAccepted w0 w' acc (\<lambda>d. eventOps (roomIDs k) d (tr @ es))"
    using allAccepted_step [OF w(4) w'(3)] same es by simp
  moreover have "\<forall>r p op t. Accepted r p op t \<in> set (tr @ es) \<longrightarrow> r < nextRoom k"
    using inv es(2) same(2) unfolding persistInv_def by auto
  ultimately show ?thesis using w(3) w'(1,2) same es(1) unfolding persistInv_def by auto
qed

lemma persistInv_operation:
  assumes inv: "persistInv ex w0 tr h" and r: "r < nextRoom h"
    and ok: "Apply (Some (roomDocument (roomHeap h r))) op = Inr d"
  shows "persistInv ex w0 (tr @ [Accepted r p op t]) (applyOperation r p op t h)"
proof -
  define h1 where "h1 = setMetrics IncOperations (setRoom r (\<lambda>x. x\<lparr>roomDocument := d, roomSequence := roomSequence x + 1,
                                  opsSinceSnapshot := opsSinceSnapshot x + 1\<rparr>) h)"
  define data where "data = marshalEnvelope MessageOp (encodeOperationPayload
    \<lparr>payloadOp = op, payloadSequence = roomSequence (roomHeap h1 r), payloadSentAt = t\<rparr>)"
  define h2 where "h2 = broadcast r data p h1"
  define h3 where "h3 = queuePersistence r p op h2"
  have "writerFrame ex h h1" by (rule writerFrame_same) (auto simp: h1_def)
  then have F2: "writerFrame ex h h2"
    unfolding h2_def using writerFrame_trans [OF _ persist.F_broadcast] by blast
  obtain w acc n where w: "hubWriter h2 = Some w" "writer_run ex w0 acc n w"
      "\<forall>d. subseq (map writeOp (acceptedOf acc d)) (eventOps (roomIDs h2) d tr)"
      "allAccepted w0 w acc (\<lambda>d. eventOps (roomIDs h2) d tr)"
      and rooms: "\<forall>r p op t. Accepted r p op t \<in> set tr \<longrightarrow> r < nextRoom h2"
    using persistInv_frame [OF inv F2, of "[]"] unfolding persistInv_def by auto
  obtain user where user: "h3 = h2\<lparr>hubWriter := snd (EnqueueOps (roomIDs h2 r) user [op] (Some w))\<rparr>"
    using w(1) by (auto simp: h3_def queuePersistence_def Let_def)
  obtain good w' where enq: "EnqueueOps (roomIDs h2 r) user [op] (Some w) = (good, Some w')"
    by (cases "writerClosed w"; cases "queueFull w") (auto simp: EnqueueOps_def)
  define acc' where "acc' = (if good then acc @ map (Pair (roomIDs h2 r)) (writesOf user [op]) else acc)"
  have run: "writer_run ex w0 acc' n w'" unfolding acc'_def by (rule writer_run.enqueue [OF w(2) enq])
  have "subseq (map writeOp (acceptedOf acc' e)) (eventOps (roomIDs h2) e (tr @ [Accepted r p op t]))" for e
  proof -
    have "subseq (map writeOp (acceptedOf acc e)) (eventOps (roomIDs h2) e tr)" using w(3) by blast
    then show ?thesis
      by (auto simp: acc'_def acceptedOf_snoc writesOf_def intro: list_emb_append_mono subseq_rev_drop_many)
  qed
  moreover have "allAccepted w0 w' acc' (\<lambda>e. eventOps (roomIDs h2) e (tr @ [Accepted r p op t]))"
  proof -
    have "(\<lambda>e. eventOps (roomIDs h2) e (tr @ [Accepted r p op t]))
        = (\<lambda>e. eventOps (roomIDs h2) e tr @ (if roomIDs h2 r = e then [op] else []))" by (simp add: fun_eq_iff)
    then show ?thesis using allAccepted_enqueue [OF w(4) enq] unfolding acc'_def by simp
  qed
  moreover have "roomIDs h3 = roomIDs h2" "nextRoom h3 = nextRoom h2" "hubWriter h3 = Some w'"
    using user enq by simp_all
  moreover have "nextRoom h2 = nextRoom h" using F2 by (simp add: writerFrame_def)
  moreover have "\<forall>r' p' op' t'. Accepted r' p' op' t' \<in> set (tr @ [Accepted r p op t]) \<longrightarrow> r' < nextRoom h2"
    using rooms r calculation(6) by auto
  ultimately have inv3: "persistInv ex w0 (tr @ [Accepted r p op t]) h3"
    unfolding persistInv_def using run by metis
  have "applyOperation r p op t h = h3 \<or> applyOperation r p op t h = requestSnapshot r h3"
    using ok by (auto simp: applyOperation_def Let_def h1_def data_def h2_def h3_def)
  then show ?thesis
    using inv3 persistInv_frame [OF inv3 persist.F_requestSnapshot, of "[]"] by auto
qed

lemma persistInv_command:
  assumes inv: "persistInv ex w0 tr h" and r: "r < nextRoom h" and k: "takeCommand r h = Some k"
  shows "persistInv ex w0 (tr @ eventsOf r h) k"
proof -
  obtain cmd rest where cmd: "commands (roomHeap h r) = cmd # rest"
    using k by (auto simp: takeCommand_def split: if_splits list.splits)
  define h1 where "h1 = setRoom r (\<lambda>x. x\<lparr>commands := rest\<rparr>) h"
  have pop: "writerFrame ex h h1" unfolding h1_def by (rule persist.F_pop [OF cmd])
  have same: "roomDocument (roomHeap h1 r) = roomDocument (roomHeap h r)" "nextRoom h1 = nextRoom h"
    by (simp_all add: h1_def)
  have k_eq: "k = handleCommand r cmd h1" using k cmd by (auto simp: takeCommand_def h1_def split: if_splits)
  have quiet: "persistInv ex w0 (tr @ eventsOf r h) k"
    if "writerFrame ex h1 k" "\<And>d ids. eventOps ids d (eventsOf r h) = []" "\<And>r' p op t. Accepted r' p op t \<notin> set (eventsOf r h)"
    by (rule persistInv_frame [OF inv writerFrame_trans [OF pop that(1)] that(2,3)])
  show ?thesis
  proof (cases cmd)
    case (commandRegister p)
    have "writerFrame ex h1 k"
    proof (cases p)
      case (Some c)
      have "writerFrame ex h1 (addClient r c (armIdle False r h1))"
        by (rule writerFrame_same) (auto simp: addClient_def armIdle_def)
      then show ?thesis
        using writerFrame_trans [OF _ persist.F_joined] commandRegister Some k_eq by (auto simp: handleCommand_def)
    qed (use commandRegister k_eq persist.F_handleCommand [of cmd ex h1 r] in simp)
    then show ?thesis using cmd commandRegister by (intro quiet) (auto simp: eventsOf_def split: option.splits)
  next
    case (commandOperation p op t)
    have k_op: "k = applyOperation r p op t h1" using commandOperation k_eq by (simp add: handleCommand_def)
    show ?thesis
    proof (cases "Apply (Some (roomDocument (roomHeap h r))) op")
      case (Inl e)
      then have "writerFrame ex h1 k"
        using same k_op by (auto simp: applyOperation_def persist.F_refl persist.F_enqueueTo split: option.splits)
      then show ?thesis using commandOperation cmd Inl by (intro quiet) (auto simp: eventsOf_def)
    next
      case (Inr d)
      have "persistInv ex w0 tr h1" using persistInv_frame [OF inv pop, of "[]"] by simp
      from persistInv_operation [OF this, of r op d p t] show ?thesis
        using Inr r same commandOperation cmd by (simp add: k_op eventsOf_def)
    qed
  next
    case (commandCompact ids)
    have "writerFrame ex h1 k"
      by (rule writerFrame_same)
        (auto simp: k_eq commandCompact handleCommand_def applyCompaction_def Compact_def Let_def split: prod.splits)
    then show ?thesis using cmd commandCompact by (intro quiet) (auto simp: eventsOf_def)
  qed (rule quiet; use cmd persist.F_handleCommand [of cmd ex h1 r] in \<open>simp add: k_eq eventsOf_def\<close>)+
qed

lemma persistInv_run:
  assumes "hub_run ex h0 tr h" "hubWriter h0 = Some w0"
  shows "persistInv ex w0 tr h"
  using assms
proof (induction rule: hub_run.induct)
  case start
  have "writer_run ex w0 [] 0 w0" by (rule writer_run.start)
  moreover have "map writeOp (acceptedOf [] d) = []" for d by (simp add: acceptedOf_def)
  moreover from this have "allAccepted w0 w0 [] (\<lambda>d. eventOps (roomIDs h0) d [])" by (simp add: allAccepted_def)
  ultimately show ?case using start unfolding persistInv_def by force
next
  case (quiet tr h k)
  then show ?case using persistInv_frame [OF _ persist.F_quiet, of ex w0 tr h k "[]"] by simp
next
  case (command tr h r k)
  then show ?case by (simp add: persistInv_command)
next
  case (opened tr h l d slug r k)
  then have inv: "persistInv ex w0 tr h" by simp
  obtain w acc n where w: "hubWriter h = Some w" "writer_run ex w0 acc n w"
      "\<forall>d. subseq (map writeOp (acceptedOf acc d)) (eventOps (roomIDs h) d tr)"
      "allAccepted w0 w acc (\<lambda>d. eventOps (roomIDs h) d tr)"
    using inv unfolding persistInv_def by blast
  have old: "\<forall>r p op t. Accepted r p op t \<in> set tr \<longrightarrow> r < nextRoom h" using inv unfolding persistInv_def by blast
  have k: "hubWriter k = hubWriter h" "nextRoom h \<le> nextRoom k" "\<And>r. r < nextRoom h \<Longrightarrow> roomIDs k r = roomIDs h r"
    using opened.hyps(3) by (auto simp: installRoom_def Let_def split: option.splits)
  have "eventOps (roomIDs k) e tr = eventOps (roomIDs h) e tr" for e
    by (rule eventOps_cong) (use old k(3) in blast)
  moreover have "\<forall>r p op t. Accepted r p op t \<in> set tr \<longrightarrow> r < nextRoom k" using old k(2) less_le_trans by blast
  ultimately show ?case unfolding persistInv_def using w k(1) by auto
qed

end
