(* ===== verification/Room_Run.thy ===== *)
theory Room_Run
  imports Hub_Run
begin

text \<open>
  What a client has been sent since it joined, and what happened to the document of its room
  meanwhile. A step is calm when it changes no document, no sequence number and no set of clients
  (but by removal) and sends no operation.
\<close>

section \<open>Calm steps\<close>

definition calmRoom :: "Room \<Rightarrow> Room \<Rightarrow> bool" where
  "calmRoom x y \<longleftrightarrow> roomDocument y = roomDocument x \<and> roomSequence y = roomSequence x
     \<and> set (roomClients y) \<subseteq> set (roomClients x) \<and> (distinct (roomClients x) \<longrightarrow> distinct (roomClients y))"

definition calm :: "('x, 'e) Hub \<Rightarrow> ('x, 'e) Hub \<Rightarrow> bool" where
  "calm h k \<longleftrightarrow> (\<forall>r. calmRoom (roomHeap h r) (roomHeap k r)) \<and> noOps h k \<and> nextRoom k = nextRoom h"

lemma calmRoom_refl [simp]: "calmRoom x x"
  by (simp add: calmRoom_def)

lemma calmRoom_trans: "calmRoom x y \<Longrightarrow> calmRoom y z \<Longrightarrow> calmRoom x z"
  by (auto simp: calmRoom_def)

lemma calm_refl: "calm h h"
  by (simp add: calm_def noOps_refl)

lemma calm_trans: "calm h k \<Longrightarrow> calm k l \<Longrightarrow> calm h l"
  using noOps_trans [of h k l] by (auto simp: calm_def intro: calmRoom_trans)

lemma calm_bcast: "bcastFrame r h k \<Longrightarrow> noOps h k \<Longrightarrow> calm h k"
  by (auto simp: calm_def calmRoom_def bcastFrame_def roomCore_def fewerClients_def)

lemma calm_setRoom: "harmless f \<Longrightarrow> calm h (setRoom r f h)"
  by (auto simp: harmless_def calm_def calmRoom_def noOps_def)

lemma calm_fields: "roomHeap k = roomHeap h \<Longrightarrow> fanoutLog k = fanoutLog h \<Longrightarrow> nextRoom k = nextRoom h \<Longrightarrow> calm h k"
  by (simp add: calm_def noOps_def)

lemma calm_popCommand: "calm h (setRoom r (\<lambda>x. x\<lparr>commands := rest\<rparr>) h)"
  by (auto simp: calm_def calmRoom_def noOps_def)

interpretation calm: hub_frame calm "\<lambda>data. \<not> isOpMessage data" ex for ex
proof
  fix h :: "('a, 'b) Hub" and data c r and job :: fanoutJob
  assume "\<not> isOpMessage data" "job = \<lparr>fanClient = c, fanData = data, fanRoom = r\<rparr>"
  then show "calm h (h\<lparr>fanoutJobs := fanoutJobs h @ [job], fanoutLog := fanoutLog h @ [job]\<rparr>)"
    by (auto simp: calm_def noOps_def)
next
  show "calm h (removeRoom r h)" for h :: "('a, 'b) Hub" and r
    by (simp add: removeRoom_def Let_def calm_def noOps_def)
next
  show "calm h (pushCommand r cmd h)" for h :: "('a, 'b) Hub" and r cmd
    unfolding pushCommand_def by (auto simp: calm_def calmRoom_def noOps_def)
next
  show "calm h k \<Longrightarrow> calm k l \<Longrightarrow> calm h l" for h k l :: "('a, 'b) Hub" by (rule calm_trans)
qed (simp_all add: calm_refl calm_setRoom calm_popCommand calm_fields)

lemma calm_queuePersistence: "calm h (queuePersistence r p op h)"
proof -
  have "calm h (h\<lparr>hubWriter := w\<rparr>)" for w by (rule calm_fields) auto
  moreover have "calm h (setRoom r (\<lambda>x. x\<lparr>roomPersist := f x\<rparr>) h)" for f
    by (rule calm_setRoom) (simp add: harmless_def)
  ultimately show ?thesis by (auto simp: queuePersistence_def Let_def split: option.splits)
qed

section \<open>Joining\<close>

lemma broadcast_clientSend: "clientSend (clientHeap (broadcast r data exclude h) c) = clientSend (clientHeap h c)"
  using broadcastLoop_frame [of r h _ data exclude "roomClients (roomHeap h r)"]
  by (auto simp: broadcast_def Let_def bcastFrame_def sameClient_def)

lemma register_sync:
  assumes dist: "distinct (roomClients (roomHeap h r))" and joined: "c \<in> set (roomClients (roomHeap (register r (Some c) h) r))"
  shows "\<exists>presence. clientSend (clientHeap (register r (Some c) h) c) = clientSend (clientHeap h c) @ [syncMessage r c presence h]"
proof -
  let ?h1 = "addClient r c h"
  let ?data = "syncData r c ?h1"
  have data: "?data = syncMessage r c (activePresence r ?h1) h"
    by (simp add: syncData_def syncMessage_def addClient_def Let_def Client_identity_def)
  show ?thesis
  proof (cases "fst (enqueueTo (Some c) ?data ?h1)")
    case True
    then have eq: "enqueueTo (Some c) ?data ?h1 = (True, setClient c (\<lambda>x. x\<lparr>clientSend := clientSend x @ [?data]\<rparr>) ?h1)"
      by (auto simp: enqueueTo_def Client_enqueue_def setClient_def split: if_splits)
    have "clientSend (clientHeap (register r (Some c) h) c) = clientSend (clientHeap h c) @ [?data]"
      unfolding register_Some eq by (simp add: broadcastPresence_def broadcast_clientSend addClient_def)
    then show ?thesis using data by auto
  next
    case False
    then obtain h2 where eq: "enqueueTo (Some c) ?data ?h1 = (False, h2)"
      by (cases "enqueueTo (Some c) ?data ?h1") auto
    have "roomHeap h2 = roomHeap ?h1" using eq by (auto simp: enqueueTo_def split: prod.splits)
    then have "c \<notin> set (roomClients (roomHeap (register r (Some c) h) r))"
      using dist unfolding register_Some eq by (simp add: addClient_def)
    then show ?thesis using joined by simp
  qed
qed

section \<open>Operations\<close>

definition opMessage :: "Operation \<Rightarrow> int \<Rightarrow> int \<Rightarrow> json" where
  "opMessage op n t = marshalEnvelope MessageOp
     (encodeOperationPayload \<lparr>payloadOp = op, payloadSequence = n, payloadSentAt = t\<rparr>)"

lemma isOpMessage_opMessage [simp]: "isOpMessage (opMessage op n t)"
  by (simp add: opMessage_def)

text \<open>What an accepted operation does to the hub.\<close>

definition opStep :: "nat \<Rightarrow> json \<Rightarrow> nat option \<Rightarrow> Document \<Rightarrow> ('x, 'e) Hub \<Rightarrow> ('x, 'e) Hub \<Rightarrow> bool" where
  "opStep r data sender d h k \<longleftrightarrow> (\<forall>q. q \<noteq> r \<longrightarrow> calmRoom (roomHeap h q) (roomHeap k q))
     \<and> roomDocument (roomHeap k r) = d \<and> roomSequence (roomHeap k r) = roomSequence (roomHeap h r) + 1
     \<and> set (roomClients (roomHeap k r)) \<subseteq> set (roomClients (roomHeap h r)) \<and> distinct (roomClients (roomHeap k r))
     \<and> nextRoom k = nextRoom h
     \<and> (\<exists>js. fanoutLog k = fanoutLog h @ js \<and> (\<forall>q c. q \<noteq> r \<longrightarrow> opsSent q c js = [])
        \<and> (\<forall>c \<in> set (roomClients (roomHeap k r)). opsSent r c js = (if sender = Some c then [] else [data])))"

lemma opStep_calm:
  assumes "opStep r data p d h k" "calm k l"
  shows "opStep r data p d h l"
proof -
  obtain js where js: "fanoutLog k = fanoutLog h @ js" "\<forall>q c. q \<noteq> r \<longrightarrow> opsSent q c js = []"
      "\<forall>c \<in> set (roomClients (roomHeap k r)). opsSent r c js = (if p = Some c then [] else [data])"
    using assms(1) unfolding opStep_def by blast
  obtain js' where js': "fanoutLog l = fanoutLog k @ js'" "\<forall>r c. opsSent r c js' = []"
    using assms(2) noOps_sent [of k l] unfolding calm_def by blast
  have sub: "set (roomClients (roomHeap l r)) \<subseteq> set (roomClients (roomHeap k r))"
    using assms(2) by (simp add: calm_def calmRoom_def)
  have "\<exists>js. fanoutLog l = fanoutLog h @ js \<and> (\<forall>q c. q \<noteq> r \<longrightarrow> opsSent q c js = [])
        \<and> (\<forall>c \<in> set (roomClients (roomHeap l r)). opsSent r c js = (if p = Some c then [] else [data]))"
    using js js' sub by (intro exI [of _ "js @ js'"]) auto
  moreover have "calmRoom (roomHeap h q) (roomHeap l q)" if "q \<noteq> r" for q
    using assms that by (meson calmRoom_trans calm_def opStep_def)
  moreover have "roomDocument (roomHeap l r) = d" "roomSequence (roomHeap l r) = roomSequence (roomHeap h r) + 1"
      "set (roomClients (roomHeap l r)) \<subseteq> set (roomClients (roomHeap h r))" "distinct (roomClients (roomHeap l r))"
      "nextRoom l = nextRoom h"
    using assms sub by (simp_all add: calm_def calmRoom_def opStep_def subset_iff)
  ultimately show ?thesis unfolding opStep_def by blast
qed

lemma applyOperation_accepted:
  assumes ok: "Apply (Some (roomDocument (roomHeap h r))) op = Inr d" and dist: "distinct (roomClients (roomHeap h r))"
  shows "opStep r (opMessage op (roomSequence (roomHeap h r) + 1) t) p d h (applyOperation r p op t h)"
proof -
  let ?m = "opMessage op (roomSequence (roomHeap h r) + 1) t"
  let ?h1 = "setMetrics IncOperations (setRoom r (\<lambda>x. x\<lparr>roomDocument := d, roomSequence := roomSequence x + 1,
                                  opsSinceSnapshot := opsSinceSnapshot x + 1\<rparr>) h)"
  let ?h2 = "broadcast r ?m p ?h1"
  have deliv: "delivers r ?m {c \<in> set (roomClients (roomHeap ?h1 r)). p \<noteq> Some c} ?h1 ?h2"
    unfolding broadcast_def Let_def by (rule broadcastLoop_delivers) (use dist in simp_all)
  have frame: "bcastFrame r ?h1 ?h2" unfolding broadcast_def Let_def by (rule broadcastLoop_frame)
  obtain js where js: "fanoutLog ?h2 = fanoutLog h @ js"
      "\<forall>c \<in> set (roomClients (roomHeap ?h2 r)). opsSent r c js = (if p = Some c then [] else [?m])"
    using deliv frame unfolding delivers_def bcastFrame_def fewerClients_def by fastforce
  have "\<forall>j \<in> set js. fanRoom j = r" using frame js(1) by (auto simp: bcastFrame_def)
  then have "\<forall>q c. q \<noteq> r \<longrightarrow> opsSent q c js = []" by (auto simp: opsSent_def filter_empty_conv)
  then have two: "opStep r ?m p d h ?h2"
    using frame js dist by (auto simp: opStep_def bcastFrame_def roomCore_def fewerClients_def)
  define h3 where "h3 = queuePersistence r p op ?h2"
  have h3: "opStep r ?m p d h h3" unfolding h3_def by (rule opStep_calm [OF two calm_queuePersistence])
  have "applyOperation r p op t h =
      (if opsSinceSnapshot (roomHeap h3 r) \<ge> SnapshotOpThreshold (hubConfig h3) then requestSnapshot r h3 else h3)"
    using ok by (simp add: applyOperation_def Let_def opMessage_def h3_def)
  then show ?thesis using h3 opStep_calm [OF h3 calm.F_requestSnapshot] by simp
qed

lemma applyOperation_rejected:
  "Apply (Some (roomDocument (roomHeap h r))) op = Inl e \<Longrightarrow> calm h (applyOperation r p op t h)"
  by (auto simp: applyOperation_def calm_refl calm.F_enqueueTo split: option.splits)

fun acceptedOps :: "nat \<Rightarrow> room_event list \<Rightarrow> Operation list" where
  "acceptedOps r [] = []"
| "acceptedOps r (Accepted q p op t # es) = (if q = r then op # acceptedOps r es else acceptedOps r es)"
| "acceptedOps r (_ # es) = acceptedOps r es"

text \<open>The operation messages meant for a client, numbered from the sequence at its join.\<close>

fun roomMessages :: "nat \<Rightarrow> nat \<Rightarrow> int \<Rightarrow> room_event list \<Rightarrow> json list" where
  "roomMessages r c n [] = []"
| "roomMessages r c n (Accepted q p op t # es) =
     (if q = r then (if p = Some c then [] else [opMessage op (n + 1) t]) @ roomMessages r c (n + 1) es
      else roomMessages r c n es)"
| "roomMessages r c n (_ # es) = roomMessages r c n es"

lemma acceptedOps_append [simp]: "acceptedOps r (xs @ ys) = acceptedOps r xs @ acceptedOps r ys"
  by (induction r xs rule: acceptedOps.induct) auto

lemma roomMessages_append:
  "roomMessages r c n (xs @ ys) = roomMessages r c n xs @ roomMessages r c (n + int (length (acceptedOps r xs))) ys"
  by (induction r c n xs rule: roomMessages.induct) (auto simp: add.assoc add.commute add.left_commute)

section \<open>What a client has been sent since it joined\<close>

definition since :: "nat \<Rightarrow> nat \<Rightarrow> ('x, 'e) Hub \<Rightarrow> room_event list \<Rightarrow> ('x, 'e) Hub \<Rightarrow> bool" where
  "since r c hj tr h \<longleftrightarrow>
     (\<exists>js. fanoutLog h = fanoutLog hj @ js \<and> opsSent r c js = roomMessages r c (roomSequence (roomHeap hj r)) tr)
   \<and> roomSequence (roomHeap h r) = roomSequence (roomHeap hj r) + int (length (acceptedOps r tr))
   \<and> (Compacted r \<notin> set tr \<longrightarrow> replayOps 0 (acceptedOps r tr) (roomDocument (roomHeap hj r)) = Inr (roomDocument (roomHeap h r)))"

lemma since_start: "since r c hj [] hj"
  by (simp add: since_def)

lemma since_step:
  assumes "since r c hj tr h" "fanoutLog k = fanoutLog h @ js"
    and "opsSent r c js = roomMessages r c (roomSequence (roomHeap h r)) es"
    and "roomSequence (roomHeap k r) = roomSequence (roomHeap h r) + int (length (acceptedOps r es))"
    and "Compacted r \<notin> set es \<Longrightarrow> replayOps 0 (acceptedOps r es) (roomDocument (roomHeap h r)) = Inr (roomDocument (roomHeap k r))"
  shows "since r c hj (tr @ es) k"
proof -
  obtain js0 where "fanoutLog h = fanoutLog hj @ js0"
      "opsSent r c js0 = roomMessages r c (roomSequence (roomHeap hj r)) tr"
    using assms(1) unfolding since_def by blast
  then have "\<exists>js. fanoutLog k = fanoutLog hj @ js \<and> opsSent r c js = roomMessages r c (roomSequence (roomHeap hj r)) (tr @ es)"
    using assms(1-3) by (intro exI [of _ "js0 @ js"]) (simp add: roomMessages_append since_def)
  moreover have "replayOps 0 (acceptedOps r (tr @ es)) (roomDocument (roomHeap hj r)) = Inr (roomDocument (roomHeap k r))"
    if "Compacted r \<notin> set (tr @ es)"
  proof -
    have "replayOps 0 (acceptedOps r tr) (roomDocument (roomHeap hj r)) = Inr (roomDocument (roomHeap h r))"
      using assms(1) that by (simp add: since_def)
    moreover have "replayOps 0 (acceptedOps r es) (roomDocument (roomHeap h r)) = Inr (roomDocument (roomHeap k r))"
      using assms(5) that by simp
    ultimately show ?thesis by (simp add: replayOps_Inr replay_append)
  qed
  ultimately show ?thesis using assms(1,4) by (simp add: since_def)
qed

lemma since_calm:
  assumes "since r c hj tr h" "calm h k" "roomMessages r c (roomSequence (roomHeap h r)) es = []" "acceptedOps r es = []"
  shows "since r c hj (tr @ es) k"
proof -
  obtain js where js: "fanoutLog k = fanoutLog h @ js" "\<forall>r c. opsSent r c js = []"
    using assms(2) noOps_sent [of h k] by (auto simp: calm_def)
  have same: "roomSequence (roomHeap k r) = roomSequence (roomHeap h r)" "roomDocument (roomHeap k r) = roomDocument (roomHeap h r)"
    using assms(2) by (simp_all add: calm_def calmRoom_def)
  show ?thesis
    by (rule since_step [OF assms(1) js(1)]) (simp_all add: same js(2) assms(3,4))
qed

section \<open>The invariant of runs\<close>

definition joinedAt :: "('x, 'e) WriterExecutor \<Rightarrow> ('x, 'e) Hub \<Rightarrow> nat \<Rightarrow> nat \<Rightarrow> room_event list \<Rightarrow> ('x, 'e) Hub \<Rightarrow> bool" where
  "joinedAt ex h0 r c tr h \<longleftrightarrow> (\<exists>tr1 tr2 hj k presence. tr = tr1 @ Joined r c # tr2 \<and> hub_run ex h0 tr1 hj
     \<and> takeCommand r hj = Some k
     \<and> clientSend (clientHeap k c) = clientSend (clientHeap hj c) @ [syncMessage r c presence hj] \<and> since r c hj tr2 h)"

definition builtRoom :: "Room \<Rightarrow> bool" where
  "builtRoom x \<longleftrightarrow> (\<exists>base. replayOps 0 base New = Inr (roomDocument x))"

definition roomsInv :: "('x, 'e) WriterExecutor \<Rightarrow> ('x, 'e) Hub \<Rightarrow> room_event list \<Rightarrow> ('x, 'e) Hub \<Rightarrow> bool" where
  "roomsInv ex h0 tr h \<longleftrightarrow> (\<forall>r. distinct (roomClients (roomHeap h r))) \<and> (\<forall>r \<ge> nextRoom h. roomClients (roomHeap h r) = [])
     \<and> (\<forall>r. wfDoc (roomDocument (roomHeap h r))) \<and> (\<forall>r. Compacted r \<notin> set tr \<longrightarrow> builtRoom (roomHeap h r))
     \<and> (\<forall>r c. c \<in> set (roomClients (roomHeap h r)) \<longrightarrow> joinedAt ex h0 r c tr h)"

lemma joinedAt_step:
  assumes "joinedAt ex h0 r c tr h" "\<And>hj tr0. since r c hj tr0 h \<Longrightarrow> since r c hj (tr0 @ es) k"
  shows "joinedAt ex h0 r c (tr @ es) k"
  using assms unfolding joinedAt_def by (metis Cons_eq_appendI append_assoc)

lemma roomsInv_calm:
  assumes inv: "roomsInv ex h0 tr h" and calm: "calm h k"
    and es: "\<And>r. acceptedOps r es = []" "\<And>r c n. roomMessages r c n es = []"
  shows "roomsInv ex h0 (tr @ es) k"
proof -
  have same: "roomDocument (roomHeap k r) = roomDocument (roomHeap h r)"
      "set (roomClients (roomHeap k r)) \<subseteq> set (roomClients (roomHeap h r))"
      "distinct (roomClients (roomHeap h r)) \<Longrightarrow> distinct (roomClients (roomHeap k r))" "nextRoom k = nextRoom h" for r
    using calm by (simp_all add: calm_def calmRoom_def)
  have "joinedAt ex h0 r c (tr @ es) k" if "c \<in> set (roomClients (roomHeap k r))" for r c
  proof (rule joinedAt_step)
    show "joinedAt ex h0 r c tr h" using inv same(2) [of r] that by (auto simp: roomsInv_def)
  qed (rule since_calm [OF _ calm], simp_all add: es)
  moreover have "roomClients (roomHeap k r) = []" if "nextRoom k \<le> r" for r
    using inv same(2) [of r] same(4) that by (auto simp: roomsInv_def)
  ultimately show ?thesis
    using inv same by (auto simp: roomsInv_def builtRoom_def)
qed

lemma roomsInv_join:
  assumes run: "hub_run ex h0 tr h" and inv: "roomsInv ex h0 tr h" and r: "r < nextRoom h"
    and k: "takeCommand r h = Some k" and cmd: "commands (roomHeap h r) = commandRegister (Some c) # rest"
  shows "roomsInv ex h0 (tr @ [Joined r c]) k"
proof -
  define h1 where "h1 = armIdle False r (setRoom r (\<lambda>x. x\<lparr>commands := rest\<rparr>) h)"
  have k_eq: "k = register r (Some c) h1"
    using k cmd by (auto simp: takeCommand_def handleCommand_def h1_def split: if_splits)
  have h1: "roomClients (roomHeap h1 q) = roomClients (roomHeap h q)" "roomDocument (roomHeap h1 q) = roomDocument (roomHeap h q)"
      "roomSequence (roomHeap h1 q) = roomSequence (roomHeap h q)" "clientHeap h1 = clientHeap h" "fanoutLog h1 = fanoutLog h"
      "nextRoom h1 = nextRoom h" for q
    by (simp_all add: h1_def armIdle_def)
  have add: "roomDocument (roomHeap (addClient r c h1) q) = roomDocument (roomHeap h q)"
      "roomSequence (roomHeap (addClient r c h1) q) = roomSequence (roomHeap h q)"
      "set (roomClients (roomHeap (addClient r c h1) q)) = set (roomClients (roomHeap h q)) \<union> (if q = r then {c} else {})"
      "distinct (roomClients (roomHeap h q)) \<Longrightarrow> distinct (roomClients (roomHeap (addClient r c h1) q))"
      "fanoutLog (addClient r c h1) = fanoutLog h" "nextRoom (addClient r c h1) = nextRoom h" for q
    using h1 by (auto simp: addClient_def)
  have calm: "calm (addClient r c h1) k" unfolding k_eq by (rule calm.F_joined)
  obtain js where js: "fanoutLog k = fanoutLog h @ js" "\<forall>r c. opsSent r c js = []"
    using calm noOps_sent [of "addClient r c h1" k] by (auto simp: calm_def add)
  have cr: "calmRoom (roomHeap (addClient r c h1) q) (roomHeap k q)" and next_k: "nextRoom k = nextRoom h" for q
    using calm by (simp_all add: calm_def add(6))
  have same: "roomDocument (roomHeap k q) = roomDocument (roomHeap h q)" "roomSequence (roomHeap k q) = roomSequence (roomHeap h q)"
      "set (roomClients (roomHeap k q)) \<subseteq> set (roomClients (roomHeap h q)) \<union> (if q = r then {c} else {})"
      "distinct (roomClients (roomHeap h q)) \<Longrightarrow> distinct (roomClients (roomHeap k q))" "nextRoom k = nextRoom h" for q
    using cr [of q] add(1-4) [of q] next_k by (auto simp: calmRoom_def)
  have step: "since q x hj (tr0 @ es) k" if "since q x hj tr0 h" "acceptedOps q es = []"
      "\<And>n. roomMessages q x n es = []" "Compacted q \<notin> set es" for q x hj tr0 es
    by (rule since_step [OF that(1) js(1)]) (simp_all add: js(2) same that(2,3))
  have "joinedAt ex h0 q x (tr @ [Joined r c]) k" if mem: "x \<in> set (roomClients (roomHeap k q))" for q x
  proof (cases "q = r \<and> x = c")
    case True
    have dist: "distinct (roomClients (roomHeap h1 r))" using inv by (simp add: h1 roomsInv_def)
    obtain presence where "clientSend (clientHeap k c) = clientSend (clientHeap h1 c) @ [syncMessage r c presence h1]"
      using register_sync [OF dist, of c] mem True by (auto simp: k_eq)
    moreover have "syncMessage r c presence h1 = syncMessage r c presence h" by (simp add: syncMessage_def h1)
    ultimately have "clientSend (clientHeap k c) = clientSend (clientHeap h c) @ [syncMessage r c presence h]" by (simp add: h1)
    moreover have "since r c h [] k" using step [OF since_start, where es = "[]"] by simp
    ultimately show ?thesis
      unfolding joinedAt_def using run k True by blast
  next
    case False
    then have "joinedAt ex h0 q x tr h" using that same(3) [of q] inv by (auto simp: roomsInv_def split: if_splits)
    then show ?thesis by (rule joinedAt_step) (rule step, simp_all)
  qed
  moreover have "roomClients (roomHeap k q) = []" if "nextRoom k \<le> q" for q
    using inv same(3) [of q] same(5) r that by (auto simp: roomsInv_def)
  ultimately show ?thesis
    using inv same(1,4) by (simp add: roomsInv_def builtRoom_def)
qed

lemma roomsInv_operation:
  assumes inv: "roomsInv ex h0 tr h" and ok: "Apply (Some (roomDocument (roomHeap h r))) op = Inr d"
    and step: "opStep r (opMessage op (roomSequence (roomHeap h r) + 1) t) p d h k"
  shows "roomsInv ex h0 (tr @ [Accepted r p op t]) k"
proof -
  obtain js where js: "fanoutLog k = fanoutLog h @ js" "\<forall>q c. q \<noteq> r \<longrightarrow> opsSent q c js = []"
      "\<forall>c \<in> set (roomClients (roomHeap k r)).
         opsSent r c js = (if p = Some c then [] else [opMessage op (roomSequence (roomHeap h r) + 1) t])"
    using step unfolding opStep_def by blast
  have here: "roomDocument (roomHeap k r) = d" "roomSequence (roomHeap k r) = roomSequence (roomHeap h r) + 1"
      "set (roomClients (roomHeap k r)) \<subseteq> set (roomClients (roomHeap h r))" "distinct (roomClients (roomHeap k r))"
      "nextRoom k = nextRoom h"
    using step by (simp_all add: opStep_def)
  have other: "calmRoom (roomHeap h q) (roomHeap k q)" if "q \<noteq> r" for q
    using step that by (simp add: opStep_def)
  have sub: "set (roomClients (roomHeap k q)) \<subseteq> set (roomClients (roomHeap h q))" for q
    using here(3) other [of q] by (cases "q = r") (auto simp: calmRoom_def)
  have dist: "distinct (roomClients (roomHeap k q))" for q
    using here(4) other [of q] inv by (cases "q = r") (auto simp: calmRoom_def roomsInv_def)
  have wf: "wfDoc (roomDocument (roomHeap k q))" for q
    using wfDoc_Apply [OF _ ok] here(1) other [of q] inv by (cases "q = r") (auto simp: calmRoom_def roomsInv_def)
  have built: "builtRoom (roomHeap k q)" if "builtRoom (roomHeap h q)" for q
  proof (cases "q = r")
    case True
    obtain base where "replayOps 0 base New = Inr (roomDocument (roomHeap h r))"
      using \<open>builtRoom (roomHeap h q)\<close> True by (auto simp: builtRoom_def)
    then have "replayOps 0 (base @ [op]) New = Inr (roomDocument (roomHeap k r))"
      using ok here(1) by (simp add: replayOps_Inr replay_append)
    then show ?thesis unfolding builtRoom_def True by blast
  qed (use that other [of q] in \<open>auto simp: builtRoom_def calmRoom_def\<close>)
  have "joinedAt ex h0 q x (tr @ [Accepted r p op t]) k" if "x \<in> set (roomClients (roomHeap k q))" for q x
  proof (rule joinedAt_step)
    show "joinedAt ex h0 q x tr h" using inv sub [of q] that by (auto simp: roomsInv_def)
    show "since q x hj (tr0 @ [Accepted r p op t]) k" if "since q x hj tr0 h" for hj tr0
      by (rule since_step [OF that js(1)])
        (use js(2,3) here ok other [of q] \<open>x \<in> set (roomClients (roomHeap k q))\<close> in \<open>auto simp: calmRoom_def\<close>)
  qed
  moreover have "roomClients (roomHeap k q) = []" if "nextRoom k \<le> q" for q
    using inv sub [of q] here(5) that by (auto simp: roomsInv_def)
  ultimately show ?thesis
    using inv dist wf built by (simp add: roomsInv_def)
qed

lemma roomsInv_compaction:
  assumes inv: "roomsInv ex h0 tr h"
    and k: "k = setMetrics f (setRoom r (\<lambda>x. x\<lparr>roomDocument := d\<rparr>) h1)" and wf: "wfDoc d" and calm: "calm h h1"
  shows "roomsInv ex h0 (tr @ [Compacted r]) k"
proof -
  have inv1: "roomsInv ex h0 (tr @ [Compacted r]) h1" by (rule roomsInv_calm [OF inv calm]) auto
  have "joinedAt ex h0 q x (tr @ [Compacted r]) k" if joined: "joinedAt ex h0 q x (tr @ [Compacted r]) h1" for q x
  proof -
    obtain tr1 tr2 hj l presence where j: "tr @ [Compacted r] = tr1 @ Joined q x # tr2" "hub_run ex h0 tr1 hj"
        "takeCommand q hj = Some l" "clientSend (clientHeap l x) = clientSend (clientHeap hj x) @ [syncMessage q x presence hj]"
        "since q x hj tr2 h1"
      using joined unfolding joinedAt_def by blast
    have "Compacted r \<in> set tr2" using j(1) by (cases tr2 rule: rev_cases) auto
    then have "since q x hj tr2 k" using j(5) by (auto simp: since_def k)
    then show ?thesis unfolding joinedAt_def using j(1-4) by blast
  qed
  then show ?thesis
    using inv1 wf by (auto simp: roomsInv_def k builtRoom_def)
qed

text \<open>A rebuilt document is the result of a run of operations from the empty document.\<close>

lemma restoreSnapshot_run:
  "restoreSnapshot cs d = Inr d' \<Longrightarrow> \<exists>ops. replay (\<lambda>d. Apply (Some d)) d ops = Inr d'"
proof (induction cs arbitrary: d)
  case Nil
  then show ?case by (intro exI [of _ "[]"]) simp
next
  case (Cons c cs)
  obtain d1 where d1: "Apply (Some d) (snapshotInsertOp c) = Inr d1" using Cons.prems by (auto split: sum.splits)
  show ?case
  proof (cases "Deleted c")
    case True
    then obtain d2 where d2: "Apply (Some d1) (snapshotDeleteOp c) = Inr d2" "restoreSnapshot cs d2 = Inr d'"
      using Cons.prems d1 by (auto split: sum.splits)
    then obtain ops where "replay (\<lambda>d. Apply (Some d)) d2 ops = Inr d'" using Cons.IH by blast
    then show ?thesis using d1 d2(1) by (intro exI [of _ "snapshotInsertOp c # snapshotDeleteOp c # ops"]) simp
  next
    case False
    then obtain ops where "replay (\<lambda>d. Apply (Some d)) d1 ops = Inr d'"
      using Cons.IH [of d1] Cons.prems d1 by auto
    then show ?thesis using d1 by (intro exI [of _ "snapshotInsertOp c # ops"]) simp
  qed
qed

lemma BuildAt_base: "BuildAt cs ops = Inr d \<Longrightarrow> \<exists>base. replayOps 0 base New = Inr d"
proof -
  assume built: "BuildAt cs ops = Inr d"
  then obtain d1 where "restoreSnapshot cs New = Inr d1" "replayOps 0 ops d1 = Inr d"
    by (auto simp: BuildAt_def split: sum.splits)
  then obtain pre where "replay (\<lambda>d. Apply (Some d)) New pre = Inr d1" "replay (\<lambda>d. Apply (Some d)) d1 ops = Inr d"
    using restoreSnapshot_run unfolding replayOps_Inr by blast
  then show "\<exists>base. replayOps 0 base New = Inr d"
    by (intro exI [of _ "pre @ ops"]) (simp add: replayOps_Inr replay_append)
qed

lemma built_wf: "replayOps 0 base New = Inr d \<Longrightarrow> wfDoc d \<and> rooted d"
  using crdt.invar_replay [OF wfDoc_New] rooted_replay [OF rooted_New] by (simp add: replayOps_Inr)

lemma roomsInv_command:
  assumes run: "hub_run ex h0 tr h" and inv: "roomsInv ex h0 tr h" and r: "r < nextRoom h" and k: "takeCommand r h = Some k"
  shows "roomsInv ex h0 (tr @ eventsOf r h) k"
proof -
  obtain cmd rest where cmd: "commands (roomHeap h r) = cmd # rest"
    using k by (auto simp: takeCommand_def split: if_splits list.splits)
  define h1 where "h1 = setRoom r (\<lambda>x. x\<lparr>commands := rest\<rparr>) h"
  have calm: "calm h h1" unfolding h1_def by (rule calm_popCommand)
  have same: "roomDocument (roomHeap h1 r) = roomDocument (roomHeap h r)" "roomSequence (roomHeap h1 r) = roomSequence (roomHeap h r)"
      "roomClients (roomHeap h1 r) = roomClients (roomHeap h r)"
    by (simp_all add: h1_def)
  have k_eq: "k = handleCommand r cmd h1" using k cmd by (auto simp: takeCommand_def h1_def split: if_splits)
  have quiet: "roomsInv ex h0 (tr @ eventsOf r h) k" if "calm h1 k" "eventsOf r h = []"
    using roomsInv_calm [OF inv calm_trans [OF calm that(1)], of "[]"] that(2) by simp
  show ?thesis
  proof (cases cmd)
    case (commandRegister p)
    show ?thesis
    proof (cases p)
      case None
      then show ?thesis
        using commandRegister cmd calm.F_handleCommand [of cmd h1 r] by (intro quiet) (auto simp: k_eq eventsOf_def)
    next
      case (Some c)
      then have "commands (roomHeap h r) = commandRegister (Some c) # rest" using cmd commandRegister by simp
      from roomsInv_join [OF run inv r k this] show ?thesis
        using cmd commandRegister Some by (simp add: eventsOf_def)
    qed
  next
    case (commandOperation p op t)
    have k_op: "k = applyOperation r p op t h1" using commandOperation k_eq by (simp add: handleCommand_def)
    show ?thesis
    proof (cases "Apply (Some (roomDocument (roomHeap h r))) op")
      case (Inl e)
      then have "calm h1 k" using applyOperation_rejected [of h1 r op e p t] k_op same by simp
      then show ?thesis using commandOperation cmd Inl by (intro quiet) (auto simp: eventsOf_def)
    next
      case (Inr d)
      have inv1: "roomsInv ex h0 tr h1" using roomsInv_calm [OF inv calm, of "[]"] by simp
      have ok: "Apply (Some (roomDocument (roomHeap h1 r))) op = Inr d" using Inr same by simp
      have dist: "distinct (roomClients (roomHeap h1 r))" using inv1 by (simp add: roomsInv_def)
      from roomsInv_operation [OF inv1 ok applyOperation_accepted [OF ok dist]]
      have "roomsInv ex h0 (tr @ [Accepted r p op t]) k" by (simp add: k_op)
      then show ?thesis using commandOperation cmd Inr by (simp add: eventsOf_def)
    qed
  next
    case (commandCompact ids)
    obtain n d where d: "compactLoop ids (roomDocument (roomHeap h r)) 0 = (n, d)"
      by (cases "compactLoop ids (roomDocument (roomHeap h r)) 0")
    then have wf: "wfDoc d" using compactLoop_spec(3) [OF d] inv by (simp add: roomsInv_def)
    let ?f = "if n > 0 then AddTombstonesCompacted (int n) else (\<lambda>m. m)"
    have id: "setMetrics (\<lambda>m. m) l = l" for l :: "('a, 'b) Hub" by (simp add: setMetrics_def)
    have "k = setMetrics ?f (setRoom r (\<lambda>x. x\<lparr>roomDocument := d\<rparr>) h1)"
      using k_eq commandCompact d same by (simp add: handleCommand_def applyCompaction_def Compact_def Let_def id)
    from roomsInv_compaction [OF inv this wf calm] show ?thesis
      using commandCompact cmd by (simp add: eventsOf_def)
  qed (rule quiet; use cmd calm.F_handleCommand [of cmd h1 r] in \<open>simp add: k_eq eventsOf_def\<close>)+
qed

lemma roomsInv_opened:
  assumes inv: "roomsInv ex h0 tr h" and load: "documentFromLoaded l = Inr d"
    and install: "installRoom slug (newRoom slug (storedID l) d (storedVersion l) (loadedOperations l)) h = (r, k)"
  shows "roomsInv ex h0 tr k"
proof (cases "map_of (hubRooms h) slug")
  case (Some q)
  then show ?thesis using inv install by (simp add: installRoom_def)
next
  case None
  let ?room = "newRoom slug (storedID l) d (storedVersion l) (loadedOperations l)"
  have k: "roomHeap k = (roomHeap h)(nextRoom h := ?room)" "nextRoom k = Suc (nextRoom h)" "fanoutLog k = fanoutLog h"
    using install None by (auto simp: installRoom_def Let_def)
  obtain base where base: "replayOps 0 base New = Inr d"
    using BuildAt_base load unfolding documentFromLoaded_def by blast
  have room: "roomClients ?room = []" "roomDocument ?room = d" by (simp_all add: newRoom_def)
  have "joinedAt ex h0 q c tr k" if "c \<in> set (roomClients (roomHeap k q))" for q c
  proof -
    have q: "q \<noteq> nextRoom h" using that by (auto simp: k room)
    have "joinedAt ex h0 q c (tr @ []) k"
    proof (rule joinedAt_step)
      show "joinedAt ex h0 q c tr h" using that inv q by (simp add: k roomsInv_def)
    qed (use q in \<open>simp add: since_def k\<close>)
    then show ?thesis by simp
  qed
  then show ?thesis
    using inv base built_wf [OF base] by (auto simp: roomsInv_def k room builtRoom_def)
qed

lemma roomsInv_run:
  assumes run: "hub_run ex h0 tr h" and fresh: "\<And>r. roomClients (roomHeap h0 r) = []" "\<And>r. roomDocument (roomHeap h0 r) = New"
  shows "roomsInv ex h0 tr h"
  using run
proof (induction rule: hub_run.induct)
  case start
  have "builtRoom (roomHeap h0 r)" for r
    unfolding builtRoom_def fresh by (rule exI [of _ "[]"]) simp
  then show ?case using wfDoc_New by (simp add: roomsInv_def fresh)
next
  case (quiet tr h k)
  have "roomsInv ex h0 (tr @ []) k"
    by (rule roomsInv_calm [OF quiet.IH calm.F_quiet [OF quiet.hyps(2)]]) simp_all
  then show ?case by simp
next
  case (command tr h r k)
  then show ?case by (simp add: roomsInv_command)
next
  case (opened tr h l d slug r k)
  show ?case by (rule roomsInv_opened [OF opened.IH opened.hyps(2,3)])
qed

end
