(* ===== verification/Room_Theorems.thy ===== *)
theory Room_Theorems
  imports Room_Run Crdt_Theorems
begin

text \<open>
  The properties of rooms and of the hub: what clients receive, convergence of their replicas
  with the room, and the behaviour of the operations of a room on every branch.
\<close>

section \<open>Runs from a fresh hub\<close>

definition freshHub ::
  "HubConfig \<Rightarrow> ('x, 'e) Writer option \<Rightarrow> Metrics option \<Rightarrow> SlugCache option \<Rightarrow> (nat \<Rightarrow> Client) \<Rightarrow> ('x, 'e) Hub" where
  "freshHub cfg w m sc cl = (NewHubWithConfig cfg w m sc)\<lparr>clientHeap := cl\<rparr>"

lemma freshHub_rooms: "roomClients (roomHeap (freshHub cfg w m sc cl) r) = []" "roomDocument (roomHeap (freshHub cfg w m sc cl) r) = New"
  by (simp_all add: freshHub_def NewHubWithConfig_def newRoom_def)

lemmas fresh_run = roomsInv_run [OF _ freshHub_rooms]

lemma fresh_joined:
  assumes "hub_run ex (freshHub cfg w m sc cl) tr h" "c \<in> set (roomClients (roomHeap h r))"
  shows "joinedAt ex (freshHub cfg w m sc cl) r c tr h"
  using fresh_run [OF assms(1)] assms(2) by (simp add: roomsInv_def)

text \<open>
  A replica that starts from the snapshot of a document and accepts a set of operations agrees
  with the document after the same set.
\<close>

lemma replica_agrees:
  assumes base: "replayOps 0 base New = Inr dj" and room: "replayOps 0 ops dj = Inr d"
    and replica: "BuildAt (snapshotOf dj) ops' = Inr d'" and same: "set ops' = set ops"
  shows "Snapshot (Some d') = Snapshot (Some d) \<and> Text (Some d') = Text (Some d)"
proof -
  have wfj: "wfDoc dj" "rooted dj" using built_wf [OF base] by auto
  obtain cs where cs: "Snapshot (Some dj) = Some cs" using Snapshot_walk [OF wfj(1)] .
  obtain e where e: "restoreSnapshot cs New = Inr e" "wfDoc e" "lookupChar e = lookupChar dj"
    using restoreSnapshot_Snapshot [OF wfj(1) cs] rooted_restrict [OF wfj(2)] by auto
  have d': "replayOps 0 ops' e = Inr d'" using replica e(1) cs by (simp add: BuildAt_def snapshotOf_def)
  obtain e' where e': "replayOps 0 ops' dj = Inr e'" "lookupChar d' = lookupChar e'"
    using replayOps_sameChars [OF e(3), where i = 0 and j = 0 and ops = ops'] d' by auto
  have "lookupChar e' = lookupChar d"
    using base room e'(1) same
    by (intro replay_same_set [of "base @ ops'" _ "base @ ops"]) (auto simp: replayOps_Inr replay_append)
  moreover have "wfDoc d" using wfj(1) room crdt.invar_replay by (auto simp: replayOps_Inr)
  moreover have "wfDoc d'" using e(2) d' crdt.invar_replay by (auto simp: replayOps_Inr)
  ultimately show ?thesis using e'(2) Snapshot_cong [of d' d] Text_cong [of d' d] by simp
qed

lemma replica_in_order:
  assumes base: "replayOps 0 base New = Inr dj" and room: "replayOps 0 ops dj = Inr d"
  shows "\<exists>d'. BuildAt (snapshotOf dj) ops = Inr d'"
proof -
  have wfj: "wfDoc dj" "rooted dj" using built_wf [OF base] by auto
  obtain cs where cs: "Snapshot (Some dj) = Some cs" using Snapshot_walk [OF wfj(1)] .
  obtain e where e: "restoreSnapshot cs New = Inr e" "lookupChar e = lookupChar dj"
    using restoreSnapshot_Snapshot [OF wfj(1) cs] rooted_restrict [OF wfj(2)] by auto
  show ?thesis
    using replayOps_sameChars [OF e(2) [symmetric], where i = 0 and j = 0 and ops = ops] room e(1) cs
    by (auto simp: BuildAt_def snapshotOf_def)
qed

section \<open>An example run\<close>

text \<open>Two clients join an empty document and the second one types a character.\<close>

definition exampleHub :: "(unit, unit) Hub" where
  "exampleHub = freshHub \<lparr>IdleTimeout = 0, ClientQueueSize = 0, FanoutQueueSize = 0, FanoutWorkers = 0,
     SnapshotOpThreshold = 0, SnapshotInterval = 0\<rparr> None None None (\<lambda>_. newTestClient None 64)"

definition exampleSlug :: string where "exampleSlug = ''abcdefghijkl''"

definition exampleOpened :: "(unit, unit) Hub" where
  "exampleOpened = snd (installRoom exampleSlug (newRoom exampleSlug 1 New 0 []) exampleHub)"

definition helloMessage :: json where
  "helloMessage = marshalEnvelope MessageHello (JObject [(''username'', JString ''Ann'')])"

definition exampleJoin :: "nat \<Rightarrow> ('x, 'e) Hub \<Rightarrow> ('x, 'e) Hub" where
  "exampleJoin c h = the (serveJoin True (Some (Some helloMessage))
     (\<lambda>name. Inr \<lparr>userID = 1, userName = name, userColor = ''#4dd8c0''\<rparr>) 0 c h)"

definition exampleTake :: "('x, 'e) Hub \<Rightarrow> ('x, 'e) Hub" where
  "exampleTake h = the (takeCommand 0 h)"

definition exampleType :: "nat \<Rightarrow> Operation \<Rightarrow> ('x, 'e) Hub \<Rightarrow> ('x, 'e) Hub" where
  "exampleType c op h = the (handleInbound True 0 c (Some (opMessage op 0 0)) h)"

definition exampleJoined :: "(unit, unit) Hub" where
  "exampleJoined = exampleTake (exampleJoin 1 (exampleTake (exampleJoin 0 exampleOpened)))"

definition exampleTyped :: "(unit, unit) Hub" where
  "exampleTyped = exampleType 1 insA exampleJoined"

definition exampleAccepted :: "(unit, unit) Hub" where
  "exampleAccepted = exampleTake exampleTyped"

definition exampleLoaded :: LoadedDocument where
  "exampleLoaded = \<lparr>storedID = 1, storedSlug = exampleSlug, storedTitle = '''', storedSnapshot = [], storedVersion = 0,
     loadedOperations = []\<rparr>"

definition exampleExecutor :: "(unit, unit) WriterExecutor" where
  "exampleExecutor = \<lparr>exBatch = None, exAppend = (\<lambda>_ _ x. (None, x)), exSave = (\<lambda>_ _ _ x. (None, x))\<rparr>"

lemma example_opened: "hub_run ex exampleHub [] exampleOpened"
proof (rule hub_run.opened [OF hub_run.start])
  show "documentFromLoaded exampleLoaded
      = Inr New"
    by (simp add: documentFromLoaded_def BuildAt_def exampleLoaded_def)
  show "installRoom exampleSlug (newRoom exampleSlug (storedID exampleLoaded) New (storedVersion exampleLoaded)
      (loadedOperations exampleLoaded)) exampleHub = (0, exampleOpened)"
    by (simp add: exampleLoaded_def exampleOpened_def installRoom_def exampleHub_def freshHub_def NewHubWithConfig_def)
qed

lemma example_take:
  assumes "hub_run ex h0 tr h" "0 < nextRoom h" "\<not> roomDone (roomHeap h 0)" "commands (roomHeap h 0) \<noteq> []"
  shows "hub_run ex h0 (tr @ eventsOf 0 h) (exampleTake h)"
  by (rule hub_run.command [OF assms(1,2)]) (use assms(3,4) in \<open>auto simp: exampleTake_def takeCommand_def split: list.splits\<close>)

lemma example_join:
  assumes "hub_run ex h0 tr h" "0 < nextRoom h" "\<not> roomDone (roomHeap h 0)" "\<not> commandsFull 0 h"
  shows "hub_run ex h0 tr (exampleJoin c h)"
proof (rule hub_run.quiet [OF assms(1) hub_quiet.join])
  show "serveJoin True (Some (Some helloMessage)) (\<lambda>name. Inr \<lparr>userID = 1, userName = name, userColor = ''#4dd8c0''\<rparr>) 0 c h
      = Some (exampleJoin c h)"
    using assms(3,4) by (auto simp: exampleJoin_def serveJoin_def Room_Register_def submit_def commandsFull_def split: sum.splits)
qed (rule assms(2))

lemma example_type:
  assumes "hub_run ex h0 tr h" "0 < nextRoom h" "handleInbound True 0 c (Some (opMessage op 0 0)) h \<noteq> None"
  shows "hub_run ex h0 tr (exampleType c op h)"
proof (rule hub_run.quiet [OF assms(1) hub_quiet.inbound])
  show "handleInbound True 0 c (Some (opMessage op 0 0)) h = Some (exampleType c op h)"
    using assms(3) by (auto simp: exampleType_def)
qed (rule assms(2))

lemma example_joined: "hub_run ex exampleHub [Joined 0 0, Joined 0 1] exampleJoined"
proof -
  let ?h2 = "exampleJoin 0 exampleOpened" let ?h3 = "exampleTake ?h2" let ?h4 = "exampleJoin 1 ?h3"
  have "hub_run ex exampleHub [] ?h2" by (rule example_join [OF example_opened]) code_simp+
  then have "hub_run ex exampleHub ([] @ eventsOf 0 ?h2) ?h3" by (rule example_take) code_simp+
  moreover have "eventsOf 0 ?h2 = [Joined 0 0]" by code_simp
  ultimately have "hub_run ex exampleHub [Joined 0 0] ?h3" by simp
  then have "hub_run ex exampleHub [Joined 0 0] ?h4" by (rule example_join) code_simp+
  then have "hub_run ex exampleHub ([Joined 0 0] @ eventsOf 0 ?h4) (exampleTake ?h4)" by (rule example_take) code_simp+
  moreover have "eventsOf 0 ?h4 = [Joined 0 1]" by code_simp
  ultimately show ?thesis by (simp add: exampleJoined_def)
qed

lemma example_accepted: "hub_run ex exampleHub [Joined 0 0, Joined 0 1, Accepted 0 (Some 1) insA 0] exampleAccepted"
proof -
  have "hub_run ex exampleHub [Joined 0 0, Joined 0 1] exampleTyped"
    unfolding exampleTyped_def by (rule example_type [OF example_joined]) code_simp+
  then have "hub_run ex exampleHub ([Joined 0 0, Joined 0 1] @ eventsOf 0 exampleTyped) (exampleTake exampleTyped)"
    by (rule example_take) code_simp+
  moreover have "eventsOf 0 exampleTyped = [Accepted 0 (Some 1) insA 0]" by code_simp
  ultimately show ?thesis by (simp add: exampleAccepted_def)
qed

lemma example_clients: "roomClients (roomHeap exampleAccepted 0) = [0, 1]"
  by code_simp

lemma single_join:
  "[Joined 0 0, Joined 0 1, Accepted 0 (Some 1) insA 0] = tr1 @ Joined 0 0 # tr2 \<Longrightarrow> tr2 = [Joined 0 1, Accepted 0 (Some 1) insA 0]"
  by (auto simp: append_eq_Cons_conv Cons_eq_append_conv)

section \<open>What a client receives\<close>





end
