(* ===== verification/Durability.thy ===== *)
theory Durability
  imports Room_Persistence Room_Theorems
begin

text \<open>
  Rooms, writer and store together: the log in the database follows the rooms, a reload rebuilds
  what was stored, and what goes wrong when the sequence numbers of a room and of the log drift
  apart.
\<close>

section \<open>The log follows the rooms\<close>

text \<open>
  C31. What is durable follows the rooms: at every moment of every run of the hub with the store
  behind it, under any database failures, the log of a document grew by operations that rooms of
  that document accepted, in the order in which they were accepted and none twice.
\<close>

theorem durable_log_follows_rooms:
  assumes wf: "wfTables (tables s)"
    and run: "hub_run (storeExecutor env) (freshHub cfg (Some (NewWriterWithConfig (s, k) obs c)) m sc cl) tr h"
  shows "\<exists>w logged. hubWriter h = Some w \<and> documentLog (tables (fst (executor w))) d = documentLog (tables s) d @ logged
    \<and> subseq (map snd logged) (eventOps (roomIDs h) d tr)"
proof -
  have "hubWriter (freshHub cfg (Some (NewWriterWithConfig (s, k) obs c)) m sc cl) = Some (NewWriterWithConfig (s, k) True c)"
    by (simp add: freshHub_def NewHubWithConfig_def SetSnapshotObserver_def NewWriterWithConfig_def Let_def)
  from persistInv_run [OF run this]
  obtain w acc n where w: "hubWriter h = Some w" "writer_run (storeExecutor env) (NewWriterWithConfig (s, k) True c) acc n w"
      "subseq (map writeOp (acceptedOf acc d)) (eventOps (roomIDs h) d tr)"
    unfolding persistInv_def by blast
  obtain written logged where l: "acceptedOf acc d = written @ pendingWrites w d @ queuedWrites w d"
      "documentLog (tables (fst (executor w))) d = documentLog (tables s) d @ logged" "subseq logged (map attributed written)"
    using store_run [OF wf w(2)] unfolding storelog.runInv_def storeLog_def by (metis fst_conv)
  have "subseq (map snd logged) (map snd (map attributed written))" using l(3) by (rule subseq_map)
  moreover have "map snd (map attributed written) = map writeOp written" by (simp add: attributed_def)
  moreover have "subseq (map writeOp written) (map writeOp (acceptedOf acc d))" unfolding l(1) by (simp add: subseq_rev_drop_many)
  ultimately have "subseq (map snd logged) (eventOps (roomIDs h) d tr)"
    using w(3) subseq_order.trans by metis
  then show ?thesis using w(1) l(2) by blast
qed


section \<open>A room over the store\<close>

text \<open>
  A hub with a writer whose queue holds one job. A client types two characters before the writer
  takes the first, so that the second is dropped; then a snapshot is taken, and a third character
  is typed and written.
\<close>

definition driftHub :: "(Store \<times> nat, store_error) Hub" where
  "driftHub = freshHub \<lparr>IdleTimeout = 0, ClientQueueSize = 0, FanoutQueueSize = 0, FanoutWorkers = 0,
     SnapshotOpThreshold = 0, SnapshotInterval = 0\<rparr>
     (Some (NewWriterWithConfig (exampleStore, 0) False
       \<lparr>QueueSize = 1, OperationBatchSize = 1, OperationFlushDelay = 1, hasObserver = False\<rparr>))
     None None (\<lambda>_. newTestClient None 64)"

definition driftLoaded :: LoadedDocument where
  "driftLoaded = \<lparr>storedID = 1, storedSlug = ''pad'', storedTitle = '''', storedSnapshot = [], storedVersion = 0,
     loadedOperations = []\<rparr>"

definition driftJoined :: "(Store \<times> nat, store_error) Hub" where
  "driftJoined = exampleTake (exampleJoin 0 (snd (installRoom ''pad'' (newRoom ''pad'' 1 New 0 []) driftHub)))"

definition driftWrite :: "(Store \<times> nat, store_error) Hub \<Rightarrow> (Store \<times> nat, store_error) Hub" where
  "driftWrite h = h\<lparr>hubWriter := receiveJob (storeExecutor exampleEnv) (the (hubWriter h))\<rparr>"

definition driftOp :: "Operation \<Rightarrow> (Store \<times> nat, store_error) Hub \<Rightarrow> (Store \<times> nat, store_error) Hub" where
  "driftOp op h = exampleTake (exampleType 0 op h)"

abbreviation insC :: Operation where "insC \<equiv> insertOp ''a'' 3 67 None None"

definition driftTyped :: "(Store \<times> nat, store_error) Hub" where
  "driftTyped = driftWrite (driftOp insB (driftOp insA driftJoined))"

definition driftSnapshot :: "(Store \<times> nat, store_error) Hub" where
  "driftSnapshot = driftWrite (snapshotTick 0 driftTyped)"

definition driftFinal :: "(Store \<times> nat, store_error) Hub" where
  "driftFinal = driftWrite (driftOp insC driftSnapshot)"

definition driftWriter :: "(Store \<times> nat, store_error) Hub \<Rightarrow> (Store \<times> nat, store_error) Writer" where
  "driftWriter h = the (hubWriter h)"

abbreviation driftRun :: "room_event list \<Rightarrow> (Store \<times> nat, store_error) Hub \<Rightarrow> bool" where
  "driftRun \<equiv> hub_run (storeExecutor exampleEnv) driftHub"

lemma drift_write:
  assumes "driftRun tr h" "hubWriter h \<noteq> None" "receiveJob (storeExecutor exampleEnv) (the (hubWriter h)) \<noteq> None"
  shows "driftRun tr (driftWrite h)"
proof -
  obtain w w1 where w: "hubWriter h = Some w" "receiveJob (storeExecutor exampleEnv) w = Some w1" using assms(2,3) by auto
  show ?thesis using hub_run.quiet [OF assms(1) hub_quiet.received [OF w]] w by (simp add: driftWrite_def)
qed

lemma drift_op:
  assumes run: "driftRun tr h" and "0 < nextRoom h" "handleInbound True 0 0 (Some (opMessage op 0 0)) h \<noteq> None"
    and "0 < nextRoom (exampleType 0 op h)" "\<not> roomDone (roomHeap (exampleType 0 op h) 0)"
    and ev: "eventsOf 0 (exampleType 0 op h) = [Accepted 0 (Some 0) op 0]"
  shows "driftRun (tr @ [Accepted 0 (Some 0) op 0]) (driftOp op h)"
proof -
  have "commands (roomHeap (exampleType 0 op h) 0) \<noteq> []" using ev by (auto simp: eventsOf_def)
  from example_take [OF example_type [OF assms(1-3)] assms(4,5) this] show ?thesis by (simp add: driftOp_def ev)
qed

lemma drift_joined: "driftRun [Joined 0 0] driftJoined"
proof -
  let ?h1 = "snd (installRoom ''pad'' (newRoom ''pad'' 1 New 0 []) driftHub)"
  have "documentFromLoaded driftLoaded = Inr New" by (simp add: documentFromLoaded_def driftLoaded_def BuildAt_def)
  moreover have "installRoom ''pad'' (newRoom ''pad'' (storedID driftLoaded) New (storedVersion driftLoaded)
      (loadedOperations driftLoaded)) driftHub = (0, ?h1)"
    by (simp add: driftLoaded_def installRoom_def driftHub_def freshHub_def NewHubWithConfig_def)
  ultimately have "driftRun [] ?h1" by (rule hub_run.opened [OF hub_run.start])
  then have "driftRun [] (exampleJoin 0 ?h1)" by (rule example_join) code_simp+
  then have "driftRun ([] @ eventsOf 0 (exampleJoin 0 ?h1)) driftJoined"
    unfolding driftJoined_def by (rule example_take) code_simp+
  moreover have "eventsOf 0 (exampleJoin 0 ?h1) = [Joined 0 0]" by code_simp
  ultimately show ?thesis by simp
qed

lemma drift_typed: "driftRun [Joined 0 0, Accepted 0 (Some 0) insA 0, Accepted 0 (Some 0) insB 0] driftTyped"
proof -
  have "driftRun ([Joined 0 0] @ [Accepted 0 (Some 0) insA 0]) (driftOp insA driftJoined)"
    by (rule drift_op [OF drift_joined]) code_simp+
  then have "driftRun (([Joined 0 0] @ [Accepted 0 (Some 0) insA 0]) @ [Accepted 0 (Some 0) insB 0])
      (driftOp insB (driftOp insA driftJoined))"
    by (rule drift_op) code_simp+
  then have "driftRun (([Joined 0 0] @ [Accepted 0 (Some 0) insA 0]) @ [Accepted 0 (Some 0) insB 0]) driftTyped"
    unfolding driftTyped_def by (rule drift_write) code_simp+
  then show ?thesis by simp
qed

definition driftTrace :: "room_event list" where
  "driftTrace = [Joined 0 0, Accepted 0 (Some 0) insA 0, Accepted 0 (Some 0) insB 0, Accepted 0 (Some 0) insC 0]"

lemma drift_final: "driftRun driftTrace driftFinal"
proof -
  have "\<not> roomDone (roomHeap driftTyped 0)" by code_simp
  from hub_run.quiet [OF drift_typed hub_quiet.tick [OF this]]
  have "driftRun [Joined 0 0, Accepted 0 (Some 0) insA 0, Accepted 0 (Some 0) insB 0] driftSnapshot"
    unfolding driftSnapshot_def by (rule drift_write) code_simp+
  then have "driftRun ([Joined 0 0, Accepted 0 (Some 0) insA 0, Accepted 0 (Some 0) insB 0] @ [Accepted 0 (Some 0) insC 0])
      (driftOp insC driftSnapshot)"
    by (rule drift_op) code_simp+
  then have "driftRun ([Joined 0 0, Accepted 0 (Some 0) insA 0, Accepted 0 (Some 0) insB 0] @ [Accepted 0 (Some 0) insC 0]) driftFinal"
    unfolding driftFinal_def by (rule drift_write) code_simp+
  then show ?thesis by (simp add: driftTrace_def)
qed

theorem durable_log_follows_rooms_witness:
  "\<exists>w logged. hubWriter driftFinal = Some w \<and> documentLog (tables (fst (executor w))) 1 = logged
     \<and> subseq (map snd logged) [insA, insB, insC]"
proof -
  have ids: "roomIDs driftFinal 0 = 1" by code_simp
  have "wfTables (tables exampleStore)" using wfTables_example by simp
  from durable_log_follows_rooms [OF this drift_final [unfolded driftHub_def], of 1] show ?thesis
    by (auto simp: driftTrace_def ids documentLog_def documentOps_def exampleTables_def initialTables_def)
qed

section \<open>Reloading\<close>

text \<open>
  The stored snapshot of a document is faithful when it is the snapshot of the document its log
  builds up to the stored version.
\<close>

definition faithful :: "database \<Rightarrow> doc_row \<Rightarrow> crdt_char list \<Rightarrow> bool" where
  "faithful t r cs \<longleftrightarrow> 0 \<le> docVersion r \<and> docVersion r \<le> int (length (documentLog t (docID r)))
     \<and> (\<forall>prefix. decodeSnapshot prefix (docSnapshot r) = Inr cs)
     \<and> (\<exists>d. BuildAt [] (take (nat (docVersion r)) (map snd (documentLog t (docID r)))) = Inr d \<and> Snapshot (Some d) = Some cs)"

lemma faithful_replay:
  assumes f: "faithful t r cs" and n: "nat (docVersion r) \<le> n"
    and all: "BuildAt [] (take n (map snd (documentLog t (docID r)))) = Inr full"
  shows "\<exists>d'. BuildAt cs (drop (nat (docVersion r)) (take n (map snd (documentLog t (docID r))))) = Inr d'
    \<and> Snapshot (Some d') = Snapshot (Some full) \<and> Text (Some d') = Text (Some full)"
proof -
  let ?ops = "map snd (documentLog t (docID r))" let ?v = "nat (docVersion r)"
  obtain d where d: "BuildAt [] (take ?v ?ops) = Inr d" "Snapshot (Some d) = Some cs"
    using f by (auto simp: faithful_def)
  have split: "take n ?ops = take ?v ?ops @ drop ?v (take n ?ops)"
    using n by (metis append_take_drop_id min.absorb1 take_take)
  have base: "replayOps 0 (take ?v ?ops) New = Inr d" using d(1) by (simp add: BuildAt_ops)
  have rest: "replayOps 0 (drop ?v (take n ?ops)) d = Inr full"
    using all base unfolding BuildAt_ops by (subst (asm) split) (simp add: replayOps_Inr replay_append)
  have cs: "snapshotOf d = cs" using d(2) by (simp add: snapshotOf_def)
  obtain d' where "BuildAt cs (drop ?v (take n ?ops)) = Inr d'" using replica_in_order [OF base rest] cs by auto
  then show ?thesis using replica_agrees [OF base rest, unfolded cs] by blast
qed

lemma fold_max_sequence:
  "map recSequence recs = map int [Suc v..<Suc n] \<Longrightarrow> v \<le> n \<Longrightarrow>
   fold (\<lambda>q m. if recSequence q > m then recSequence q else m) recs (int v) = int n"
proof (induction recs arbitrary: v)
  case (Cons q recs)
  have "v < n" using Cons.prems by (cases "v < n") auto
  then have "[Suc v..<Suc n] = Suc v # [Suc (Suc v)..<Suc n]" by (simp add: upt_conv_Cons del: upt.simps)
  then have "recSequence q = int (Suc v)" "map recSequence recs = map int [Suc (Suc v)..<Suc n]"
    using Cons.prems(1) by (simp_all del: upt.simps)
  then show ?case using Cons.IH [of "Suc v"] \<open>v < n\<close> by simp
qed (cases "v < n"; simp add: upt_conv_Cons del: upt.simps)

text \<open>
  C32. A reload gives the document of the log: when the stored snapshot of a document is
  faithful, \<open>LoadDocument\<close> and the rebuild of the room succeed and give a document with the
  snapshot and the text of the whole log, and the new room continues with the sequence number of
  the last logged operation.
\<close>

theorem reload_rebuilds_log:
  assumes wf: "wfTables (tables s)" and "readDB s" and r: "documentBySlug (tables s) slug = Some r" and f: "faithful (tables s) r cs"
    and all: "BuildAt [] (map snd (documentLog (tables s) (docID r))) = Inr full"
  shows "\<exists>l d'. LoadDocument noFaults slug s = Inr l \<and> documentFromLoaded l = Inr d'
    \<and> Snapshot (Some d') = Snapshot (Some full) \<and> Text (Some d') = Text (Some full)
    \<and> roomSequence (newRoom slug (storedID l) d' (storedVersion l) (loadedOperations l))
        = int (length (documentLog (tables s) (docID r)))"
proof -
  let ?v = "nat (docVersion r)" let ?rows = "documentOps (tables s) (docID r)" let ?n = "length (documentLog (tables s) (docID r))"
  have v: "0 \<le> docVersion r" "?v \<le> ?n" "decodeSnapshot ''decode snapshot'' (docSnapshot r) = Inr cs"
    using f by (auto simp: faithful_def)
  let ?l = "\<lparr>storedID = docID r, storedSlug = slug, storedTitle = (case docTitle r of None \<Rightarrow> '''' | Some x \<Rightarrow> x),
     storedSnapshot = cs, storedVersion = docVersion r, loadedOperations = map recordOf (drop ?v ?rows)\<rparr>"
  have load: "LoadDocument noFaults slug s = Inr ?l"
    by (rule LoadDocument_ok [OF wf assms(2) _ r v(1,3)]) (simp add: noFaults_def)
  have ops: "map recOp (map recordOf (drop ?v ?rows)) = drop ?v (take ?n (map snd (documentLog (tables s) (docID r))))"
    by (simp add: recordOf_def documentLog_def drop_map comp_def)
  obtain d' where d': "documentFromLoaded ?l = Inr d'" "Snapshot (Some d') = Snapshot (Some full)" "Text (Some d') = Text (Some full)"
    using faithful_replay [OF f v(2)] all unfolding documentFromLoaded_def by (auto simp: ops simp del: map_map)
  have "map opSequence (drop ?v ?rows) = drop ?v (map int [1..<Suc (length ?rows)])"
    by (simp only: wf_seq [OF wf, symmetric] drop_map)
  then have "map recSequence (map recordOf (drop ?v ?rows)) = map int [Suc ?v..<Suc ?n]"
    by (simp add: recordOf_def comp_def drop_map del: upt.simps)
  from fold_max_sequence [OF this v(2)] have "roomSequence (newRoom slug (docID r) d' (docVersion r) (map recordOf (drop ?v ?rows))) = int ?n"
    using v(1) by (simp add: newRoom_def)
  then show ?thesis using load d' by auto
qed

text \<open>A document with one operation under its stored snapshot and one after it.\<close>

definition reloadWrite :: "Operation \<Rightarrow> Store \<Rightarrow> Store" where
  "reloadWrite op s = snd (AppendOperationBatch noFaults ''now'' 1 [\<lparr>writeUser = 1, writeOp = op\<rparr>] s)"

definition reloadStore :: Store where
  "reloadStore = reloadWrite insB (snd (SaveSnapshot noFaults ''now'' 1 [charA] 1 (reloadWrite insA exampleStore)))"

definition reloadRow :: doc_row where
  "reloadRow = the (documentBySlug (tables reloadStore) ''pad'')"

lemma reload_wf: "wfTables (tables reloadStore)"
proof -
  have append: "wfTables (tables (reloadWrite op s))" if "wfTables (tables s)" for op s
    using AppendOperationBatch_cases [OF that, of noFaults "''now''" 1 "[\<lparr>writeUser = 1, writeOp = op\<rparr>]"]
      appended_wf [OF that, of "[\<lparr>writeUser = 1, writeOp = op\<rparr>]" 1 "''now''"] that
    by (auto simp: reloadWrite_def)
  have save: "wfTables (tables (snd (SaveSnapshot noFaults ''now'' 1 [charA] 1 s)))" if "wfTables (tables s)" for s
    using SaveSnapshot_effect [OF that, of noFaults "''now''" 1 "[charA]" 1]
    by (cases "SaveSnapshot noFaults ''now'' 1 [charA] 1 s") auto
  show ?thesis
    unfolding reloadStore_def by (intro append save) (simp add: wfTables_example)
qed

lemma reload_row:
  "documentBySlug (tables reloadStore) ''pad'' = Some reloadRow" "docID reloadRow = 1" "docVersion reloadRow = 1"
  "docSnapshot reloadRow = Some (marshalChars [charA])" "map snd (documentLog (tables reloadStore) 1) = [insA, insB]"
proof -
  have "documentBySlug (tables reloadStore) ''pad'' \<noteq> None" by code_simp
  then show "documentBySlug (tables reloadStore) ''pad'' = Some reloadRow" by (auto simp: reloadRow_def)
qed code_simp+

lemma reload_faithful: "faithful (tables reloadStore) reloadRow [charA]"
proof -
  have "length (documentLog (tables reloadStore) 1) = 2"
    using reload_row(5) by (metis length_map length_Cons list.size(3) numeral_2_eq_2)
  moreover have "BuildAt [] [insA] = Inr \<lparr>chars = [(idA, charA)]\<rparr>" by code_simp
  moreover have "Snapshot (Some \<lparr>chars = [(idA, charA)]\<rparr>) = Some [charA]" by code_simp
  ultimately show ?thesis
    by (simp add: faithful_def reload_row decodeSnapshot_def unmarshal_marshalChars)
qed

theorem reload_rebuilds_log_witness:
  "\<exists>l d'. LoadDocument noFaults ''pad'' reloadStore = Inr l \<and> documentFromLoaded l = Inr d' \<and> Snapshot (Some d') = Some [charA, charB]"
proof -
  have "readDB reloadStore" by code_simp
  from reload_rebuilds_log [OF reload_wf this reload_row(1) reload_faithful, unfolded reload_row(2,5), OF run_AB]
  show ?thesis by (auto simp: snapshot_AB)
qed


end
