(* ===== verification/Room_Registry.thy ===== *)
theory Room_Registry
  imports Room_Theorems
begin

text \<open>
  The registry of rooms: one room for each slug, a gauge that counts them exactly, and bounded
  command queues.
\<close>

definition registryInv :: "('x, 'e) Hub \<Rightarrow> bool" where
  "registryInv h \<longleftrightarrow> distinct (map fst (hubRooms h))
     \<and> (\<forall>(slug, r) \<in> set (hubRooms h). r < nextRoom h \<and> roomSlug (roomHeap h r) = slug)
     \<and> map_option activeRooms (hubMetrics h) = Some (int (length (hubRooms h)))
     \<and> (\<forall>r. int (length (commands (roomHeap h r))) \<le> ClientQueueSize (hubConfig h))"

definition keepsRegistry :: "('x, 'e) Hub \<Rightarrow> ('x, 'e) Hub \<Rightarrow> bool" where
  "keepsRegistry h k \<longleftrightarrow> (registryInv h \<longrightarrow> registryInv k)"

lemma keepsRegistry_same:
  assumes "hubRooms k = hubRooms h" "nextRoom k = nextRoom h" "hubConfig k = hubConfig h"
    and "map_option activeRooms (hubMetrics k) = map_option activeRooms (hubMetrics h)"
    and "\<And>r. roomSlug (roomHeap k r) = roomSlug (roomHeap h r)"
    and "\<And>r. length (commands (roomHeap k r)) \<le> length (commands (roomHeap h r))"
  shows "keepsRegistry h k"
proof -
  have "int (length (commands (roomHeap k r))) \<le> ClientQueueSize (hubConfig h)"
    if "int (length (commands (roomHeap h r))) \<le> ClientQueueSize (hubConfig h)" for r
    using assms(6) [of r] that by linarith
  then show ?thesis using assms(1-5) by (auto simp: keepsRegistry_def registryInv_def)
qed

lemma length_alist_delete:
  "distinct (map fst xs) \<Longrightarrow> map_of xs k = Some v \<Longrightarrow> length (AList.delete k xs) = length xs - 1"
proof (induction xs)
  case (Cons x xs)
  show ?case
  proof (cases "fst x = k")
    case True
    then have "k \<notin> fst ` set xs" using Cons.prems(1) by auto
    then show ?thesis using True by (cases x) (simp add: delete_notin_dom)
  next
    case False
    then have "map_of xs k = Some v" using Cons.prems(2) by (cases x) (simp split: if_splits)
    moreover from this have "xs \<noteq> []" by auto
    ultimately show ?thesis using Cons False by (cases x) (simp add: Suc_diff_le Suc_le_eq)
  qed
qed simp

lemma keepsRegistry_remove: "keepsRegistry h (removeRoom r h)"
  unfolding keepsRegistry_def
proof
  assume inv: "registryInv h"
  let ?slug = "roomSlug (roomHeap h r)"
  show "registryInv (removeRoom r h)"
  proof (cases "map_of (hubRooms h) ?slug = Some r")
    case True
    have "length (AList.delete ?slug (hubRooms h)) = length (hubRooms h) - 1" "hubRooms h \<noteq> []"
      using length_alist_delete [OF _ True] inv True by (auto simp: registryInv_def)
    then have len: "int (length (AList.delete ?slug (hubRooms h))) = int (length (hubRooms h)) - 1" "hubRooms h \<noteq> []"
      by (auto simp: Suc_leI of_nat_diff)
    have sub: "set (AList.delete ?slug (hubRooms h)) \<subseteq> set (hubRooms h)" by (auto simp: AList.delete_eq)
    show ?thesis
      using inv len sub True
      by (auto simp: registryInv_def removeRoom_def Let_def setMetrics_def AddActiveRooms_def distinct_delete
          option.map_comp o_def map_option_case split: option.splits)
  next
    case False
    then show ?thesis using inv by (simp add: removeRoom_def)
  qed
qed

interpretation registry: hub_frame_all keepsRegistry "\<lambda>_. True" ex for ex
proof
  show "keepsRegistry h k \<Longrightarrow> keepsRegistry k l \<Longrightarrow> keepsRegistry h l" for h k l :: "('a, 'b) Hub"
    by (simp add: keepsRegistry_def)
  show "keepsRegistry h (setMetrics g h)" if "plainMetric g" for h :: "('a, 'b) Hub" and g
    using that by (intro keepsRegistry_same) (auto simp: plainMetric_def setMetrics_def)
  show "keepsRegistry h (setRoom r u h)" if "harmless u" for h :: "('a, 'b) Hub" and r u
    using that by (intro keepsRegistry_same) (auto simp: harmless_def)
  show "keepsRegistry h (pushCommand r cmd h)" if "\<not> commandsFull r h" for h :: "('a, 'b) Hub" and r cmd
    using that by (auto simp: keepsRegistry_def registryInv_def pushCommand_def commandsFull_def)
  show "keepsRegistry h (removeRoom r h)" for h :: "('a, 'b) Hub" and r by (rule keepsRegistry_remove)
  show "keepsRegistry h (addClient r c h)" for h :: "('a, 'b) Hub" and r c
    by (rule keepsRegistry_same) (auto simp: addClient_def)
  show "keepsRegistry h (setRoom r v h)" if "neutral v" for h :: "('a, 'b) Hub" and r v
    using that by (intro keepsRegistry_same) (auto simp: neutral_def)
qed (auto intro: keepsRegistry_same)

lemma registry_opened:
  assumes "registryInv h" "installRoom slug (newRoom slug d doc v recs) h = (r, k)"
  shows "registryInv k"
proof (cases "map_of (hubRooms h) slug")
  case (Some q)
  then show ?thesis using assms by (simp add: installRoom_def)
next
  case None
  then have fresh: "slug \<notin> fst ` set (hubRooms h)" by (simp add: map_of_eq_None_iff)
  have up: "AList.update slug (nextRoom h) (hubRooms h) = hubRooms h @ [(slug, nextRoom h)]"
    using None by (rule update_fresh)
  have k: "hubRooms k = hubRooms h @ [(slug, nextRoom h)]" "nextRoom k = Suc (nextRoom h)" "hubConfig k = hubConfig h"
      "roomHeap k = (roomHeap h)(nextRoom h := newRoom slug d doc v recs)" "hubMetrics k = AddActiveRooms 1 (hubMetrics h)"
    using assms(2) None up by (auto simp: installRoom_def Let_def setMetrics_def)
  have m: "map_option activeRooms (AddActiveRooms 1 (hubMetrics h)) = Some (int (length (hubRooms h)) + 1)"
    using assms(1) by (cases "hubMetrics h") (simp_all add: registryInv_def AddActiveRooms_def Let_def)
  have "int (length (commands (roomHeap h 0))) \<le> ClientQueueSize (hubConfig h)" using assms(1) by (simp add: registryInv_def)
  then have "0 \<le> ClientQueueSize (hubConfig h)" by linarith
  then show ?thesis
    using assms(1) fresh m by (fastforce simp: registryInv_def k newRoom_def less_Suc_eq)
qed

lemma registry_run:
  assumes "hub_run ex h0 tr h" "registryInv h0"
  shows "registryInv h"
  using assms
proof (induction rule: hub_run.induct)
  case (quiet tr h k)
  then show ?case using registry.F_quiet by (auto simp: keepsRegistry_def)
next
  case (command tr h r k)
  then show ?case using registry.F_command by (auto simp: keepsRegistry_def)
next
  case (opened tr h l d slug r k)
  then show ?case using registry_opened by blast
qed simp

lemma registry_fresh: "m = None \<or> map_option activeRooms m = Some 0 \<Longrightarrow> registryInv (freshHub cfg w m sc cl)"
  by (auto simp: registryInv_def freshHub_def NewHubWithConfig_def newRoom_def Metrics_New_def orDefault_def
      defaultClientQueueSize_def split: option.splits)

text \<open>
  C35. In every state the hub reaches: a slug has at most one room and a room is registered
  under its own slug; the gauge of active rooms is the number of registered rooms; no command
  queue exceeds \<open>ClientQueueSize\<close>; every document is well-formed and no client is registered
  twice in a room.
\<close>

theorem hub_invariant:
  assumes run: "hub_run ex (freshHub cfg w m sc cl) tr h" and m: "m = None \<or> map_option activeRooms m = Some 0"
  shows "distinct (map fst (hubRooms h)) \<and> (\<forall>(slug, r) \<in> set (hubRooms h). r < nextRoom h \<and> roomSlug (roomHeap h r) = slug)
    \<and> map_option activeRooms (hubMetrics h) = Some (int (length (hubRooms h)))
    \<and> (\<forall>r. int (length (commands (roomHeap h r))) \<le> ClientQueueSize (hubConfig h))
    \<and> (\<forall>r. wfDoc (roomDocument (roomHeap h r)) \<and> distinct (roomClients (roomHeap h r)))"
  using registry_run [OF run registry_fresh [OF m]] fresh_run [OF run] by (simp add: registryInv_def roomsInv_def)

theorem hub_invariant_witness:
  "map_option activeRooms (hubMetrics exampleAccepted) = Some (int (length (hubRooms exampleAccepted)))"
  using hub_invariant [OF example_accepted [where ex = exampleExecutor, unfolded exampleHub_def]] by simp

end
