(* ===== verification/Room_Eviction.thy ===== *)
theory Room_Eviction
  imports Room_Theorems
begin

text \<open>
  What happens to clients when the shared fan-out queue is full, and to a client that joins a
  room which has just ended.
\<close>

section \<open>A full fan-out queue\<close>

abbreviation fanoutFull :: "('x, 'e) Hub \<Rightarrow> bool" where
  "fanoutFull h \<equiv> FanoutQueueSize (hubConfig h) \<le> int (length (fanoutJobs h))"

lemma fanoutFull_frame: "fanoutFull h \<Longrightarrow> bcastFrame r h k \<Longrightarrow> fanoutFull k"
  by (auto simp: bcastFrame_def)

lemma no_clients: "roomClients (roomHeap h r) = [] \<Longrightarrow> roomClients (roomHeap (broadcastLoop n r data exclude cs h) r) = []"
  using broadcastLoop_fewer(1) [of n r data exclude cs h] by simp

lemma evict_all:
  "length (roomClients (roomHeap h r)) \<le> n \<Longrightarrow> fanoutFull h \<Longrightarrow>
   roomClients (roomHeap (broadcastLoop n r data None (roomClients (roomHeap h r)) h) r) = []"
proof (induction n arbitrary: data h)
  case 0
  then show ?case by simp
next
  case (Suc m)
  show ?case
  proof (cases "roomClients (roomHeap h r)")
    case Nil
    then show ?thesis by simp
  next
    case (Cons c cs)
    from Suc.prems(1) show ?thesis
    proof (cases rule: broadcastLoop_Cons [where c = c and exclude = None and data = data and cs = cs])
      case (refused m' h2)
      have "bcastFrame r h h2"
        unfolding refused(5) by (rule bcastFrame_trans [OF setMetrics_frame removeClient_frame])
      then have "fanoutFull h2" using Suc.prems(2) by (rule fanoutFull_frame [rotated])
      moreover have "m' = m" using refused(3) by simp
      ultimately have "roomClients (roomHeap (broadcastLoop m' r (presenceData ''leave'' c r h2) None (roomClients (roomHeap h2 r)) h2) r) = []"
        using Suc.IH refused(6) by simp
      then show ?thesis unfolding Cons refused(7) by (rule no_clients)
    qed (use Cons Suc.prems(2) in auto)
  qed
qed

lemma evict:
  "length (roomClients (roomHeap h r)) \<le> n \<Longrightarrow> fanoutFull h \<Longrightarrow> x \<in> set cs \<Longrightarrow> x \<in> set (roomClients (roomHeap h r)) \<Longrightarrow>
   exclude \<noteq> Some x \<Longrightarrow> roomClients (roomHeap (broadcastLoop n r data exclude cs h) r) = []"
proof (induction cs)
  case (Cons c cs)
  from Cons.prems(1) show ?case
  proof (cases rule: broadcastLoop_Cons [where c = c and exclude = exclude and data = data and cs = cs])
    case skip
    then have "x \<in> set cs" using Cons.prems(3-5) by auto
    then show ?thesis using Cons.IH Cons.prems skip(2) by simp
  next
    case (refused m h2)
    have "bcastFrame r h h2"
      unfolding refused(5) by (rule bcastFrame_trans [OF setMetrics_frame removeClient_frame])
    then have "fanoutFull h2" using Cons.prems(2) by (rule fanoutFull_frame [rotated])
    from evict_all [OF refused(6) this] show ?thesis unfolding refused(7) by (rule no_clients)
  qed (use Cons.prems(2) in auto)
qed simp

lemma removed_closed:
  "x \<in> set (roomClients (roomHeap h r)) \<Longrightarrow> x \<notin> set (roomClients (roomHeap (broadcastLoop n r data exclude cs h) r)) \<Longrightarrow>
   clientDone (clientHeap (broadcastLoop n r data exclude cs h) x)"
proof (induction n r data exclude cs h rule: broadcastLoop.induct)
  case (1 n r data exclude h)
  then show ?case by simp
next
  case (2 n r data exclude c cs h)
  let ?job = "\<lparr>fanClient = c, fanData = data, fanRoom = r\<rparr>"
  show ?case
  proof (cases "c \<notin> set (roomClients (roomHeap h r)) \<or> exclude = Some c")
    case True
    then show ?thesis using "2.IH"(1) "2.prems" by auto
  next
    case present: False
    obtain ok h1 where sub: "fanoutSubmit ?job h = (ok, h1)" by (cases "fanoutSubmit ?job h")
    have rooms: "roomHeap h1 = roomHeap h" using sub by (auto simp: fanoutSubmit_def split: if_splits)
    show ?thesis
    proof (cases ok)
      case True
      then show ?thesis
        using "2.IH"(2) [OF present sub [symmetric, unfolded True]] "2.prems" present sub rooms by simp
    next
      case refused: False
      then have sub': "(False, h1) = fanoutSubmit ?job h" using sub by simp
      show ?thesis
      proof (cases n)
        case 0
        then show ?thesis using "2.prems" present sub refused rooms by auto
      next
        case (Suc m)
        let ?h2 = "removeClient r c (setMetrics IncDroppedClients h1)"
        let ?h3 = "broadcastLoop m r (presenceData ''leave'' c r ?h2) None (roomClients (roomHeap ?h2 r)) ?h2"
        let ?k = "broadcastLoop n r data exclude cs ?h3"
        have eq: "broadcastLoop n r data exclude (c # cs) h = ?k" using present sub refused Suc by (simp add: Let_def)
        have mono: "clientDone (clientHeap l x) \<Longrightarrow> clientDone (clientHeap (broadcastLoop i r d e ds l) x)" for i d e ds l
          using broadcastLoop_frame [of r l i d e ds] by (auto simp: bcastFrame_def sameClient_def)
        consider "x = c" | "x \<noteq> c" "x \<in> set (roomClients (roomHeap ?h3 r))" | "x \<noteq> c" "x \<notin> set (roomClients (roomHeap ?h3 r))"
          by blast
        then have "clientDone (clientHeap ?k x)"
        proof cases
          case 1
          then have "clientDone (clientHeap ?h2 x)" by (simp add: removeClient_def Client_close_def)
          then show ?thesis using mono by blast
        next
          case 2
          then show ?thesis
            using "2.IH"(4) [OF present sub' _ Suc refl refl] "2.prems"(2) eq by simp
        next
          case 3
          have "x \<in> set (roomClients (roomHeap ?h2 r))"
            using 3(1) "2.prems"(1) rooms by (simp add: removeClient_clients in_set_remove1)
          then have "clientDone (clientHeap ?h3 x)"
            using "2.IH"(3) [OF present sub' _ Suc refl] 3(2) by simp
          then show ?thesis using mono by blast
        qed
        then show ?thesis unfolding eq .
      qed
    qed
  qed
qed

lemma snapshot_clients:
  "roomClients (roomHeap (requestSnapshot r h) q) = roomClients (roomHeap h q)" "clientHeap (requestSnapshot r h) = clientHeap h"
  by (auto simp: requestSnapshot_def Let_def split: option.splits prod.splits)

lemma persist_clients:
  "roomClients (roomHeap (queuePersistence r p op h) q) = roomClients (roomHeap h q)" "clientHeap (queuePersistence r p op h) = clientHeap h"
  by (auto simp: queuePersistence_def Let_def split: option.splits)


text \<open>The example room with a fan-out queue that is full.\<close>

definition crowdedHub :: "(unit, unit) Hub" where
  "crowdedHub = exampleJoined\<lparr>hubConfig := (hubConfig exampleJoined)\<lparr>FanoutQueueSize := 1\<rparr>\<rparr>"


section \<open>Joining a room that has ended\<close>

definition endedRoom :: "Room \<Rightarrow> bool" where
  "endedRoom x \<longleftrightarrow> roomDone x \<and> roomClients x = []"

definition endedFrame :: "('x, 'e) Hub \<Rightarrow> ('x, 'e) Hub \<Rightarrow> bool" where
  "endedFrame h k \<longleftrightarrow> nextRoom k = nextRoom h \<and> (\<forall>r. endedRoom (roomHeap h r) \<longrightarrow> endedRoom (roomHeap k r))"

lemma endedFrame_rooms: "roomHeap k = roomHeap h \<Longrightarrow> nextRoom k = nextRoom h \<Longrightarrow> endedFrame h k"
  by (simp add: endedFrame_def)

interpretation ended: hub_frame_all endedFrame "\<lambda>_. True" ex for ex
proof
  show "endedFrame h k \<Longrightarrow> endedFrame k l \<Longrightarrow> endedFrame h l" for h k l :: "('a, 'b) Hub"
    by (simp add: endedFrame_def)
  show "endedFrame h (setRoom r u h)" if "harmless u" for h :: "('a, 'b) Hub" and r u
    using that by (auto simp: endedFrame_def endedRoom_def harmless_def)
  show "endedFrame h (pushCommand r cmd h)" for h :: "('a, 'b) Hub" and r cmd
    by (simp add: endedFrame_def endedRoom_def pushCommand_def)
  show "endedFrame h (setRoom r (\<lambda>x. x\<lparr>commands := rest\<rparr>) h)" for h :: "('a, 'b) Hub" and r rest
    by (simp add: endedFrame_def endedRoom_def)
  show "endedFrame h (removeRoom r h)" for h :: "('a, 'b) Hub" and r
    by (rule endedFrame_rooms) (simp_all add: removeRoom_def Let_def)
  show "endedFrame h (addClient r c h)" if "\<not> roomDone (roomHeap h r)" for h :: "('a, 'b) Hub" and r c
    using that by (auto simp: endedFrame_def endedRoom_def addClient_def)
  show "endedFrame h (setRoom r v h)" if "neutral v" for h :: "('a, 'b) Hub" and r v
    using that by (auto simp: endedFrame_def endedRoom_def neutral_def)
qed (auto intro: endedFrame_rooms)

lemma ended_run:
  assumes "hub_run ex h0 tr h" "r < nextRoom h0" "endedRoom (roomHeap h0 r)"
  shows "r < nextRoom h \<and> endedRoom (roomHeap h r)"
  using assms
proof (induction rule: hub_run.induct)
  case (quiet tr h k)
  then show ?case using ended.F_quiet by (auto simp: endedFrame_def)
next
  case (command tr h r' k)
  then show ?case using ended.F_command by (auto simp: endedFrame_def)
next
  case (opened tr h l d slug q k)
  then show ?case by (auto simp: installRoom_def Let_def split: option.splits)
qed simp

lemma idle_ends: "roomClients (roomHeap h r) = [] \<Longrightarrow> endedRoom (roomHeap (idleFired r h) r) \<and> nextRoom (idleFired r h) = nextRoom h"
proof -
  assume none: "roomClients (roomHeap h r) = []"
  have "roomClients (roomHeap (removeRoom r (requestSnapshot r h)) r) = []"
    using none by (simp add: removeRoom_def Let_def snapshot_clients)
  moreover have "nextRoom (idleFired r h) = nextRoom h" using calm.F_idleFired [of h r] by (simp add: calm_def)
  ultimately show ?thesis using none by (simp add: idleFired_def finishRoom_def endedRoom_def)
qed



end
