(* ===== verification/Strconv.thy ===== *)
theory Strconv
  imports Go_Strings
begin

text \<open>
  \<open>strconv.ParseInt\<close> and \<open>time.ParseDuration\<close> as the sources use them, with the overflow
  checks of the library. The one step that library takes in floating point, the value of a decimal
  fraction of a unit, is the argument \<open>fraction\<close>.
\<close>

section \<open>Integers\<close>

definition isDigit :: "char \<Rightarrow> bool" where
  "isDigit c \<longleftrightarrow> (let n = of_char c :: nat in 48 \<le> n \<and> n \<le> 57)"

definition digitValue :: "char \<Rightarrow> int" where
  "digitValue c = of_char c - 48"

definition digitsValue :: "string \<Rightarrow> int" where
  "digitsValue s = fold (\<lambda>c n. 10 * n + digitValue c) s 0"

text \<open>\<open>strconv.ParseInt(s, 10, 64)\<close> and \<open>strconv.Atoi\<close>: an optional sign and decimal digits, in range.\<close>

definition parseInt64 :: "string \<Rightarrow> int option" where
  "parseInt64 s =
     (let (negative, digits) =
        (case s of
           [] \<Rightarrow> (False, [])
         | c # cs \<Rightarrow> if c = CHR ''-'' then (True, cs) else if c = CHR ''+'' then (False, cs) else (False, s))
      in if digits = [] \<or> \<not> list_all isDigit digits then None
         else let n = (if negative then - digitsValue digits else digitsValue digits)
              in if - (2 ^ 63) \<le> n \<and> n < 2 ^ 63 then Some n else None)"

section \<open>Durations\<close>

fun leadingInt :: "int \<Rightarrow> string \<Rightarrow> (int \<times> string) option" where
  "leadingInt x [] = Some (x, [])"
| "leadingInt x (c # cs) =
     (if \<not> isDigit c then Some (x, c # cs)
      else if x > 2 ^ 63 div 10 then None
      else let y = x * 10 + digitValue c in if y > 2 ^ 63 then None else leadingInt y cs)"

text \<open>The digits of a fraction that fit, how many they are, and the rest.\<close>

fun leadingFraction :: "int \<Rightarrow> nat \<Rightarrow> bool \<Rightarrow> string \<Rightarrow> int \<times> nat \<times> string" where
  "leadingFraction x n overflow [] = (x, n, [])"
| "leadingFraction x n overflow (c # cs) =
     (if \<not> isDigit c then (x, n, c # cs)
      else if overflow \<or> x > (2 ^ 63 - 1) div 10 then leadingFraction x n True cs
      else let y = x * 10 + digitValue c
           in if y > 2 ^ 63 then leadingFraction x n True cs else leadingFraction y (Suc n) False cs)"

definition unitMap :: "(string \<times> int) list" where
  "unitMap =
     [(''ns'', 1), (''us'', 1000), ([CHR 0xC2, CHR 0xB5, CHR ''s''], 1000), ([CHR 0xCE, CHR 0xBC, CHR ''s''], 1000),
      (''ms'', 1000000), (''s'', 1000000000), (''m'', 60000000000), (''h'', 3600000000000)]"

definition unitChar :: "char \<Rightarrow> bool" where
  "unitChar c \<longleftrightarrow> c \<noteq> CHR ''.'' \<and> \<not> isDigit c"

text \<open>An optional fraction, and whether it has digits.\<close>

definition fractionPart :: "string \<Rightarrow> int \<times> nat \<times> string \<times> bool" where
  "fractionPart s =
     (if s \<noteq> [] \<and> hd s = CHR ''.''
      then (case leadingFraction 0 0 False (tl s) of (f, n, s') \<Rightarrow> (f, n, s', length s' \<noteq> length (tl s)))
      else (0, 0, s, False))"

text \<open>One number with its unit; \<open>fraction f n unit\<close> is the value of \<open>f / 10 ^ n\<close> units.\<close>

definition durationItem :: "(int \<Rightarrow> nat \<Rightarrow> int \<Rightarrow> int) \<Rightarrow> string \<Rightarrow> (int \<times> string) option" where
  "durationItem fraction s =
     (if s = [] \<or> unitChar (hd s) then None
      else case leadingInt 0 s of
          None \<Rightarrow> None
        | Some (v, s1) \<Rightarrow>
            (case fractionPart s1 of
               (f, n, s2, post) \<Rightarrow>
                 if length s1 = length s \<and> \<not> post \<or> takeWhile unitChar s2 = [] then None
                 else case map_of unitMap (takeWhile unitChar s2) of
                     None \<Rightarrow> None
                   | Some unit \<Rightarrow>
                       if v > 2 ^ 63 div unit then None
                       else let v' = (if f > 0 then v * unit + fraction f n unit else v * unit)
                            in if v' > 2 ^ 63 then None else Some (v', dropWhile unitChar s2)))"

lemma leadingInt_length: "leadingInt x s = Some (v, s') \<Longrightarrow> length s' \<le> length s"
  by (induction x s rule: leadingInt.induct) (auto simp: Let_def split: if_splits)

lemma leadingFraction_length: "leadingFraction x n b s = (f, m, s') \<Longrightarrow> length s' \<le> length s"
  by (induction x n b s rule: leadingFraction.induct) (auto simp: Let_def split: if_splits)

lemma fractionPart_length: "fractionPart s = (f, n, s', post) \<Longrightarrow> length s' \<le> length s"
  by (cases "leadingFraction 0 0 False (tl s)")
    (auto simp: fractionPart_def split: if_splits dest!: leadingFraction_length)

lemma dropWhile_shorter: "takeWhile P s \<noteq> [] \<Longrightarrow> length (dropWhile P s) < length s"
  by (cases s) (auto simp: le_imp_less_Suc length_dropWhile_le split: if_splits)

lemma durationItem_length: "durationItem fraction s = Some (v, s') \<Longrightarrow> length s' < length s"
proof -
  assume item: "durationItem fraction s = Some (v, s')"
  obtain v1 s1 where s1: "leadingInt 0 s = Some (v1, s1)" using item by (auto simp: durationItem_def split: option.splits if_splits)
  obtain f n s2 post where s2: "fractionPart s1 = (f, n, s2, post)" by (cases "fractionPart s1")
  have "s' = dropWhile unitChar s2" "takeWhile unitChar s2 \<noteq> []"
    using item s1 s2 by (auto simp: durationItem_def Let_def split: option.splits if_splits)
  then show ?thesis
    using dropWhile_shorter [of unitChar s2] leadingInt_length [OF s1] fractionPart_length [OF s2] by simp
qed

function durationLoop :: "(int \<Rightarrow> nat \<Rightarrow> int \<Rightarrow> int) \<Rightarrow> int \<Rightarrow> string \<Rightarrow> int option" where
  "durationLoop fraction d s =
     (if s = [] then Some d
      else case durationItem fraction s of
          None \<Rightarrow> None
        | Some (v, s') \<Rightarrow> let d' = (d + v) mod 2 ^ 64 in if d' > 2 ^ 63 then None else durationLoop fraction d' s')"
  by pat_completeness auto
termination
  by (relation "measure (\<lambda>(fraction, d, s). length s)") (auto dest: durationItem_length)

declare durationLoop.simps [simp del]

definition parseDuration :: "(int \<Rightarrow> nat \<Rightarrow> int \<Rightarrow> int) \<Rightarrow> string \<Rightarrow> int option" where
  "parseDuration fraction s =
     (let (neg, t) = (if s \<noteq> [] \<and> (hd s = CHR ''-'' \<or> hd s = CHR ''+'') then (hd s = CHR ''-'', tl s) else (False, s))
      in if t = ''0'' then Some 0
         else if t = '''' then None
         else case durationLoop fraction 0 t of
             None \<Rightarrow> None
           | Some d \<Rightarrow> if neg then Some (- d) else if d > 2 ^ 63 - 1 then None else Some d)"

section \<open>Results\<close>

lemma durationLoop_range: "durationLoop fraction d s = Some d' \<Longrightarrow> 0 \<le> d \<Longrightarrow> d \<le> 2 ^ 63 \<Longrightarrow> 0 \<le> d' \<and> d' \<le> 2 ^ 63"
proof (induction fraction d s rule: durationLoop.induct)
  case (1 fraction d s)
  show ?case
  proof (cases "s = []")
    case True
    then show ?thesis using "1.prems" by (simp add: durationLoop.simps)
  next
    case False
    obtain v s' where item: "durationItem fraction s = Some (v, s')" and le: "(d + v) mod 2 ^ 64 \<le> 2 ^ 63"
        and rest: "durationLoop fraction ((d + v) mod 2 ^ 64) s' = Some d'"
      using "1.prems"(1) False by (subst (asm) durationLoop.simps) (auto simp: Let_def split: option.splits if_splits)
    show ?thesis by (rule "1.IH" [OF False item refl refl]) (use le rest in auto)
  qed
qed

lemma parseDuration_range: "parseDuration fraction s = Some d \<Longrightarrow> - (2 ^ 63) \<le> d \<and> d < 2 ^ 63"
  by (auto simp: parseDuration_def Let_def split: if_splits option.splits prod.splits dest!: durationLoop_range)

lemma parseInt64_range: "parseInt64 s = Some n \<Longrightarrow> - (2 ^ 63) \<le> n \<and> n < 2 ^ 63"
  by (auto simp: parseInt64_def Let_def split: if_splits list.splits prod.splits)

text \<open>Numbers without a sign.\<close>

lemma digitValue_nonneg: "isDigit c \<Longrightarrow> 0 \<le> digitValue c"
proof -
  assume "isDigit c"
  then have "48 \<le> (of_char c :: nat)" by (simp add: isDigit_def Let_def)
  then have "int 48 \<le> int (of_char c)" by (rule iffD2 [OF of_nat_le_iff])
  then show ?thesis by (simp add: digitValue_def of_nat_of_char)
qed

lemma fold_digits_ge: "list_all isDigit ds \<Longrightarrow> 0 \<le> x \<Longrightarrow> x \<le> fold (\<lambda>c n. 10 * n + digitValue c) ds x"
proof (induction ds arbitrary: x)
  case (Cons c ds)
  then have "x \<le> 10 * x + digitValue c" "0 \<le> 10 * x + digitValue c" using digitValue_nonneg [of c] by simp_all
  then show ?case using Cons.IH [of "10 * x + digitValue c"] Cons.prems by simp
qed simp

lemma leadingInt_digits:
  assumes "list_all isDigit ds" "0 \<le> x" "fold (\<lambda>c n. 10 * n + digitValue c) ds x \<le> 2 ^ 63" "rest = [] \<or> \<not> isDigit (hd rest)"
  shows "leadingInt x (ds @ rest) = Some (fold (\<lambda>c n. 10 * n + digitValue c) ds x, rest)"
  using assms
proof (induction ds arbitrary: x)
  case Nil
  then show ?case by (cases rest) auto
next
  case (Cons c ds)
  let ?y = "10 * x + digitValue c"
  have y: "0 \<le> ?y" "?y \<le> 2 ^ 63" "10 * x \<le> 2 ^ 63"
    using fold_digits_ge [of ds ?y] Cons.prems digitValue_nonneg [of c] by auto
  then have "\<not> x > 2 ^ 63 div 10" by linarith
  then show ?case using Cons y by (simp add: Let_def mult.commute)
qed

lemma digits_hd: "list_all isDigit ds \<Longrightarrow> ds \<noteq> [] \<Longrightarrow> isDigit (hd ds) \<and> hd ds \<noteq> CHR ''-'' \<and> hd ds \<noteq> CHR ''+'' \<and> \<not> unitChar (hd ds)"
  by (cases ds) (auto simp: isDigit_def unitChar_def)

lemma parseInt64_digits:
  assumes "list_all isDigit ds" "ds \<noteq> []" "digitsValue ds < 2 ^ 63"
  shows "parseInt64 ds = Some (digitsValue ds)"
proof -
  have "0 \<le> digitsValue ds" using fold_digits_ge [OF assms(1), of 0] by (simp add: digitsValue_def)
  then show ?thesis using assms digits_hd [OF assms(1,2)] by (cases ds) (simp_all add: parseInt64_def)
qed

lemma parseDuration_bare:
  assumes ds: "list_all isDigit ds" "digitsValue ds < 2 ^ 63"
  shows "parseDuration fraction ds = (if ds = ''0'' then Some 0 else None)"
proof (cases "ds = [] \<or> ds = ''0''")
  case False
  have "leadingInt 0 ds = Some (digitsValue ds, [])"
    using leadingInt_digits [of ds 0 "[]"] ds by (simp add: digitsValue_def)
  then have "durationItem fraction ds = None" using False by (simp add: durationItem_def fractionPart_def)
  then have "durationLoop fraction 0 ds = None" using False by (subst durationLoop.simps) simp
  then show ?thesis using False digits_hd [OF ds(1)] by (simp add: parseDuration_def)
qed (auto simp: parseDuration_def)

lemma parseDuration_seconds:
  assumes ds: "list_all isDigit ds" "ds \<noteq> []" "digitsValue ds \<le> 9223372036"
  shows "parseDuration fraction (ds @ ''s'') = Some (digitsValue ds * 1000000000)"
proof -
  have s: "\<not> isDigit CHR ''s''" "unitChar CHR ''s''" by code_simp+
  have nn: "0 \<le> digitsValue ds" using fold_digits_ge [OF ds(1), of 0] by (simp add: digitsValue_def)
  have int: "leadingInt 0 (ds @ ''s'') = Some (digitsValue ds, ''s'')"
    using leadingInt_digits [of ds 0 "''s''"] ds s by (simp add: digitsValue_def)
  have frac: "fractionPart ''s'' = (0, 0, ''s'', False)" by (simp add: fractionPart_def)
  have unit: "map_of unitMap ''s'' = Some 1000000000" by code_simp
  have div: "(2 :: int) ^ 63 div 1000000000 = 9223372036" by simp
  have "durationItem fraction (ds @ ''s'') = Some (digitsValue ds * 1000000000, [])"
    using int frac unit s ds nn digits_hd [OF ds(1,2)] by (simp add: durationItem_def div Let_def)
  moreover have "durationLoop fraction d [] = Some d" for d by (simp add: durationLoop.simps)
  ultimately have "durationLoop fraction 0 (ds @ ''s'') = Some (digitsValue ds * 1000000000)"
    using nn ds by (subst durationLoop.simps) (simp add: Let_def)
  then show ?thesis using ds nn digits_hd [OF ds(1,2)] by (auto simp: parseDuration_def)
qed

end
