(* ===== verification/History_API.thy ===== *)
theory History_API
  imports Store Cache Http History Hub Strconv
begin

text \<open>
  \<open>internal/server/history.go\<close>: the time-travel API. A request is what the handlers read of
  it; the service is a record of the four queries; the readings of the clock are arguments. The
  text form of a time in JSON is a parameter.
\<close>

section \<open>Functions of the standard library\<close>

text \<open>\<open>strings.Split(s, ",")[0]\<close>.\<close>

definition beforeComma :: "string \<Rightarrow> string" where
  "beforeComma s = takeWhile (\<lambda>c. c \<noteq> CHR '','') s"

text \<open>\<open>net.SplitHostPort\<close>: the host, or \<^const>\<open>None\<close> for an error.\<close>

fun indexOf :: "char \<Rightarrow> string \<Rightarrow> nat option" where
  "indexOf c [] = None"
| "indexOf c (x # xs) = (if x = c then Some 0 else map_option Suc (indexOf c xs))"

definition lastIndexOf :: "char \<Rightarrow> string \<Rightarrow> nat option" where
  "lastIndexOf c s = map_option (\<lambda>i. length s - 1 - i) (indexOf c (rev s))"

definition SplitHostPort :: "string \<Rightarrow> string option" where
  "SplitHostPort hp =
     (case lastIndexOf CHR '':'' hp of
        None \<Rightarrow> None
      | Some i \<Rightarrow>
          if hd hp = CHR ''[''
          then (case indexOf CHR '']'' hp of
                  None \<Rightarrow> None
                | Some e \<Rightarrow>
                    if e + 1 = length hp then None
                    else if e + 1 \<noteq> i then None
                    else if CHR ''['' \<in> set (drop 1 hp) \<or> CHR '']'' \<in> set (drop (e + 1) hp) then None
                    else Some (take (e - 1) (drop 1 hp)))
          else if CHR '':'' \<in> set (take i hp) then None
          else if CHR ''['' \<in> set hp \<or> CHR '']'' \<in> set hp then None
          else Some (take i hp))"

section \<open>Data\<close>

definition historyCacheTTL :: duration where "historyCacheTTL = 20 * second"
definition historyCacheEntries :: int where "historyCacheEntries = 512"
definition historyRateWindow :: duration where "historyRateWindow = second"
definition historyRateBurst :: int where "historyRateBurst = 30"

record HistoryService =
  svcSnapshot :: "string \<Rightarrow> int \<Rightarrow> store_error + crdt_char list \<times> int"
  svcOperations :: "string \<Rightarrow> int \<Rightarrow> int \<Rightarrow> store_error + Operation list"
  svcBounds :: "string \<Rightarrow> store_error + HistoryBounds"
  svcTimestamp :: "string \<Rightarrow> int \<Rightarrow> store_error + time option"

type_synonym historyPointKey = "string \<times> int"

record historyPoint =
  pointSequence :: int
  pointTimestamp :: "time option"
  pointText :: string

text \<open>The zero time is \<^const>\<open>None\<close>.\<close>

record historyRateEntry =
  rateStarted :: "time option"
  rateCount :: int

type_synonym historyRateLimiter = "(string \<times> historyRateEntry) list"

definition newHistoryRateLimiter :: historyRateLimiter where
  "newHistoryRateLimiter = []"

definition rateAllow :: "string \<Rightarrow> time \<Rightarrow> historyRateLimiter \<Rightarrow> bool \<times> historyRateLimiter" where
  "rateAllow key now entries =
     (let entry = (case map_of entries key of None \<Rightarrow> \<lparr>rateStarted = None, rateCount = 0\<rparr> | Some e \<Rightarrow> e)
      in if (case rateStarted entry of None \<Rightarrow> True | Some t \<Rightarrow> now - t \<ge> historyRateWindow)
         then (True, AList.update key \<lparr>rateStarted = Some now, rateCount = 1\<rparr> entries)
         else if rateCount entry \<ge> historyRateBurst then (False, entries)
         else (True, AList.update key (entry\<lparr>rateCount := rateCount entry + 1\<rparr>) entries))"

record historyHandler =
  historyService :: HistoryService
  points :: "(historyPointKey, historyPoint) Cache option"
  limiter :: historyRateLimiter

record http_request =
  reqSlug :: string
  reqSeq :: string
  reqForwarded :: string
  reqRealIP :: string
  reqRemote :: string

definition newHistoryHandler :: "HistoryService \<Rightarrow> historyHandler" where
  "newHistoryHandler service =
     \<lparr>historyService = service, points = Some (Cache_New historyCacheTTL historyCacheEntries), limiter = newHistoryRateLimiter\<rparr>"

section \<open>Handlers\<close>

definition historyClientIP :: "http_request \<Rightarrow> string" where
  "historyClientIP r =
     (let forwarded = trimSpace (beforeComma (reqForwarded r))
      in if forwarded \<noteq> '''' then forwarded
         else let realIP = trimSpace (reqRealIP r)
              in if realIP \<noteq> '''' then realIP
                 else case SplitHostPort (trimSpace (reqRemote r)) of
                     Some host \<Rightarrow> host
                   | None \<Rightarrow> trimSpace (reqRemote r))"

definition rateLimited :: http_response where
  "rateLimited =
     (httpError ''history request rate limit exceeded'' 429)
       \<lparr>respHeaders := (''Retry-After'', ''1'') # respHeaders (httpError ''history request rate limit exceeded'' 429)\<rparr>"

definition handlerAllow :: "time \<Rightarrow> http_request \<Rightarrow> historyHandler \<Rightarrow> bool \<times> historyHandler" where
  "handlerAllow now r h = (case rateAllow (historyClientIP r) now (limiter h) of (ok, l) \<Rightarrow> (ok, h\<lparr>limiter := l\<rparr>))"

definition clampHistorySequence :: "int \<Rightarrow> int \<Rightarrow> int \<Rightarrow> int" where
  "clampHistorySequence sequence minSeq maxSeq =
     (if sequence < minSeq then minSeq else if sequence > maxSeq then maxSeq else sequence)"

definition handleHistoryError :: "store_error \<Rightarrow> http_response" where
  "handleHistoryError e =
     (if isDocumentNotFound e then httpNotFound else httpError ''could not load document history'' 500)"

definition writeHistoryJSON :: "json \<Rightarrow> http_response" where
  "writeHistoryJSON j = httpJson 200 j"

definition encodeBounds :: "(time option \<Rightarrow> json) \<Rightarrow> HistoryBounds \<Rightarrow> json" where
  "encodeBounds encodeTime b = JObject
     [(''minSeq'', JInt (MinSeq b)), (''maxSeq'', JInt (MaxSeq b)), (''createdAt'', encodeTime (CreatedAt b)),
      (''currentSeq'', JInt (CurrentSeq b))]"

definition encodePoint :: "(time option \<Rightarrow> json) \<Rightarrow> historyPoint \<Rightarrow> json" where
  "encodePoint encodeTime p = JObject
     [(''sequence'', JInt (pointSequence p)), (''timestamp'', encodeTime (pointTimestamp p)), (''text'', JString (pointText p))]"

text \<open>The pattern \<open>^[0-9A-Za-z]{12}$\<close>.\<close>

definition slugChar :: "char \<Rightarrow> bool" where
  "slugChar c \<longleftrightarrow> (let n = of_char c :: nat in (48 \<le> n \<and> n \<le> 57) \<or> (65 \<le> n \<and> n \<le> 90) \<or> (97 \<le> n \<and> n \<le> 122))"

definition documentSlugPattern :: "string \<Rightarrow> bool" where
  "documentSlugPattern slug \<longleftrightarrow> length slug = 12 \<and> list_all slugChar slug"

definition handleRange ::
  "(time option \<Rightarrow> json) \<Rightarrow> time \<Rightarrow> http_request \<Rightarrow> historyHandler \<Rightarrow> http_response \<times> historyHandler" where
  "handleRange encodeTime now r h0 =
     (case handlerAllow now r h0 of
        (False, h) \<Rightarrow> (rateLimited, h)
      | (True, h) \<Rightarrow>
          (if \<not> documentSlugPattern (reqSlug r) then httpNotFound
           else case svcBounds (historyService h) (reqSlug r) of
               Inl e \<Rightarrow> handleHistoryError e
             | Inr b \<Rightarrow> writeHistoryJSON (encodeBounds encodeTime b), h))"

definition textOf :: "Document \<Rightarrow> string" where
  "textOf d = (case Text (Some d) of Some s \<Rightarrow> s | None \<Rightarrow> [])"

text \<open>The part of \<open>handlePoint\<close> that reconstructs a point that is not cached.\<close>

definition buildPoint :: "HistoryService \<Rightarrow> string \<Rightarrow> HistoryBounds \<Rightarrow> int \<Rightarrow> http_response + historyPoint" where
  "buildPoint svc slug b sequence =
     (case svcSnapshot svc slug sequence of
        Inl e \<Rightarrow> Inl (handleHistoryError e)
      | Inr (snapshot, snapshotSeq) \<Rightarrow>
          (case svcOperations svc slug snapshotSeq sequence of
             Inl e \<Rightarrow> Inl (handleHistoryError e)
           | Inr ops \<Rightarrow>
               (case BuildAt snapshot ops of
                  Inl e \<Rightarrow> Inl (httpError ''could not reconstruct history'' 500)
                | Inr d \<Rightarrow>
                    let timestamp =
                      (if sequence > 0
                       then (case svcTimestamp svc slug sequence of Inr (Some t) \<Rightarrow> Some t | _ \<Rightarrow> CreatedAt b)
                       else CreatedAt b)
                    in Inr \<lparr>pointSequence = sequence, pointTimestamp = timestamp, pointText = textOf d\<rparr>)))"

text \<open>\<open>now\<close>, \<open>tGet\<close> and \<open>tSet\<close> are the readings of the clock by the limiter and the cache.\<close>

definition handlePoint ::
  "(time option \<Rightarrow> json) \<Rightarrow> time \<Rightarrow> time \<Rightarrow> time \<Rightarrow> http_request \<Rightarrow> historyHandler \<Rightarrow> http_response \<times> historyHandler" where
  "handlePoint encodeTime now tGet tSet r h0 =
     (case handlerAllow now r h0 of
        (False, h) \<Rightarrow> (rateLimited, h)
      | (True, h) \<Rightarrow>
          if \<not> documentSlugPattern (reqSlug r) then (httpNotFound, h)
          else
            let rawSeq = trimSpace (reqSeq r)
            in case (if rawSeq = '''' then Some 0 else parseInt64 rawSeq) of
                 None \<Rightarrow> (httpError ''seq must be an integer'' 400, h)
               | Some requestedSeq \<Rightarrow>
                   (case svcBounds (historyService h) (reqSlug r) of
                      Inl e \<Rightarrow> (handleHistoryError e, h)
                    | Inr b \<Rightarrow>
                        let sequence = clampHistorySequence requestedSeq (MinSeq b) (MaxSeq b); key = (reqSlug r, sequence)
                        in case Cache_Get tGet (points h) key of
                             Some p \<Rightarrow> (writeHistoryJSON (encodePoint encodeTime p), h)
                           | None \<Rightarrow>
                               (case buildPoint (historyService h) (reqSlug r) b sequence of
                                  Inl resp \<Rightarrow> (resp, h)
                                | Inr p \<Rightarrow>
                                    (writeHistoryJSON (encodePoint encodeTime p), h\<lparr>points := Cache_Set tSet key p (points h)\<rparr>))))"

section \<open>Slugs\<close>

text \<open>The pattern of the routes is that of the hub, and accepts every slug the store makes.\<close>

lemma documentSlugPattern_validSlug: "documentSlugPattern slug \<longleftrightarrow> validSlug slug"
  by (simp add: documentSlugPattern_def validSlug_def slugChar_def [abs_def])

lemma slugAlphabet_slugChar: "set slugAlphabet \<subseteq> Collect slugChar"
proof -
  have "list_all slugChar slugAlphabet" by code_simp
  then show ?thesis by (auto simp: list_all_iff)
qed

lemma documentSlugPattern_made: "length slug = 12 \<Longrightarrow> set slug \<subseteq> set slugAlphabet \<Longrightarrow> documentSlugPattern slug"
  using slugAlphabet_slugChar by (auto simp: documentSlugPattern_def list_all_iff)

end
