(* ===== verification/History_Theorems.thy ===== *)
theory History_Theorems
  imports History_API Durability
begin

text \<open>
  The time-travel API over the store: every point it answers, from the cache or rebuilt, is the
  text that the log gives up to that point, although the queries of one request may see different
  states of a growing log; the bounds of the rate limiter, and how a client gets around it.
\<close>

section \<open>Points of the history\<close>

text \<open>
  The store as the history service. The four queries of a request run one after the other, so
  that each may see a later state of the database.
\<close>

definition storeService :: "(string \<Rightarrow> string \<Rightarrow> int option) \<Rightarrow> Store \<Rightarrow> Store \<Rightarrow> Store \<Rightarrow> Store \<Rightarrow> HistoryService" where
  "storeService parse s1 s2 s3 s4 =
     \<lparr>svcSnapshot = (\<lambda>slug n. SnapshotBeforeSeq noFaults slug n s2),
      svcOperations = (\<lambda>slug v n. OperationsInRange noFaults slug v n s3),
      svcBounds = (\<lambda>slug. HistoryBounds_of parse noFaults slug s1),
      svcTimestamp = (\<lambda>slug n. OperationTimestamp parse noFaults slug n s4)\<rparr>"

definition logOf :: "database \<Rightarrow> string \<Rightarrow> Operation list" where
  "logOf t slug = (case documentBySlug t slug of None \<Rightarrow> [] | Some r \<Rightarrow> map snd (documentLog t (docID r)))"

definition grown :: "database \<Rightarrow> database \<Rightarrow> bool" where
  "grown t t' \<longleftrightarrow> (\<forall>slug r. documentBySlug t slug = Some r \<longrightarrow> documentBySlug t' slug \<noteq> None \<and> prefix (logOf t slug) (logOf t' slug))"

text \<open>The reference: the text of a document after the first \<open>n\<close> operations of its log.\<close>

definition pointAt :: "database \<Rightarrow> string \<Rightarrow> int \<Rightarrow> string \<Rightarrow> bool" where
  "pointAt t slug n txt \<longleftrightarrow> documentBySlug t slug \<noteq> None \<and> 0 \<le> n \<and> n \<le> int (length (logOf t slug))
     \<and> (\<exists>d. BuildAt [] (take (nat n) (logOf t slug)) = Inr d \<and> txt = textOf d)"

definition cachedTrue :: "database \<Rightarrow> historyHandler \<Rightarrow> bool" where
  "cachedTrue t h \<longleftrightarrow> (\<forall>now slug n p. Cache_Get now (points h) (slug, n) = Some p \<longrightarrow> pointSequence p = n \<and> pointAt t slug n (pointText p))"

lemma take_prefix: "prefix xs ys \<Longrightarrow> n \<le> length xs \<Longrightarrow> take n ys = take n xs"
  by (auto elim: prefixE)

lemma pointAt_grown: "grown t t' \<Longrightarrow> pointAt t slug n txt \<Longrightarrow> pointAt t' slug n txt"
  using take_prefix [of "logOf t slug" "logOf t' slug" "nat n"]
  by (auto simp: pointAt_def grown_def dest!: prefix_length_le)

lemma cachedTrue_grown: "grown t t' \<Longrightarrow> cachedTrue t h \<Longrightarrow> cachedTrue t' h"
  unfolding cachedTrue_def using pointAt_grown by blast

lemma grown_trans: "grown t t' \<Longrightarrow> grown t' t'' \<Longrightarrow> grown t t''"
  unfolding grown_def by (meson not_None_eq prefix_order.trans)

lemma cachedTrue_limiter [simp]: "cachedTrue t (h\<lparr>limiter := l\<rparr>) = cachedTrue t h"
  by (simp add: cachedTrue_def)

lemma cachedTrue_Set:
  assumes "cachedTrue t h" "pointSequence p = n" "pointAt t slug n (pointText p)"
  shows "cachedTrue t (h\<lparr>points := Cache_Set tSet (slug, n) p (points h)\<rparr>)"
  unfolding cachedTrue_def
proof (intro allI impI)
  fix now slug' n' q
  assume get: "Cache_Get now (points (h\<lparr>points := Cache_Set tSet (slug, n) p (points h)\<rparr>)) (slug', n') = Some q"
  show "pointSequence q = n' \<and> pointAt t slug' n' (pointText q)"
  proof (cases "(slug', n') = (slug, n)")
    case True
    then have "q = p"
      using get by (auto simp: Cache_Get_def Cache_Set_def Let_def update_conv' split: option.splits if_splits)
    then show ?thesis using True assms(2,3) by simp
  next
    case False
    then have "Cache_Get now (points h) (slug', n') = Some q" using get by (auto intro: Get_Set_other)
    then show ?thesis using assms(1) by (auto simp: cachedTrue_def)
  qed
qed

lemma BuildAt_take:
  assumes "BuildAt [] ops = Inr d"
  shows "\<exists>d'. BuildAt [] (take n ops) = Inr d'"
proof -
  have "replayOps 0 (take n ops @ drop n ops) New = Inr d" using assms unfolding BuildAt_ops by simp
  then show ?thesis unfolding BuildAt_ops replayOps_Inr replay_append by (auto split: sum.splits)
qed

lemma bounds_of_log:
  assumes "wfTables (tables s)" "readDB s" "documentBySlug (tables s) slug = Some r" "faithful (tables s) r cs"
  shows "\<exists>b. HistoryBounds_of parse noFaults slug s = Inr b \<and> MinSeq b = 0 \<and> MaxSeq b = int (length (logOf (tables s) slug))"
  using assms maxSequence_length [OF assms(1), of "docID r"]
  by (auto simp: HistoryBounds_of_def dbCall_def noFaults_def logOf_def documentLog_def faithful_def Let_def)

lemma buildPoint_ok:
  assumes "svcSnapshot svc slug n = Inr (cs, v)" "svcOperations svc slug v n = Inr ops" "BuildAt cs ops = Inr d"
  shows "\<exists>p. buildPoint svc slug b n = Inr p \<and> pointSequence p = n \<and> pointText p = textOf d"
  using assms by (simp add: buildPoint_def Let_def)

text \<open>Snapshot and rest of the log give the reference.\<close>

lemma buildPoint_text:
  assumes s2: "wfTables (tables s2)" "readDB s2" "documentBySlug (tables s2) slug = Some r" "faithful (tables s2) r cs"
    and s3: "wfTables (tables s3)" "readDB s3" "grown (tables s2) (tables s3)"
    and at: "pointAt (tables s2) slug n txt"
  shows "\<exists>p. buildPoint (storeService parse s1 s2 s3 s4) slug b n = Inr p \<and> pointSequence p = n \<and> pointText p = txt"
proof -
  obtain r3 where r3: "documentBySlug (tables s3) slug = Some r3" using s3(3) s2(3) by (auto simp: grown_def)
  have n: "0 \<le> n" "nat n \<le> length (logOf (tables s2) slug)" using at by (auto simp: pointAt_def)
  have log3: "map snd (documentLog (tables s3) (docID r3)) = logOf (tables s3) slug" by (simp add: logOf_def r3)
  have same: "take (nat n) (logOf (tables s3) slug) = take (nat n) (logOf (tables s2) slug)"
    using s3(3) s2(3) n(2) by (auto simp: grown_def intro: take_prefix)
  have ops: "OperationsInRange noFaults slug v n s3 = Inr (drop (nat v) (take (nat n) (logOf (tables s2) slug)))" if "0 \<le> v" for v
    using OperationsInRange_ok [OF s3(1,2) _ r3 that, of noFaults n] log3 same by (simp add: noFaults_def)
  obtain d where d: "BuildAt [] (take (nat n) (logOf (tables s2) slug)) = Inr d" "txt = textOf d" using at by (auto simp: pointAt_def)
  have log2: "logOf (tables s2) slug = map snd (documentLog (tables s2) (docID r))" by (simp add: logOf_def s2(3))
  let ?early = "docVersion r > n \<or> docSnapshot r = None"
  have snap: "SnapshotBeforeSeq noFaults slug n s2 = Inr (if ?early then ([], 0) else (cs, docVersion r))"
    using s2(2,3,4) n(1) by (auto simp: SnapshotBeforeSeq_def dbCall_def noFaults_def faithful_def)
  let ?svc = "storeService parse s1 s2 s3 s4"
  have svc: "svcSnapshot ?svc slug n = SnapshotBeforeSeq noFaults slug n s2"
      "svcOperations ?svc slug v n = OperationsInRange noFaults slug v n s3" for v
    by (simp_all add: storeService_def)
  have "\<exists>cs' v d'. SnapshotBeforeSeq noFaults slug n s2 = Inr (cs', v) \<and> 0 \<le> v
      \<and> BuildAt cs' (drop (nat v) (take (nat n) (logOf (tables s2) slug))) = Inr d' \<and> textOf d' = txt"
  proof (cases ?early)
    case True
    then have "SnapshotBeforeSeq noFaults slug n s2 = Inr ([], 0)" using snap by simp
    then show ?thesis using d by (intro exI [of _ "[]"] exI [of _ "0"] exI [of _ d]) simp
  next
    case False
    then have v: "0 \<le> docVersion r" "nat (docVersion r) \<le> nat n" using s2(4) by (auto simp: faithful_def)
    have "SnapshotBeforeSeq noFaults slug n s2 = Inr (cs, docVersion r)" using False snap by auto
    moreover obtain d' where "BuildAt cs (drop (nat (docVersion r)) (take (nat n) (logOf (tables s2) slug))) = Inr d'"
        "Text (Some d') = Text (Some d)"
      using faithful_replay [OF s2(4) v(2)] d(1) unfolding log2 by blast
    moreover have "textOf d' = txt" using calculation(3) d(2) by (simp add: textOf_def)
    ultimately show ?thesis using v(1) by blast
  qed
  then show ?thesis using buildPoint_ok [of ?svc slug n] ops unfolding svc by metis
qed


text \<open>The example document under a slug that the routes accept.\<close>

definition pointStore :: Store where
  "pointStore = reloadStore\<lparr>tables := (tables reloadStore)\<lparr>documents := [reloadRow\<lparr>docSlug := ''0123456789AB''\<rparr>]\<rparr>\<rparr>"

definition pointRequest :: "string \<Rightarrow> http_request" where
  "pointRequest n = \<lparr>reqSlug = ''0123456789AB'', reqSeq = n, reqForwarded = '''', reqRealIP = '''', reqRemote = ''10.0.0.1:80''\<rparr>"

lemma pointStore_documents: "documents (tables reloadStore) = [reloadRow]"
  by code_simp

lemma pointStore_wf: "wfTables (tables pointStore)"
  using reload_wf unfolding wfTables_def pointStore_def
  by (simp add: pointStore_documents wfOpRow_def documentOps_def)

lemma pointStore_row:
  "readDB pointStore" "documentBySlug (tables pointStore) ''0123456789AB'' = Some (reloadRow\<lparr>docSlug := ''0123456789AB''\<rparr>)"
  "faithful (tables pointStore) (reloadRow\<lparr>docSlug := ''0123456789AB''\<rparr>) [charA]"
  "logOf (tables pointStore) ''0123456789AB'' = [insA, insB]"
proof -
  show "readDB pointStore" by code_simp
  show row: "documentBySlug (tables pointStore) ''0123456789AB'' = Some (reloadRow\<lparr>docSlug := ''0123456789AB''\<rparr>)"
    by (simp add: documentBySlug_def pointStore_def)
  have "documentLog (tables pointStore) = documentLog (tables reloadStore)"
    by (simp add: fun_eq_iff documentLog_def documentOps_def pointStore_def)
  then show "faithful (tables pointStore) (reloadRow\<lparr>docSlug := ''0123456789AB''\<rparr>) [charA]"
      "logOf (tables pointStore) ''0123456789AB'' = [insA, insB]"
    using reload_faithful reload_row by (simp_all add: faithful_def logOf_def row)
qed

lemma newHistoryHandler_allows: "fst (handlerAllow now req (newHistoryHandler svc))"
  by (simp add: handlerAllow_def rateAllow_def newHistoryHandler_def newHistoryRateLimiter_def Let_def)

lemma newHistoryHandler_cachedTrue: "cachedTrue t (newHistoryHandler svc)"
  by (simp add: cachedTrue_def newHistoryHandler_def Cache_New_def Cache_Get_def)


section \<open>The rate limiter\<close>

text \<open>A sequence of calls of \<open>allow\<close>, with the answers.\<close>

definition rateStep ::
  "string \<times> time \<Rightarrow> historyRateLimiter \<times> (string \<times> time \<times> bool) list \<Rightarrow> historyRateLimiter \<times> (string \<times> time \<times> bool) list" where
  "rateStep call st = (case (call, st) of ((k, t), (l, xs)) \<Rightarrow> (case rateAllow k t l of (ok, l') \<Rightarrow> (l', xs @ [(k, t, ok)])))"

definition rateAnswers :: "(string \<times> time) list \<Rightarrow> (string \<times> time \<times> bool) list" where
  "rateAnswers calls = snd (fold rateStep calls (newHistoryRateLimiter, []))"

definition allowedTimes :: "string \<Rightarrow> (string \<times> time \<times> bool) list \<Rightarrow> time list" where
  "allowedTimes key xs = map (fst \<circ> snd) (filter (\<lambda>(k, t, ok). k = key \<and> ok) xs)"

definition inWindow :: "time \<Rightarrow> time list \<Rightarrow> int" where
  "inWindow a ts = int (length (filter (\<lambda>t. a \<le> t \<and> t < a + historyRateWindow) ts))"

text \<open>
  What the entry of a key knows of the calls allowed under it: those of the current window, and
  that few calls of the windows before are near to it.
\<close>

definition rateInv :: "historyRateEntry option \<Rightarrow> time list \<Rightarrow> bool" where
  "rateInv e allowed \<longleftrightarrow>
     (case e of
        None \<Rightarrow> allowed = []
      | Some e \<Rightarrow> (\<exists>s old cur. rateStarted e = Some s \<and> allowed = old @ cur \<and> s \<in> set cur
          \<and> rateCount e = int (length cur) \<and> int (length cur) \<le> historyRateBurst
          \<and> (\<forall>t\<in>set cur. s \<le> t \<and> t < s + historyRateWindow) \<and> (\<forall>t\<in>set old. t < s)
          \<and> int (length (filter (\<lambda>t. s - historyRateWindow < t) old)) \<le> historyRateBurst
          \<and> (\<forall>a. inWindow a old \<le> 2 * historyRateBurst)))"

lemma rateInv_started: "rateInv (Some e) allowed \<Longrightarrow> \<exists>s. rateStarted e = Some s \<and> s \<in> set allowed"
  by (auto simp: rateInv_def)

lemma rateInvE:
  assumes "rateInv (Some e) allowed" "rateStarted e = Some s"
  obtains old cur where "allowed = old @ cur" "s \<in> set cur" "rateCount e = int (length cur)"
    "int (length cur) \<le> historyRateBurst" "\<forall>t\<in>set cur. s \<le> t \<and> t < s + historyRateWindow" "\<forall>t\<in>set old. t < s"
    "int (length (filter (\<lambda>t. s - historyRateWindow < t) old)) \<le> historyRateBurst" "\<forall>a. inWindow a old \<le> 2 * historyRateBurst"
  using assms unfolding rateInv_def option.case by force

lemma rateInvI:
  assumes "rateStarted e = Some s" "allowed = old @ cur" "s \<in> set cur" "rateCount e = int (length cur)"
    "int (length cur) \<le> historyRateBurst" "\<forall>t\<in>set cur. s \<le> t \<and> t < s + historyRateWindow" "\<forall>t\<in>set old. t < s"
    "int (length (filter (\<lambda>t. s - historyRateWindow < t) old)) \<le> historyRateBurst" "\<forall>a. inWindow a old \<le> 2 * historyRateBurst"
  shows "rateInv (Some e) allowed"
  using assms unfolding rateInv_def option.case by blast

lemma inWindow_append [simp]: "inWindow a (xs @ ys) = inWindow a xs + inWindow a ys"
  by (simp add: inWindow_def)

lemma inWindow_le_filter: "(\<And>t. t \<in> set ts \<Longrightarrow> a \<le> t \<Longrightarrow> t < a + historyRateWindow \<Longrightarrow> P t) \<Longrightarrow> inWindow a ts \<le> int (length (filter P ts))"
  by (induction ts) (auto simp: inWindow_def)

lemma inWindow_le_length: "inWindow a ts \<le> int (length ts)"
  by (simp add: inWindow_def)

lemma inWindow_none: "(\<And>t. t \<in> set ts \<Longrightarrow> a \<le> t \<Longrightarrow> \<not> t < a + historyRateWindow) \<Longrightarrow> inWindow a ts = 0"
  by (auto simp: inWindow_def filter_empty_conv)

lemma rateInv_inWindow:
  assumes "rateInv e allowed"
  shows "inWindow a allowed \<le> 2 * historyRateBurst"
proof (cases e)
  case None
  then show ?thesis using assms by (simp add: rateInv_def inWindow_def historyRateBurst_def)
next
  case (Some en)
  then obtain s where s: "rateStarted en = Some s" using assms rateInv_started by blast
  from assms [unfolded Some] s obtain old cur where e: "allowed = old @ cur" "s \<in> set cur" "rateCount en = int (length cur)"
      "int (length cur) \<le> historyRateBurst" "\<forall>t\<in>set cur. s \<le> t \<and> t < s + historyRateWindow" "\<forall>t\<in>set old. t < s"
      "int (length (filter (\<lambda>t. s - historyRateWindow < t) old)) \<le> historyRateBurst" "\<forall>a. inWindow a old \<le> 2 * historyRateBurst"
    by (rule rateInvE)
  have cur: "inWindow a cur \<le> historyRateBurst" using inWindow_le_length [of a cur] e(4) by linarith
  consider "s \<le> a" | "a < s" "s < a + historyRateWindow" | "a + historyRateWindow \<le> s" by linarith
  then show ?thesis
  proof cases
    case 1
    then have "inWindow a old = 0" using e(6) by (intro inWindow_none) force
    then show ?thesis using cur e(1) by (simp add: historyRateBurst_def)
  next
    case 2
    then have "inWindow a old \<le> int (length (filter (\<lambda>t. s - historyRateWindow < t) old))" by (intro inWindow_le_filter) simp
    then show ?thesis using cur e(1,7) by simp
  next
    case 3
    then have "inWindow a cur = 0" using e(5) by (intro inWindow_none) force
    then show ?thesis using e(1,8) by simp
  qed
qed

text \<open>A call keeps the invariant, and a refusal means a full window.\<close>

lemma rateInv_open:
  assumes inv: "rateInv e allowed" and late: "e = None \<or> (\<exists>en s. e = Some en \<and> rateStarted en = Some s \<and> s + historyRateWindow \<le> t)"
  shows "rateInv (Some \<lparr>rateStarted = Some t, rateCount = 1\<rparr>) (allowed @ [t])"
proof -
  have "(\<forall>x\<in>set allowed. x < t) \<and> int (length (filter (\<lambda>x. t - historyRateWindow < x) allowed)) \<le> historyRateBurst"
  proof (cases e)
    case (Some en)
    from Some obtain s where st: "rateStarted en = Some s" using inv rateInv_started by blast
    from inv [unfolded Some] st obtain old cur where s: "allowed = old @ cur" "s \<in> set cur" "rateCount en = int (length cur)"
      "int (length cur) \<le> historyRateBurst" "\<forall>t\<in>set cur. s \<le> t \<and> t < s + historyRateWindow" "\<forall>t\<in>set old. t < s"
      "int (length (filter (\<lambda>t. s - historyRateWindow < t) old)) \<le> historyRateBurst" "\<forall>a. inWindow a old \<le> 2 * historyRateBurst"
    by (rule rateInvE)
    have le: "s + historyRateWindow \<le> t" using late st Some by auto
    then have "filter (\<lambda>x. t - historyRateWindow < x) old = []" using s(6) by (force simp: filter_empty_conv)
    then have "int (length (filter (\<lambda>x. t - historyRateWindow < x) allowed)) \<le> int (length cur)" using s(1) by simp
    moreover have "0 < historyRateWindow" by (simp add: historyRateWindow_def second_def)
    then have "\<forall>x\<in>set allowed. x < t" using s(1,5,6) le by force
    ultimately show ?thesis using s(4) by linarith
  qed (use inv in \<open>simp add: rateInv_def historyRateBurst_def\<close>)
  moreover have "0 < historyRateWindow" "1 \<le> historyRateBurst"
    by (simp_all add: historyRateWindow_def second_def historyRateBurst_def)
  ultimately show ?thesis
    using rateInv_inWindow [OF inv] by (intro rateInvI [of _ t _ allowed "[t]"]) auto
qed

lemma rateInv_count:
  assumes inv: "rateInv (Some e) allowed" and st: "rateStarted e = Some s" "s \<le> t" "t < s + historyRateWindow"
    and room: "rateCount e < historyRateBurst"
  shows "rateInv (Some (e\<lparr>rateCount := rateCount e + 1\<rparr>)) (allowed @ [t])"
proof -
  from inv st(1) obtain old cur where "allowed = old @ cur" "s \<in> set cur" "rateCount e = int (length cur)"
      "int (length cur) \<le> historyRateBurst" "\<forall>t\<in>set cur. s \<le> t \<and> t < s + historyRateWindow" "\<forall>t\<in>set old. t < s"
      "int (length (filter (\<lambda>t. s - historyRateWindow < t) old)) \<le> historyRateBurst" "\<forall>a. inWindow a old \<le> 2 * historyRateBurst"
    by (rule rateInvE)
  then show ?thesis using st room by (intro rateInvI [of _ s _ old "cur @ [t]"]) auto
qed

lemma rateInv_full:
  assumes inv: "rateInv (Some e) allowed" and st: "rateStarted e = Some s" "s \<le> t" "t < s + historyRateWindow"
    and full: "\<not> rateCount e < historyRateBurst"
  shows "historyRateBurst \<le> int (length (filter (\<lambda>x. t - historyRateWindow < x) allowed))"
proof -
  from inv st(1) obtain old cur where cur: "allowed = old @ cur" "s \<in> set cur" "rateCount e = int (length cur)"
      "int (length cur) \<le> historyRateBurst" "\<forall>t\<in>set cur. s \<le> t \<and> t < s + historyRateWindow" "\<forall>t\<in>set old. t < s"
      "int (length (filter (\<lambda>t. s - historyRateWindow < t) old)) \<le> historyRateBurst" "\<forall>a. inWindow a old \<le> 2 * historyRateBurst"
    by (rule rateInvE)
  then have "filter (\<lambda>x. t - historyRateWindow < x) cur = cur" using st(3) by (force simp: filter_id_conv)
  then show ?thesis using cur(1,3) full by simp
qed

text \<open>All keys together, over a run.\<close>

definition rateOk :: "historyRateLimiter \<Rightarrow> (string \<times> time \<times> bool) list \<Rightarrow> bool" where
  "rateOk l xs \<longleftrightarrow> (\<forall>key. rateInv (map_of l key) (allowedTimes key xs))"

lemma allowedTimes_snoc: "allowedTimes key (xs @ [(k, t, ok)]) = allowedTimes key xs @ (if k = key \<and> ok then [t] else [])"
  by (simp add: allowedTimes_def)

lemma rateAllow_step:
  assumes ok: "rateOk l xs" and t: "\<forall>x\<in>set xs. fst (snd x) \<le> t" and call: "rateAllow k t l = (b, l')"
  shows "rateOk l' (xs @ [(k, t, b)])"
    and "\<not> b \<Longrightarrow> historyRateBurst \<le> int (length (filter (\<lambda>x. t - historyRateWindow < x) (allowedTimes k xs)))"
proof -
  have inv: "rateInv (map_of l key) (allowedTimes key xs)" for key using ok by (simp add: rateOk_def)
  have others: "rateOk l' (xs @ [(k, t, b)])"
    if "l' = AList.update k e l" "b" "rateInv (Some e) (allowedTimes k xs @ [t])" for e
    using inv that by (auto simp: rateOk_def allowedTimes_snoc update_conv')
  have same: "rateOk l' (xs @ [(k, t, b)])" if "l' = l" "\<not> b"
    using inv that by (auto simp: rateOk_def allowedTimes_snoc)
  have le: "s \<le> t" if "s \<in> set (allowedTimes k xs)" for s using that t by (auto simp: allowedTimes_def)
  let ?fresh = "\<lparr>rateStarted = Some t, rateCount = 1\<rparr>"
  have "rateOk l' (xs @ [(k, t, b)]) \<and> (\<not> b \<longrightarrow> historyRateBurst \<le> int (length (filter (\<lambda>x. t - historyRateWindow < x) (allowedTimes k xs))))"
  proof (cases "map_of l k")
    case None
    then have "rateInv (Some ?fresh) (allowedTimes k xs @ [t])" using rateInv_open [OF inv, of k t] by blast
    then show ?thesis using others [of ?fresh] call None by (simp add: rateAllow_def Let_def)
  next
    case (Some e)
    then have e: "rateInv (Some e) (allowedTimes k xs)" using inv [of k] by simp
    obtain s where s: "rateStarted e = Some s" "s \<in> set (allowedTimes k xs)" using rateInv_started [OF e] by blast
    consider "s + historyRateWindow \<le> t" | "t < s + historyRateWindow" "rateCount e < historyRateBurst"
      | "t < s + historyRateWindow" "\<not> rateCount e < historyRateBurst" by linarith
    then show ?thesis
    proof cases
      case 1
      then have "rateInv (Some ?fresh) (allowedTimes k xs @ [t])" using rateInv_open [OF e] s(1) by blast
      then show ?thesis using others [of ?fresh] call Some s(1) 1 by (auto simp: rateAllow_def Let_def)
    next
      case 2
      then show ?thesis
        using others [of "e\<lparr>rateCount := rateCount e + 1\<rparr>"] call Some s(1) rateInv_count [OF e s(1) le [OF s(2)] 2]
        by (auto simp: rateAllow_def Let_def)
    next
      case 3
      then show ?thesis
        using same call Some s(1) rateInv_full [OF e s(1) le [OF s(2)] 3] by (auto simp: rateAllow_def Let_def)
    qed
  qed
  then show "rateOk l' (xs @ [(k, t, b)])"
    and "\<not> b \<Longrightarrow> historyRateBurst \<le> int (length (filter (\<lambda>x. t - historyRateWindow < x) (allowedTimes k xs)))" by blast+
qed

lemma rateRun_inv:
  assumes "sorted (map snd calls)" "fold rateStep calls (newHistoryRateLimiter, []) = (l, xs)"
  shows "rateOk l xs \<and> map (\<lambda>(k, t, b). (k, t)) xs = calls
    \<and> (\<forall>ys zs key t. xs = ys @ (key, t, False) # zs \<longrightarrow>
         historyRateBurst \<le> int (length (filter (\<lambda>x. t - historyRateWindow < x) (allowedTimes key ys))))"
  using assms
proof (induction calls arbitrary: l xs rule: rev_induct)
  case Nil
  then show ?case by (simp add: newHistoryRateLimiter_def rateOk_def rateInv_def allowedTimes_def)
next
  case (snoc c calls)
  obtain k t where c: "c = (k, t)" by (cases c)
  obtain l0 xs0 where st: "fold rateStep calls (newHistoryRateLimiter, []) = (l0, xs0)" by fastforce
  obtain b where b: "rateAllow k t l0 = (b, l)" "xs = xs0 @ [(k, t, b)]"
    using snoc.prems(2) st by (auto simp: c rateStep_def [of "(k, t)"] split: prod.splits)
  have sorted: "sorted (map snd calls)" "\<forall>x\<in>set calls. snd x \<le> t" using snoc.prems(1) by (auto simp: c sorted_append)
  note IH = snoc.IH [OF sorted(1) st]
  have eq: "calls = map (\<lambda>(k, t, b). (k, t)) xs0" using IH by simp
  have past: "\<forall>x\<in>set xs0. fst (snd x) \<le> t" using sorted(2) unfolding eq by force
  have refused: "historyRateBurst \<le> int (length (filter (\<lambda>x. t - historyRateWindow < x) (allowedTimes key ys)))"
    if "xs0 = ys @ (key, t, False) # zs" for ys zs key t using IH that by blast
  have "historyRateBurst \<le> int (length (filter (\<lambda>x. t' - historyRateWindow < x) (allowedTimes key ys)))"
    if "xs = ys @ (key, t', False) # zs" for ys zs key t'
  proof (cases zs rule: rev_cases)
    case Nil
    then show ?thesis using that b rateAllow_step(2) [OF conjunct1 [OF IH] past b(1)] by simp
  next
    case (snoc zs' z)
    then show ?thesis using that b(2) refused [of ys key t' zs'] by simp
  qed
  then show ?case using rateAllow_step(1) [OF conjunct1 [OF IH] past b(1)] b(2) eq by (simp add: c)
qed

text \<open>
  C39. The limits of the rate limiter: when the clock readings do not decrease, at most twice the
  burst of calls under one key are allowed in any interval of the length of the window, wherever
  it starts; and a call is refused only when the burst of calls under the same key was allowed
  less than a window ago.
\<close>

theorem rate_limit_bounds:
  assumes "sorted (map snd calls)"
  shows "inWindow a (allowedTimes key (rateAnswers calls)) \<le> 2 * historyRateBurst
    \<and> (rateAnswers calls = ys @ (key, t, False) # zs \<longrightarrow>
         historyRateBurst \<le> int (length (filter (\<lambda>x. t - historyRateWindow < x) (allowedTimes key ys))))"
proof -
  obtain l xs where st: "fold rateStep calls (newHistoryRateLimiter, []) = (l, xs)" by fastforce
  note inv = rateRun_inv [OF assms st]
  have "rateInv (map_of l key) (allowedTimes key xs)" using inv by (simp add: rateOk_def)
  from rateInv_inWindow [OF this] have "inWindow a (allowedTimes key xs) \<le> 2 * historyRateBurst" .
  moreover have "rateAnswers calls = xs" by (simp add: rateAnswers_def st)
  ultimately show ?thesis using inv by blast
qed

theorem rate_limit_bounds_witness:
  "inWindow 0 (allowedTimes ''x'' (rateAnswers (replicate 31 (''x'', 7)))) \<le> 60
   \<and> rateAnswers (replicate 31 (''x'', 7)) = replicate 30 (''x'', 7, True) @ [(''x'', 7, False)]
   \<and> 30 \<le> length (filter (\<lambda>x. 7 - historyRateWindow < x) (allowedTimes ''x'' (replicate 30 (''x'', 7, True))))"
proof -
  have answers: "rateAnswers (replicate 31 (''x'', 7)) = replicate 30 (''x'', 7, True) @ [(''x'', 7, False)]" by code_simp
  have "sorted (map snd (replicate 31 (''x'', 7 :: time)))" by simp
  from rate_limit_bounds [OF this, of 0 "''x''" "replicate 30 (''x'', 7, True)" 7 "[]"] answers show ?thesis
    by (simp add: historyRateBurst_def)
qed

section \<open>Around the limiter\<close>

text \<open>
  The key is the first entry of a header that the client writes. Requests of one sender that
  differ in that header are all allowed, and each leaves an entry that is never removed.
\<close>

definition allowRequests :: "(time \<times> http_request) list \<Rightarrow> historyHandler \<Rightarrow> bool list \<times> historyHandler" where
  "allowRequests rs h = fold (\<lambda>(t, r) (bs, h). case handlerAllow t r h of (b, h') \<Rightarrow> (bs @ [b], h')) rs ([], h)"

definition plainAddress :: "string \<Rightarrow> bool" where
  "plainAddress v \<longleftrightarrow> v \<noteq> '''' \<and> CHR '','' \<notin> set v \<and> trimSpace v = v"

lemma historyClientIP_forwarded: "plainAddress v \<Longrightarrow> historyClientIP (r\<lparr>reqForwarded := v\<rparr>) = v"
proof -
  assume v: "plainAddress v"
  then have "beforeComma v = v" by (auto simp: beforeComma_def plainAddress_def takeWhile_eq_all_conv)
  then show ?thesis using v by (simp add: historyClientIP_def plainAddress_def Let_def)
qed

lemma handlerAllow_new:
  assumes "map_of (limiter h) (historyClientIP r) = None"
  shows "\<exists>e. handlerAllow t r h = (True, h\<lparr>limiter := limiter h @ [(historyClientIP r, e)]\<rparr>)"
proof -
  have new: "AList.update k e l = l @ [(k, e)]" if "map_of l k = None" for k and e :: historyRateEntry and l
    using that by (induction l) (auto split: if_splits)
  show ?thesis using assms new [OF assms] by (simp add: handlerAllow_def rateAllow_def Let_def) blast
qed

theorem forged_header_bypasses_limit:
  assumes "distinct vs" "\<forall>v\<in>set vs. plainAddress v \<and> map_of (limiter h) v = None" "length ts = length vs"
  shows "fst (allowRequests (zip ts (map (\<lambda>v. r\<lparr>reqForwarded := v\<rparr>) vs)) h) = replicate (length vs) True
    \<and> map fst (limiter (snd (allowRequests (zip ts (map (\<lambda>v. r\<lparr>reqForwarded := v\<rparr>) vs)) h))) = map fst (limiter h) @ vs"
  using assms
proof (induction vs arbitrary: ts rule: rev_induct)
  case Nil
  then show ?case by (simp add: allowRequests_def)
next
  case (snoc v vs)
  obtain ts0 t where ts: "ts = ts0 @ [t]" "length ts0 = length vs" using snoc.prems(3) by (cases ts rule: rev_cases) auto
  let ?reqs = "zip ts0 (map (\<lambda>v. r\<lparr>reqForwarded := v\<rparr>) vs)"
  obtain bs h' where st: "allowRequests ?reqs h = (bs, h')" by fastforce
  have IH: "bs = replicate (length vs) True" "map fst (limiter h') = map fst (limiter h) @ vs"
    using snoc.IH [of ts0] snoc.prems ts(2) st by auto
  have "v \<notin> set vs" "v \<notin> fst ` set (limiter h)" "plainAddress v" using snoc.prems(1,2) by (auto simp: map_of_eq_None_iff)
  then have "v \<notin> fst ` set (limiter h')" using IH(2) by (metis Un_iff list.set_map set_append)
  then have "map_of (limiter h') (historyClientIP (r\<lparr>reqForwarded := v\<rparr>)) = None"
    using historyClientIP_forwarded [OF \<open>plainAddress v\<close>] by (simp add: map_of_eq_None_iff)
  from handlerAllow_new [OF this, of t] obtain e where
    e: "handlerAllow t (r\<lparr>reqForwarded := v\<rparr>) h' = (True, h'\<lparr>limiter := limiter h' @ [(v, e)]\<rparr>)"
    using historyClientIP_forwarded [OF \<open>plainAddress v\<close>] by auto
  have "allowRequests (zip ts (map (\<lambda>v. r\<lparr>reqForwarded := v\<rparr>) (vs @ [v]))) h = (bs @ [True], h'\<lparr>limiter := limiter h' @ [(v, e)]\<rparr>)"
    using st e ts by (simp add: allowRequests_def)
  then show ?case using IH by (simp add: replicate_append_same)
qed

end
