(* ===== verification/Shutdown.thy ===== *)
theory Shutdown
  imports Durability Writer_Liveness Room_Registry
begin

text \<open>
  The end of the program: the hub shuts its rooms down, waits for them, closes the writer and
  drains the fan-out queue. When nothing was refused and no write failed, every operation a room
  ever accepted is in the log.
\<close>

section \<open>The goroutine of the writer on its own\<close>

text \<open>What the goroutine does while \<open>Close\<close> waits and every room has ended.\<close>

inductive goroutine :: "('x, 'e) WriterExecutor \<Rightarrow> ('x, 'e) Writer \<Rightarrow> ('x, 'e) Writer \<Rightarrow> bool" for ex w where
  stay: "goroutine ex w w"
| taken: "goroutine ex w w1 \<Longrightarrow> receiveJob ex w1 = Some w2 \<Longrightarrow> goroutine ex w w2"
| timed: "goroutine ex w w1 \<Longrightarrow> \<not> doneWriter w1 \<Longrightarrow> goroutine ex w (timerFired ex w1)"

text \<open>A close job at the end of the queue, and after it was taken.\<close>

definition closing :: "nat \<Rightarrow> ('x, 'e) Writer \<Rightarrow> bool" where
  "closing k w \<longleftrightarrow>
     (if doneWriter w then jobs w = [] \<and> pendingSnapshot w = [] \<and> (\<forall>d. pendingWrites w d = [])
      else responses w = [] \<and> (\<exists>before. jobs w = before @ [closeJob k] \<and> (\<forall>j \<in> set before. plainJob j)))"

lemma plain_responses:
  assumes "plainJob j"
  shows "responses (handleJob ex j w) = responses w"
proof -
  let ?w = "(addPending (jobDocument j) (jobUser j) (jobOps j) (observeQueueDepth w))\<lparr>timerActive := False\<rparr>"
  obtain err w' where fl: "flush ex ?w = (err, w')" by fastforce
  obtain errs w1 where fa: "flushAll ex (observeQueueDepth w) = (errs, w1)" by fastforce
  show ?thesis
    using assms flush_frame [OF fl] flushAll_frame [OF fa]
    by (auto simp: plainJob_def handleJob_def Let_def fl fa respond_def)
qed

lemma timer_frame: "jobs (timerFired ex w) = jobs w" "doneWriter (timerFired ex w) = doneWriter w" "responses (timerFired ex w) = responses w"
proof -
  obtain err w' where "flush ex (w\<lparr>timerActive := False\<rparr>) = (err, w')" by fastforce
  then show "jobs (timerFired ex w) = jobs w" "doneWriter (timerFired ex w) = doneWriter w" "responses (timerFired ex w) = responses w"
    using flush_frame [of ex "w\<lparr>timerActive := False\<rparr>" err w'] by (simp_all add: timerFired_def)
qed

lemma goroutine_observed: "goroutine ex w w' \<Longrightarrow> set (observed w) \<subseteq> set (observed w')"
proof (induction rule: goroutine.induct)
  case (taken w1 w2)
  then show ?case using keepsOpen_receive [of ex w1 w2] by (auto simp: keepsOpen_def)
next
  case (timed w1)
  then show ?case using keepsOpen_timer [of w1 ex] by (auto simp: keepsOpen_def)
qed simp

context durable_log
begin

lemma closing_taken:
  assumes inv: "runInv x0 acc w" and cl: "closing k w" and recv: "receiveJob ex w = Some w'"
  shows "closing k w'"
proof -
  obtain j rest where j: "jobs w = j # rest" "w' = handleJob ex j (w\<lparr>jobs := rest\<rparr>)" "\<not> doneWriter w"
    using recv by (auto simp: receiveJob_def split: if_splits list.splits)
  obtain before where before: "responses w = []" "jobs w = before @ [closeJob k]" "\<forall>j \<in> set before. plainJob j"
    using cl j(3) by (auto simp: closing_def)
  show ?thesis
  proof (cases before)
    case Nil
    then have job: "j = closeJob k" "rest = []" using before(2) j(1) by simp_all
    obtain errs w1 where fl: "flushAll ex (observeQueueDepth (w\<lparr>jobs := []\<rparr>)) = (errs, w1)" by fastforce
    have "runInv x0 acc (observeQueueDepth (w\<lparr>jobs := []\<rparr>))"
      using inv before(2) Nil
      by (simp add: runInv_def wfPending_def pendingWrites_def queuedWrites_def jobWrites_def closeJob_def)
    from runInv_flushAll [OF this fl] have "pendingWrites w1 d = []" "pendingSnapshot w1 = []" "jobs w1 = []" for d
      by (auto simp: observeQueueDepth_def split: if_splits)
    then show ?thesis
      using job by (simp add: closing_def j(2) handleJob_def fl closeJob_def respond_def pendingWrites_def)
  next
    case (Cons b bs)
    then have b: "plainJob j" "rest = bs @ [closeJob k]" "\<forall>j \<in> set bs. plainJob j" using before(2,3) j(1) by auto
    have "jobKind j \<noteq> writerClose" using b(1) by (auto simp: plainJob_def)
    then show ?thesis
      using handleJob_frame(1) [of ex j "w\<lparr>jobs := rest\<rparr>"] handleJob_frame(2) [of j ex "w\<lparr>jobs := rest\<rparr>"] plain_responses [OF b(1), of ex "w\<lparr>jobs := rest\<rparr>"] b j(3) before(1)
      by (auto simp: closing_def j(2))
  qed
qed

lemma closing_goroutine:
  assumes "goroutine ex w w'" "runInv x0 acc w" "closing k w"
  shows "runInv x0 acc w' \<and> closing k w'"
  using assms
proof (induction rule: goroutine.induct)
  case (taken w1 w2)
  obtain j rest where j: "jobs w1 = j # rest" "w2 = handleJob ex j (w1\<lparr>jobs := rest\<rparr>)"
    using taken.hyps(2) by (auto simp: receiveJob_def split: if_splits list.splits)
  have "runInv x0 acc w1" "closing k w1" using taken by simp_all
  then show ?case using runInv_handleJob [OF _ j(1)] closing_taken [OF _ _ taken.hyps(2)] j(2) by blast
next
  case (timed w1)
  then have "runInv x0 acc w1" "closing k w1" by simp_all
  moreover obtain err w' where fl: "flush ex (w1\<lparr>timerActive := False\<rparr>) = (err, w')" by fastforce
  moreover have "runInv x0 acc (w1\<lparr>timerActive := False\<rparr>)" using calculation(1) by (rule runInv_producer') simp_all
  then have "runInv x0 acc (timerFired ex w1)" using runInv_flush [OF _ fl] by (simp add: timerFired_def fl)
  ultimately show ?case using timed.hyps(2) timer_frame [of ex w1] by (simp add: closing_def)
qed simp

text \<open>After a clean close everything that was accepted is in the log.\<close>

lemma closed_log:
  assumes "runInv x0 acc w" "closing k w" "doneWriter w" "writeErrors w = []"
  shows "log (executor w) d = log x0 d @ map view (acceptedOf acc d)"
proof -
  have "pendingWrites w d = []" "queuedWrites w d = []" using assms(2,3) by (simp_all add: closing_def queuedWrites_def)
  moreover obtain don ys where "acceptedOf acc d = don @ pendingWrites w d @ queuedWrites w d"
      "log (executor w) d = log x0 d @ ys" "ys = map view don"
    using assms(1,4) unfolding runInv_def by blast
  ultimately show ?thesis by simp
qed

end

section \<open>Closing the hub\<close>

text \<open>\<open>Close\<close> gives the context five seconds and ignores the error.\<close>

definition Hub_Close ::
  "bool \<Rightarrow> (('x, 'e) Hub \<Rightarrow> ('x, 'e) Hub) \<Rightarrow> (('x, 'e) Writer \<Rightarrow> ('x, 'e) Writer) \<Rightarrow> bool \<Rightarrow> bool \<Rightarrow> nat
   \<Rightarrow> ('x, 'e) Hub option \<Rightarrow> ('x, 'e) Hub option option" where
  "Hub_Close pick wait progress cancelled1 cancelled2 k receiver =
     map_option snd (CloseContext pick wait progress cancelled1 cancelled2 k receiver)"

definition sameLog :: "('x, 'e) Hub \<Rightarrow> ('x, 'e) Hub \<Rightarrow> bool" where
  "sameLog h k \<longleftrightarrow> hubWriter k = hubWriter h \<and> roomIDs k = roomIDs h \<and> hubCloseErr k = hubCloseErr h
     \<and> hubClosed k = hubClosed h"

lemma sameLog_fanoutWorker:
  assumes "fanoutWorker pick h = Some k"
  shows "sameLog h k"
proof -
  obtain job rest where jobs: "fanoutJobs h = job # rest" using assms by (auto simp: fanoutWorker_def split: list.splits)
  obtain ok h2 where h2: "enqueueTo (Some (fanClient job)) (fanData job) (h\<lparr>fanoutJobs := rest\<rparr>) = (ok, h2)" by fastforce
  then have same: "sameLog h h2" by (auto simp: sameLog_def enqueueTo_def split: prod.splits)
  show ?thesis
  proof (cases ok)
    case True
    then show ?thesis using assms jobs h2 same by (simp add: fanoutWorker_def)
  next
    case False
    then have "submit pick (fanRoom job) (commandUnregister (Some (fanClient job))) (setMetrics IncDroppedClients h2) = Some k"
      using assms jobs h2 by (simp add: fanoutWorker_def Room_Unregister_def)
    then show ?thesis using same by (auto simp: sameLog_def submit_def pushCommand_def fun_eq_iff split: if_splits)
  qed
qed

lemma sameLog_fanoutClose: "drainFanout n pick h = Some k \<Longrightarrow> sameLog h k"
proof (induction n pick h rule: drainFanout.induct)
  case (2 n pick h)
  then obtain h1 where "fanoutWorker pick h = Some h1" "drainFanout n pick h1 = Some k" by (auto split: option.splits)
  then show ?case using sameLog_fanoutWorker [of pick h h1] "2.IH" by (auto simp: sameLog_def)
qed (simp add: sameLog_def)

text \<open>A hub closes once: a second call returns the result of the first and changes nothing.\<close>

lemma shutdownAll_closed: "shutdownAll pick rs h = Some k \<Longrightarrow> hubClosed k = hubClosed h"
proof (induction pick rs h rule: shutdownAll.induct)
  case (2 pick r rs h)
  then obtain h1 where h1: "shutdown pick r h = Some h1" "shutdownAll pick rs h1 = Some k" by (auto split: option.splits)
  have "hubClosed h1 = hubClosed h" using h1(1) by (auto simp: shutdown_def submit_def pushCommand_def split: if_splits)
  then show ?case using "2.IH" [OF h1] by simp
qed simp

lemma CloseContext_parts:
  assumes call: "CloseContext pick wait progress c1 c2 k (Some h) = Some (r, Some h')" and op: "\<not> hubClosed h"
  shows "\<exists>h1 h3. shutdownAll pick (map snd (hubRooms h)) (h\<lparr>hubClosed := True\<rparr>) = Some h1
    \<and> closeWriter progress c1 c2 k (wait h1) = Some h3
    \<and> fanoutClose pick (h3\<lparr>hubSlugs := SlugCache_Close (hubSlugs h3)\<rparr>) = Some h' \<and> r = hubCloseErr h'"
proof -
  obtain h1 where h1: "shutdownAll pick (map snd (hubRooms h)) (h\<lparr>hubClosed := True\<rparr>) = Some h1"
    using call op by (cases "shutdownAll pick (map snd (hubRooms h)) (h\<lparr>hubClosed := True\<rparr>)") (simp_all add: CloseContext_def)
  have part: "(if list_all (\<lambda>r. roomDone (roomHeap (wait h1) r)) (map snd (hubRooms h))
      then (case closeWriter progress c1 c2 k (wait h1) of
              None \<Rightarrow> None
            | Some h3 \<Rightarrow> map_option (\<lambda>h4. (hubCloseErr h4, Some h4)) (fanoutClose pick (h3\<lparr>hubSlugs := SlugCache_Close (hubSlugs h3)\<rparr>)))
      else None) = Some (r, Some h')"
    using call op h1 by (simp add: CloseContext_def Let_def split: if_splits)
  obtain h3 where h3: "closeWriter progress c1 c2 k (wait h1) = Some h3"
    using part by (cases "closeWriter progress c1 c2 k (wait h1)") (simp_all split: if_splits)
  then show ?thesis using h1 part by (auto split: if_splits)
qed

lemma close_once:
  assumes call: "CloseContext pick wait progress c1 c2 k (Some h) = Some (r, Some h')" and "\<And>h. hubClosed (wait h) = hubClosed h"
  shows "CloseContext pick' wait' progress' c1' c2' k' (Some h') = Some (r, Some h')"
proof (cases "hubClosed h")
  case True
  then show ?thesis using call by (auto simp: CloseContext_def)
next
  case False
  then obtain h1 h3 where h1: "shutdownAll pick (map snd (hubRooms h)) (h\<lparr>hubClosed := True\<rparr>) = Some h1"
      and h3: "closeWriter progress c1 c2 k (wait h1) = Some h3"
      and h': "fanoutClose pick (h3\<lparr>hubSlugs := SlugCache_Close (hubSlugs h3)\<rparr>) = Some h'" "r = hubCloseErr h'"
    using CloseContext_parts [OF call False] by blast
  have "hubClosed (wait h1)" using shutdownAll_closed [OF h1] assms(2) [of h1] by simp
  moreover have "hubClosed h3 = hubClosed (wait h1)" using h3 by (cases "hubWriter (wait h1)") (auto simp: closeWriter_def)
  ultimately have "hubClosed h3" by simp
  then have "hubClosed h'" using sameLog_fanoutClose [OF h'(1) [unfolded fanoutClose_def]] by (simp add: sameLog_def)
  then show ?thesis using h'(2) by (simp add: CloseContext_def)
qed

lemma hub_run_shutdownAll:
  assumes "shutdownAll pick rs h = Some k" "hub_run ex h0 tr h" "\<forall>r \<in> set rs. r < nextRoom h"
  shows "hub_run ex h0 tr k"
  using assms
proof (induction pick rs h rule: shutdownAll.induct)
  case (2 pick r rs h)
  then obtain h1 where h1: "shutdown pick r h = Some h1" "shutdownAll pick rs h1 = Some k" by (auto split: option.splits)
  moreover have "hub_run ex h0 tr h1" using hub_run.quiet [OF "2.prems"(2) hub_quiet.shut [OF h1(1)]] "2.prems"(3) by simp
  moreover have "nextRoom h1 = nextRoom h" using h1(1) by (auto simp: shutdown_def submit_def pushCommand_def split: if_splits)
  ultimately show ?case using "2.IH" [OF h1(1)] "2.prems"(3) by simp
qed simp

text \<open>The writer's part: what a hub that closed without an error did to its writer.\<close>

lemma closeWriter_closed:
  assumes call: "closeWriter progress False False k h = Some h'" and ok: "hubCloseErr h' = BarrierOk"
    and w: "hubWriter h = Some w" "openWriter w" and alone: "\<forall>w. goroutine ex w (progress w)"
  shows "\<exists>w1 w'. jobs w1 = jobs w @ [closeJob k] \<and> sameGoroutine w w1 \<and> goroutine ex w1 w' \<and> set (observed w) \<subseteq> set (observed w1)
     \<and> responses w1 = [] \<and> \<not> doneWriter w1 \<and> responses w' \<noteq> [] \<and> hubWriter h' = Some (w'\<lparr>closeErr := BarrierOk\<rparr>)
     \<and> roomIDs h' = roomIDs h"
proof -
  let ?w = "w\<lparr>closeStarted := True\<rparr>" let ?w1 = "observeQueueDepth (?w\<lparr>jobs := jobs w @ [closeJob k]\<rparr>)"
  have w1: "enqueueBarrier False (closeJob k) ?w = Some (Inr (), ?w1)" "awaitBarrier False k (progress ?w1) = Some BarrierOk"
      "hubWriter h' = Some ((progress ?w1)\<lparr>closeErr := BarrierOk\<rparr>)" "roomIDs h' = roomIDs h"
    using call ok w
    by (auto simp: closeWriter_def Writer_Close_def openWriter_def enqueueBarrier_def queueFull_def split: if_splits option.splits sum.splits)
  have "responses (progress ?w1) \<noteq> []" using w1(2) by (auto simp: awaitBarrier_def split: option.splits)
  moreover have "sameGoroutine w ?w1" "set (observed w) \<subseteq> set (observed ?w1)" "responses ?w1 = []" "\<not> doneWriter ?w1"
      "jobs ?w1 = jobs w @ [closeJob k]"
    using w(2) by (auto simp: sameGoroutine_def observeQueueDepth_def openWriter_def)
  ultimately show ?thesis using alone w1(3,4) by blast
qed

lemma closed_hub_log:
  assumes wf: "wfTables (tables s)" and obs: "hasObserver c"
    and run: "hub_run (storeExecutor env) (freshHub cfg (Some (NewWriterWithConfig (s, k0) b c)) m sc cl) tr h"
    and call: "closeWriter progress False False k h = Some h'" "hubCloseErr h' = BarrierOk"
    and alone: "\<forall>w. goroutine (storeExecutor env) w (progress w)"
    and w': "hubWriter h' = Some w'" "writeErrors w' = []" "IncWriteQueueDropped \<notin> set (observed w')"
  shows "map snd (documentLog (tables (fst (executor w'))) d)
      = map snd (documentLog (tables s) d) @ eventOps (roomIDs h') d tr \<and> doneWriter w' \<and> pendingSnapshot w' = []"
proof -
  let ?ex = "storeExecutor env" let ?w0 = "NewWriterWithConfig (s, k0) True c :: (Store \<times> nat, store_error) Writer"
  have "hubWriter (freshHub cfg (Some (NewWriterWithConfig (s, k0) b c)) m sc cl) = Some ?w0"
    by (simp add: freshHub_def NewHubWithConfig_def SetSnapshotObserver_def NewWriterWithConfig_def Let_def)
  from persistInv_run [OF run this] obtain w acc n where w: "hubWriter h = Some w" "writer_run ?ex ?w0 acc n w"
      "allAccepted ?w0 w acc (\<lambda>d. eventOps (roomIDs h) d tr)"
    unfolding persistInv_def by blast
  have op0: "openWriter ?w0" by (rule openWriter_New)
  then have op: "openWriter w" using w(3) by (simp add: allAccepted_def)
  obtain w1 w2 where w1: "jobs w1 = jobs w @ [closeJob k]" "sameGoroutine w w1" "goroutine ?ex w1 w2"
      "set (observed w) \<subseteq> set (observed w1)" "responses w1 = []" "\<not> doneWriter w1" "responses w2 \<noteq> []"
      "hubWriter h' = Some (w2\<lparr>closeErr := BarrierOk\<rparr>)" "roomIDs h' = roomIDs h"
    using closeWriter_closed [OF call w(1) op alone] by blast
  have inv: "storelog.runInv (s, k0) acc w1"
    by (rule storelog.runInv_producer [OF store_run [OF wf w(2)] w1(2)])
      (simp add: queuedWrites_def w1(1) jobWrites_def closeJob_def)
  have "closing k w1" using w1(1,5,6) op by (auto simp: closing_def openWriter_def)
  from storelog.closing_goroutine [OF w1(3) inv this] have fin: "storelog.runInv (s, k0) acc w2" "closing k w2" by auto
  have "doneWriter w2" using fin(2) w1(7) by (auto simp: closing_def split: if_splits)
  moreover have same: "w' = w2\<lparr>closeErr := BarrierOk\<rparr>" using w'(1) w1(8) by simp
  ultimately have "storeLog (executor w2) d = storeLog (s, k0) d @ map attributed (acceptedOf acc d)"
    using storelog.closed_log [OF fin] w'(2) by simp
  moreover have "IncWriteQueueDropped \<notin> set (observed w)"
    using goroutine_observed [OF w1(3)] w1(4) w'(3) same by auto
  then have "map writeOp (acceptedOf acc d) = eventOps (roomIDs h) d tr"
    using w(3) op0 obs by (simp add: allAccepted_def NewWriterWithConfig_def Let_def)
  ultimately show ?thesis
    using fin(2) \<open>doneWriter w2\<close> w1(9) same by (simp add: closing_def storeLog_def attributed_def comp_def)
qed


text \<open>A client joins and types a character; then the hub is closed.\<close>

definition stopHub :: "(Store \<times> nat, store_error) Hub" where
  "stopHub = freshHub \<lparr>IdleTimeout = 0, ClientQueueSize = 0, FanoutQueueSize = 0, FanoutWorkers = 0,
     SnapshotOpThreshold = 0, SnapshotInterval = 0\<rparr>
     (Some (NewWriterWithConfig (exampleStore, 0) False
       \<lparr>QueueSize = 8, OperationBatchSize = 8, OperationFlushDelay = 1, hasObserver = True\<rparr>))
     None None (\<lambda>_. newTestClient None 64)"

definition stopOpened :: "(Store \<times> nat, store_error) Hub" where
  "stopOpened = snd (installRoom ''pad'' (newRoom ''pad'' 1 New 0 []) stopHub)"

definition stopTyped :: "(Store \<times> nat, store_error) Hub" where
  "stopTyped = exampleTake (exampleType 0 insA (exampleTake (exampleJoin 0 stopOpened)))"

fun drainJobs :: "nat \<Rightarrow> (Store \<times> nat, store_error) Writer \<Rightarrow> (Store \<times> nat, store_error) Writer" where
  "drainJobs 0 w = w"
| "drainJobs (Suc n) w = (case receiveJob (storeExecutor exampleEnv) w of None \<Rightarrow> w | Some w1 \<Rightarrow> drainJobs n w1)"

lemma drainJobs_goroutine: "goroutine (storeExecutor exampleEnv) w (drainJobs n w)"
proof (induction n arbitrary: w)
  case (Suc n)
  have trans: "goroutine ex w w2" if "goroutine ex w1 w2" "goroutine ex w w1" for ex and w w1 w2 :: "(Store \<times> nat, store_error) Writer"
    using that by (induction rule: goroutine.induct) (auto intro: goroutine.intros)
  show ?case
  proof (cases "receiveJob (storeExecutor exampleEnv) w")
    case (Some w1)
    then show ?thesis using trans [OF Suc goroutine.taken [OF goroutine.stay Some]] by simp
  qed (simp add: goroutine.stay)
qed (simp add: goroutine.stay)

abbreviation stopRun :: "room_event list \<Rightarrow> (Store \<times> nat, store_error) Hub \<Rightarrow> bool" where
  "stopRun \<equiv> hub_run (storeExecutor exampleEnv) stopHub"

lemma stop_typed: "stopRun [Joined 0 0, Accepted 0 (Some 0) insA 0] stopTyped"
proof -
  have "documentFromLoaded driftLoaded = Inr New" by (simp add: documentFromLoaded_def driftLoaded_def BuildAt_def)
  moreover have "installRoom ''pad'' (newRoom ''pad'' (storedID driftLoaded) New (storedVersion driftLoaded)
      (loadedOperations driftLoaded)) stopHub = (0, stopOpened)"
    by (simp add: driftLoaded_def installRoom_def stopHub_def freshHub_def NewHubWithConfig_def stopOpened_def)
  ultimately have "stopRun [] stopOpened" by (rule hub_run.opened [OF hub_run.start])
  then have "stopRun [] (exampleJoin 0 stopOpened)" by (rule example_join) code_simp+
  then have "stopRun ([] @ eventsOf 0 (exampleJoin 0 stopOpened)) (exampleTake (exampleJoin 0 stopOpened))"
    by (rule example_take) code_simp+
  moreover have "eventsOf 0 (exampleJoin 0 stopOpened) = [Joined 0 0]" by code_simp
  ultimately have "stopRun [Joined 0 0] (exampleTake (exampleJoin 0 stopOpened))" by simp
  then have "stopRun [Joined 0 0] (exampleType 0 insA (exampleTake (exampleJoin 0 stopOpened)))" by (rule example_type) code_simp+
  then have "stopRun ([Joined 0 0] @ eventsOf 0 (exampleType 0 insA (exampleTake (exampleJoin 0 stopOpened)))) stopTyped"
    unfolding stopTyped_def by (rule example_take) code_simp+
  moreover have "eventsOf 0 (exampleType 0 insA (exampleTake (exampleJoin 0 stopOpened))) = [Accepted 0 (Some 0) insA 0]" by code_simp
  ultimately show ?thesis by simp
qed

definition stopShut :: "(Store \<times> nat, store_error) Hub" where
  "stopShut = the (shutdownAll True (map snd (hubRooms stopTyped)) (stopTyped\<lparr>hubClosed := True\<rparr>))"

definition stopClosed :: "(store_error barrier_result \<times> (Store \<times> nat, store_error) Hub option) option" where
  "stopClosed = CloseContext True exampleTake (drainJobs 9) False False 7 (Some stopTyped)"

lemma stop_wait: "stopRun tr stopShut \<Longrightarrow> stopRun (tr @ []) (exampleTake stopShut)"
proof -
  have "eventsOf 0 stopShut = []" by code_simp
  moreover assume "stopRun tr stopShut"
  then have "stopRun (tr @ eventsOf 0 stopShut) (exampleTake stopShut)" by (rule example_take) code_simp+
  ultimately show ?thesis by simp
qed

lemma stop_closed:
  "map_option fst stopClosed = Some BarrierOk" "map_option (\<lambda>p. map_option (\<lambda>h. map_option writeErrors (hubWriter h)) (snd p)) stopClosed = Some (Some (Some []))"
  "map_option (\<lambda>p. map_option (\<lambda>h. map_option (\<lambda>w. IncWriteQueueDropped \<in> set (observed w)) (hubWriter h)) (snd p)) stopClosed = Some (Some (Some False))"
  "map_option (\<lambda>p. map_option (\<lambda>h. roomIDs h 0) (snd p)) stopClosed = Some (Some 1)" "\<not> hubClosed stopTyped"
  by code_simp+


end
