(* ===== verification/Config.thy ===== *)
theory Config
  imports Strconv Hub
begin

text \<open>
  The configuration from the environment: \<open>positiveEnvInt\<close>, \<open>positiveEnvDuration\<close> and their users
  in \<open>internal/store/writer.go\<close>, \<open>NewHub\<close> and \<open>roomIdleTimeoutFromEnv\<close> of
  \<open>internal/realtime/hub.go\<close>, and the settings \<open>cmd/gopad/main.go\<close> reads. \<open>getenv\<close> is
  \<open>os.Getenv\<close>: the empty string for a variable that is not set.
\<close>

type_synonym environ = "string \<Rightarrow> string"

section \<open>The writer and the snapshots\<close>

definition positiveEnvInt :: "environ \<Rightarrow> string \<Rightarrow> int \<Rightarrow> int" where
  "positiveEnvInt getenv name fallback =
     (case parseInt64 (trimSpace (getenv name)) of
        None \<Rightarrow> fallback
      | Some v \<Rightarrow> if v \<le> 0 then fallback else v)"

definition positiveEnvDuration :: "(int \<Rightarrow> nat \<Rightarrow> int \<Rightarrow> int) \<Rightarrow> environ \<Rightarrow> string \<Rightarrow> duration \<Rightarrow> duration" where
  "positiveEnvDuration fraction getenv name fallback =
     (let v = trimSpace (getenv name)
      in if v = '''' then fallback
         else case parseDuration fraction v of
             None \<Rightarrow> fallback
           | Some d \<Rightarrow> if d \<le> 0 then fallback else d)"

definition WriterConfigFromEnv :: "(int \<Rightarrow> nat \<Rightarrow> int \<Rightarrow> int) \<Rightarrow> environ \<Rightarrow> bool \<Rightarrow> WriterConfig" where
  "WriterConfigFromEnv fraction getenv obs =
     (let c = defaultWriterConfig\<lparr>hasObserver := obs\<rparr>
      in c\<lparr>QueueSize := positiveEnvInt getenv ''GOPAD_WRITE_QUEUE_SIZE'' (QueueSize c),
           OperationBatchSize := positiveEnvInt getenv ''GOPAD_OP_BATCH_SIZE'' (OperationBatchSize c),
           OperationFlushDelay := positiveEnvDuration fraction getenv ''GOPAD_OP_FLUSH_INTERVAL'' (OperationFlushDelay c)\<rparr>)"

definition SnapshotConfigFromEnv :: "(int \<Rightarrow> nat \<Rightarrow> int \<Rightarrow> int) \<Rightarrow> environ \<Rightarrow> int \<times> duration" where
  "SnapshotConfigFromEnv fraction getenv =
     (positiveEnvInt getenv ''GOPAD_SNAPSHOT_OP_THRESHOLD'' DefaultSnapshotOpThreshold,
      positiveEnvDuration fraction getenv ''GOPAD_SNAPSHOT_INTERVAL'' DefaultSnapshotInterval)"

section \<open>The hub\<close>

text \<open>Multiplication of durations is that of signed 64-bit integers.\<close>

definition mulDuration :: "int \<Rightarrow> duration \<Rightarrow> duration" where
  "mulDuration a b = signed_take_bit 63 (a * b)"

definition roomIdleTimeoutFromEnv :: "(int \<Rightarrow> nat \<Rightarrow> int \<Rightarrow> int) \<Rightarrow> environ \<Rightarrow> duration" where
  "roomIdleTimeoutFromEnv fraction getenv =
     (let v = trimSpace (getenv ''GOPAD_ROOM_IDLE_TIMEOUT'')
      in if v = '''' then defaultRoomIdleTimeout
         else case parseDuration fraction v of
             Some d \<Rightarrow> if d > 0 then d
               else (case parseInt64 v of
                       Some n \<Rightarrow> if n > 0 then mulDuration n second else defaultRoomIdleTimeout
                     | None \<Rightarrow> defaultRoomIdleTimeout)
           | None \<Rightarrow>
               (case parseInt64 v of
                  Some n \<Rightarrow> if n > 0 then mulDuration n second else defaultRoomIdleTimeout
                | None \<Rightarrow> defaultRoomIdleTimeout))"

text \<open>\<open>NewHub\<close>; the argument is the executor state when the database is the SQLite store.\<close>

definition NewHub :: "(int \<Rightarrow> nat \<Rightarrow> int \<Rightarrow> int) \<Rightarrow> environ \<Rightarrow> 'x option \<Rightarrow> ('x, 'e) Hub" where
  "NewHub fraction getenv database =
     (let (threshold, interval) = SnapshotConfigFromEnv fraction getenv;
          writer = map_option (\<lambda>x. NewWriterWithConfig x False (WriterConfigFromEnv fraction getenv True)) database
      in NewHubWithConfig
           \<lparr>IdleTimeout = roomIdleTimeoutFromEnv fraction getenv, ClientQueueSize = defaultClientQueueSize,
            FanoutQueueSize = defaultFanoutQueueSize, FanoutWorkers = defaultFanoutWorkers,
            SnapshotOpThreshold = threshold, SnapshotInterval = interval\<rparr>
           writer (Some Metrics_New) (Some DefaultSlugCache))"

section \<open>The program\<close>

definition envOrDefault :: "environ \<Rightarrow> string \<Rightarrow> string \<Rightarrow> string" where
  "envOrDefault getenv name fallback = (let v = trimSpace (getenv name) in if v \<noteq> '''' then v else fallback)"

datatype log_level = LevelDebug | LevelInfo | LevelWarn | LevelError

text \<open>
  \<open>strings.ToLower\<close> as far as its result can be ASCII: the letters of ASCII, and the capital
  dotted I and the Kelvin sign, whose lower case is ASCII.
\<close>

function toLower :: "string \<Rightarrow> string" where
  "toLower s =
     (if s = [] then []
      else if hasPrefix s [CHR 0xC4, CHR 0xB0] then CHR ''i'' # toLower (drop 2 s)
      else if hasPrefix s [CHR 0xE2, CHR 0x84, CHR 0xAA] then CHR ''k'' # toLower (drop 3 s)
      else lowerChar (hd s) # toLower (tl s))"
  by pat_completeness auto
termination
  by (relation "measure length") auto

declare toLower.simps [simp del]

text \<open>\<open>newLogger\<close>: the level.\<close>

definition newLogger :: "string \<Rightarrow> log_level" where
  "newLogger levelName =
     (let l = toLower (trimSpace levelName)
      in if l = ''debug'' then LevelDebug
         else if l = ''warn'' \<or> l = ''warning'' then LevelWarn
         else if l = ''error'' then LevelError
         else LevelInfo)"

text \<open>\<open>startPprofServer\<close>: the address of the server it starts.\<close>

definition startPprofServer :: "environ \<Rightarrow> string option" where
  "startPprofServer getenv =
     (if trimSpace (getenv ''GOPAD_ENABLE_PPROF'') \<noteq> ''1'' then None else Some ''127.0.0.1:6060'')"

section \<open>Settings are sane\<close>

definition plainChar :: "char \<Rightarrow> bool" where
  "plainChar c \<longleftrightarrow> (let n = of_char c :: nat in 33 \<le> n \<and> n \<le> 126)"

lemma trimLeading_id: "\<forall>w \<in> set ws. \<not> hasPrefix s w \<Longrightarrow> trimLeading ws s = s"
  by (subst trimLeading.simps) (auto simp: find_Some_iff split: option.splits dest: nth_mem)

lemma trimSpace_plain:
  assumes "s \<noteq> []" "plainChar (hd s)" "plainChar (last s)"
  shows "trimSpace s = s"
proof -
  have "list_all (\<lambda>w. w \<noteq> [] \<and> \<not> plainChar (hd w) \<and> \<not> plainChar (last w)) spaceBytes" by code_simp
  then have w: "w \<noteq> []" "\<not> plainChar (hd w)" "\<not> plainChar (hd (rev w))" if "w \<in> set spaceBytes" for w
    using that by (auto simp: list_all_iff hd_rev)
  have no: "\<not> hasPrefix t w" if "t \<noteq> []" "plainChar (hd t)" "w \<noteq> []" "\<not> plainChar (hd w)" for t w
    using that by (cases t; cases w) auto
  have "trimLeading spaceBytes s = s" using w no [OF assms(1,2)] by (intro trimLeading_id) blast
  moreover have "trimLeading (map rev spaceBytes) (rev s) = rev s"
    using w no [of "rev s"] assms by (intro trimLeading_id) (auto simp: hd_rev)
  ultimately show ?thesis by (simp add: trimSpace_def)
qed

lemma digits_plain: "list_all isDigit ds \<Longrightarrow> ds \<noteq> [] \<Longrightarrow> plainChar (hd ds) \<and> plainChar (last ds)"
proof -
  assume "list_all isDigit ds" "ds \<noteq> []"
  then have "isDigit (hd ds)" "isDigit (last ds)" by (auto simp: list_all_iff)
  then show ?thesis by (auto simp: isDigit_def plainChar_def Let_def)
qed

lemma mulDuration_range: "- (2 ^ 63) \<le> mulDuration a b \<and> mulDuration a b < 2 ^ 63"
  unfolding mulDuration_def using signed_take_bit_int_greater_eq_minus_exp signed_take_bit_int_less_exp by blast

lemma mulDuration_exact: "- (2 ^ 63) \<le> a * b \<Longrightarrow> a * b < 2 ^ 63 \<Longrightarrow> mulDuration a b = a * b"
  unfolding mulDuration_def by (rule signed_take_bit_int_eq_self)

lemma positiveEnvInt_range: "0 < d \<and> d < 2 ^ 63 \<Longrightarrow> 0 < positiveEnvInt getenv name d \<and> positiveEnvInt getenv name d < 2 ^ 63"
  by (auto simp: positiveEnvInt_def split: option.splits dest: parseInt64_range)

lemma positiveEnvDuration_range:
  "0 < d \<and> d < 2 ^ 63 \<Longrightarrow> 0 < positiveEnvDuration f getenv name d \<and> positiveEnvDuration f getenv name d < 2 ^ 63"
  by (auto simp: positiveEnvDuration_def Let_def split: option.splits dest: parseDuration_range)

lemma roomIdleTimeout_range: "roomIdleTimeoutFromEnv f getenv < 2 ^ 63"
  using mulDuration_range parseDuration_range
  by (auto simp: roomIdleTimeoutFromEnv_def Let_def defaultRoomIdleTimeout_def second_def split: option.splits)

lemma roomIdleTimeout_seconds:
  assumes ds: "list_all isDigit ds" "ds \<noteq> []" "0 < digitsValue ds" "digitsValue ds \<le> 9223372036"
    and env: "getenv ''GOPAD_ROOM_IDLE_TIMEOUT'' = ds \<or> getenv ''GOPAD_ROOM_IDLE_TIMEOUT'' = ds @ ''s''"
  shows "roomIdleTimeoutFromEnv f getenv = digitsValue ds * second"
proof (cases "getenv ''GOPAD_ROOM_IDLE_TIMEOUT'' = ds")
  case True
  have "ds \<noteq> ''0''" using ds(3) by (auto simp: digitsValue_def digitValue_def)
  moreover have "mulDuration (digitsValue ds) second = digitsValue ds * second"
    using ds(3,4) by (intro mulDuration_exact) (simp_all add: second_def)
  ultimately show ?thesis
    using True ds trimSpace_plain [OF ds(2)] digits_plain [OF ds(1,2)] parseDuration_bare [OF ds(1), of f] parseInt64_digits [OF ds(1,2)]
    by (simp add: roomIdleTimeoutFromEnv_def)
next
  case False
  then have v: "getenv ''GOPAD_ROOM_IDLE_TIMEOUT'' = ds @ ''s''" using env by simp
  have "plainChar CHR ''s''" by code_simp
  then have "trimSpace (ds @ ''s'') = ds @ ''s''" using digits_plain [OF ds(1,2)] ds(2) by (intro trimSpace_plain) simp_all
  then show ?thesis
    using v ds(3) parseDuration_seconds [OF ds(1,2,4), of f] by (simp add: roomIdleTimeoutFromEnv_def second_def)
qed



end
