(* ===== verification/Store_Open.thy ===== *)
theory Store_Open
  imports Store_Theorems
begin

text \<open>
  Opening and closing the database: \<open>Open\<close>, \<open>configureDatabase\<close>, \<open>applyMigrations\<close> and \<open>Close\<close> of
  \<open>internal/store/store.go\<close>, with the statements of \<open>migrations/001_initial.sql\<close>. The driver may
  fail at any call; \<open>journal\<close> is the journal mode it reports for a path after it was asked for WAL.
\<close>

section \<open>Files\<close>

text \<open>A database file: the tables that exist, and the identities handed out.\<close>

record db_file =
  usersTable :: "User list option"
  documentsTable :: "doc_row list option"
  operationsTable :: "op_row list option"
  fileLastUser :: int
  fileLastDocument :: int

definition emptyFile :: db_file where
  "emptyFile = \<lparr>usersTable = None, documentsTable = None, operationsTable = None, fileLastUser = 0, fileLastDocument = 0\<rparr>"

definition fileOf :: "database \<Rightarrow> db_file" where
  "fileOf t = \<lparr>usersTable = Some (users t), documentsTable = Some (documents t), operationsTable = Some (operations t),
     fileLastUser = lastUser t, fileLastDocument = lastDocument t\<rparr>"

definition tablesOf :: "db_file \<Rightarrow> database" where
  "tablesOf f = \<lparr>users = (case usersTable f of None \<Rightarrow> [] | Some us \<Rightarrow> us),
     documents = (case documentsTable f of None \<Rightarrow> [] | Some ds \<Rightarrow> ds),
     operations = (case operationsTable f of None \<Rightarrow> [] | Some rs \<Rightarrow> rs),
     lastUser = fileLastUser f, lastDocument = fileLastDocument f\<rparr>"

lemma tablesOf_fileOf [simp]: "tablesOf (fileOf t) = t"
  by (simp add: tablesOf_def fileOf_def)

section \<open>The migration\<close>

datatype statement = PragmaForeignKeys | CreateUsers | CreateDocuments | CreateOperations | CreateIndex | InsertSystemUser

definition initialMigration :: "statement list" where
  "initialMigration = [PragmaForeignKeys, CreateUsers, CreateDocuments, CreateOperations, CreateIndex, InsertSystemUser]"

definition orEmpty :: "'a list option \<Rightarrow> 'a list option" where
  "orEmpty o1 = (case o1 of None \<Rightarrow> Some [] | Some xs \<Rightarrow> Some xs)"

fun runStatement :: "statement \<Rightarrow> db_file \<Rightarrow> db_file" where
  "runStatement PragmaForeignKeys f = f"
| "runStatement CreateUsers f = f\<lparr>usersTable := orEmpty (usersTable f)\<rparr>"
| "runStatement CreateDocuments f = f\<lparr>documentsTable := orEmpty (documentsTable f)\<rparr>"
| "runStatement CreateOperations f = f\<lparr>operationsTable := orEmpty (operationsTable f)\<rparr>"
| "runStatement CreateIndex f = f"
| "runStatement InsertSystemUser f =
     (case usersTable f of
        None \<Rightarrow> f
      | Some us \<Rightarrow>
          if (\<exists>u \<in> set us. userID u = systemUserID \<or> lowerString (userName u) = lowerString ''__system__'') then f
          else f\<lparr>usersTable := Some (us @ [\<lparr>userID = systemUserID, userName = ''__system__'', userColor = ''#808080''\<rparr>]),
                 fileLastUser := max (fileLastUser f) systemUserID\<rparr>)"

section \<open>Opening\<close>

text \<open>The calls of the driver; the flag tells the write handle from the read handle.\<close>

datatype open_call =
  CallOpen bool | CallForeignKeys bool | CallBusyTimeout bool | CallJournal | CallPing bool | CallReadMigration | CallStatement nat
| CallClose bool

datatype open_error =
  PathRequired | OpenFailed bool string | ForeignKeysFailed string | BusyTimeoutFailed string | JournalFailed string
| JournalMode string | PingFailed string | ReadMigrationFailed string | ApplyMigrationFailed string

type_synonym open_faults = "open_call \<Rightarrow> string option"

text \<open>The files and which handles of the process are open.\<close>

record db_world =
  files :: "string \<Rightarrow> db_file"
  writeHandle :: bool
  readHandle :: bool

definition openCall :: "open_faults \<Rightarrow> open_call \<Rightarrow> (string \<Rightarrow> open_error) \<Rightarrow> open_error + unit" where
  "openCall flt c err = (case flt c of None \<Rightarrow> Inr () | Some m \<Rightarrow> Inl (err m))"

definition configureDatabase :: "open_faults \<Rightarrow> string \<Rightarrow> bool \<Rightarrow> open_error + unit" where
  "configureDatabase flt mode writer =
     andThen (openCall flt (CallForeignKeys writer) ForeignKeysFailed) (\<lambda>_.
     andThen (openCall flt (CallBusyTimeout writer) BusyTimeoutFailed) (\<lambda>_.
     andThen (if writer
              then andThen (openCall flt CallJournal JournalFailed) (\<lambda>_.
                     if lowerString mode \<noteq> ''wal'' then Inl (JournalMode mode) else Inr ())
              else Inr ()) (\<lambda>_.
       openCall flt (CallPing writer) PingFailed)))"

text \<open>The statements run one after the other without a transaction.\<close>

fun execScript :: "open_faults \<Rightarrow> nat \<Rightarrow> statement list \<Rightarrow> db_file \<Rightarrow> (open_error + unit) \<times> db_file" where
  "execScript flt i [] f = (Inr (), f)"
| "execScript flt i (st # sts) f =
     (case flt (CallStatement i) of
        Some m \<Rightarrow> (Inl (ApplyMigrationFailed m), f)
      | None \<Rightarrow> execScript flt (Suc i) sts (runStatement st f))"

definition applyMigrations :: "open_faults \<Rightarrow> db_file \<Rightarrow> (open_error + unit) \<times> db_file" where
  "applyMigrations flt f =
     (case flt CallReadMigration of
        Some m \<Rightarrow> (Inl (ReadMigrationFailed m), f)
      | None \<Rightarrow> execScript flt 0 initialMigration f)"

text \<open>\<open>Close\<close> returns the errors of the handles it closes; the nil store is \<^const>\<open>None\<close>.\<close>

definition Store_Close :: "open_faults \<Rightarrow> Store option \<Rightarrow> db_world \<Rightarrow> string list \<times> db_world" where
  "Store_Close flt receiver w =
     (case receiver of
        None \<Rightarrow> ([], w)
      | Some s \<Rightarrow>
          let close = (\<lambda>h. case flt (CallClose h) of None \<Rightarrow> [] | Some m \<Rightarrow> [m])
          in ((if readDB s then close False else []) @ (if writeDB s then close True else []),
              w\<lparr>readHandle := readHandle w \<and> \<not> readDB s, writeHandle := writeHandle w \<and> \<not> writeDB s\<rparr>))"

definition memoryPath :: string where
  "memoryPath = ''file:gopad-memory?mode=memory&cache=shared''"

definition Store_Open :: "open_faults \<Rightarrow> (string \<Rightarrow> string) \<Rightarrow> string \<Rightarrow> db_world \<Rightarrow> (open_error + Store) \<times> db_world" where
  "Store_Open flt journal path0 w =
     (if trimSpace path0 = '''' then (Inl PathRequired, w)
      else
        let path = (if path0 = '':memory:'' then memoryPath else path0)
        in case flt (CallOpen True) of
             Some m \<Rightarrow> (Inl (OpenFailed True m), w)
           | None \<Rightarrow>
               let w1 = w\<lparr>writeHandle := True\<rparr>
               in case flt (CallOpen False) of
                    Some m \<Rightarrow> (Inl (OpenFailed False m), w1\<lparr>writeHandle := False\<rparr>)
                  | None \<Rightarrow>
                      let w2 = w1\<lparr>readHandle := True\<rparr>;
                          handles = \<lparr>readDB = True, writeDB = True, tables = tablesOf (files w2 path)\<rparr>
                      in case configureDatabase flt (journal path) True of
                           Inl e \<Rightarrow> (Inl e, snd (Store_Close flt (Some handles) w2))
                         | Inr _ \<Rightarrow>
                             (case applyMigrations flt (files w2 path) of
                                (Inl e, f) \<Rightarrow> (Inl e, snd (Store_Close flt (Some handles) (w2\<lparr>files := (files w2)(path := f)\<rparr>)))
                              | (Inr _, f) \<Rightarrow>
                                  let w3 = w2\<lparr>files := (files w2)(path := f)\<rparr>
                                  in case configureDatabase flt (journal path) False of
                                       Inl e \<Rightarrow> (Inl e, snd (Store_Close flt (Some handles) w3))
                                     | Inr _ \<Rightarrow> (Inr (handles\<lparr>tables := tablesOf f\<rparr>), w3)))"

section \<open>Opening is safe to repeat\<close>

text \<open>
  A file holds the tables \<open>t\<close>, or it is new and an earlier migration of it stopped at some
  statement.
\<close>

definition holds :: "db_file \<Rightarrow> database \<Rightarrow> bool" where
  "holds f t \<longleftrightarrow> wfTables t \<and> (f = fileOf t \<or> t = initialTables \<and> (\<exists>n \<le> 6. f = fold runStatement (take n initialMigration) emptyFile))"

lemma run_on_tables: "wfTables t \<Longrightarrow> runStatement st (fileOf t) = fileOf t"
proof -
  assume "wfTables t"
  then have "\<exists>u \<in> set (users t). userID u = systemUserID" unfolding wfTables_def by (metis imageE)
  then show ?thesis by (cases st) (auto simp: fileOf_def orEmpty_def)
qed

lemma script_on_tables: "wfTables t \<Longrightarrow> fold runStatement sts (fileOf t) = fileOf t"
  by (induction sts) (simp_all add: run_on_tables)

lemma migration_end: "fold runStatement (take 6 initialMigration) emptyFile = fileOf initialTables"
  by (simp add: initialMigration_def emptyFile_def orEmpty_def fileOf_def initialTables_def systemUserID_def)

text \<open>Running the script again from the start catches up with the stage a file is in.\<close>

lemma migration_stages:
  assumes "n \<le> 6" "i \<le> 6"
  shows "fold runStatement (take i initialMigration) (fold runStatement (take n initialMigration) emptyFile)
     = fold runStatement (take (max i n) initialMigration) emptyFile"
proof -
  have "n = 0 \<or> n = 1 \<or> n = 2 \<or> n = 3 \<or> n = 4 \<or> n = 5 \<or> n = 6" "i = 0 \<or> i = 1 \<or> i = 2 \<or> i = 3 \<or> i = 4 \<or> i = 5 \<or> i = 6"
    using assms by linarith+
  then show ?thesis
    by (elim disjE; simp add: initialMigration_def emptyFile_def orEmpty_def)
qed

lemma holds_script:
  assumes "holds f t" "i \<le> 6"
  shows "holds (fold runStatement (take i initialMigration) f) t"
    and "i = 6 \<Longrightarrow> fold runStatement (take i initialMigration) f = fileOf t"
proof -
  have "holds (fold runStatement (take i initialMigration) f) t \<and> (i = 6 \<longrightarrow> fold runStatement (take i initialMigration) f = fileOf t)"
  proof (cases "f = fileOf t")
    case True
    then show ?thesis using assms(1) script_on_tables [of t] by (simp add: holds_def)
  next
    case False
    then obtain n where n: "t = initialTables" "n \<le> 6" "f = fold runStatement (take n initialMigration) emptyFile" "wfTables t"
      using assms(1) by (auto simp: holds_def)
    then have "fold runStatement (take i initialMigration) f = fold runStatement (take (max i n) initialMigration) emptyFile"
      using migration_stages assms(2) by simp
    then show ?thesis using n assms(2) migration_end by (auto simp: holds_def max_def)
  qed
  then show "holds (fold runStatement (take i initialMigration) f) t"
    and "i = 6 \<Longrightarrow> fold runStatement (take i initialMigration) f = fileOf t" by blast+
qed

lemma execScript_stages:
  "execScript flt k sts f = (res, f') \<Longrightarrow>
   \<exists>i \<le> length sts. f' = fold runStatement (take i sts) f \<and> (res = Inr () \<longrightarrow> i = length sts)"
proof (induction flt k sts f rule: execScript.induct)
  case (2 flt k st sts f)
  show ?case
  proof (cases "flt (CallStatement k)")
    case None
    then obtain i where "i \<le> length sts" "f' = fold runStatement (take i sts) (runStatement st f)" "res = Inr () \<longrightarrow> i = length sts"
      using 2 by auto
    then show ?thesis by (intro exI [of _ "Suc i"]) simp
  next
    case (Some m)
    then show ?thesis using "2.prems" by (intro exI [of _ 0]) auto
  qed
qed auto

lemma applyMigrations_holds:
  assumes "holds f t" "applyMigrations flt f = (res, f')"
  shows "holds f' t \<and> (res = Inr () \<longrightarrow> f' = fileOf t)"
proof (cases "flt CallReadMigration")
  case None
  have len: "length initialMigration = 6" by (simp add: initialMigration_def)
  obtain i where "i \<le> 6" "f' = fold runStatement (take i initialMigration) f" "res = Inr () \<longrightarrow> i = 6"
    using execScript_stages [of flt 0 initialMigration f res f'] assms(2) None by (auto simp: applyMigrations_def len)
  then show ?thesis using holds_script [OF assms(1)] by blast
qed (use assms in \<open>auto simp: applyMigrations_def\<close>)

text \<open>
  Whatever calls of the driver fail, \<open>Open\<close> keeps the data: when it succeeds, the store has the
  tables the file held, or the initial ones of a new file, both handles are open and no other file
  was touched; when it fails, both handles are closed again and the file is still one that a later
  \<open>Open\<close> brings to the same tables.
\<close>

theorem open_keeps_data:
  assumes stored: "holds (files w path) t" and path: "path = (if path0 = '':memory:'' then memoryPath else path0)"
    and closed: "\<not> writeHandle w" "\<not> readHandle w" and call: "Store_Open flt journal path0 w = (res, w')"
  shows "holds (files w' path) t \<and> (\<forall>q. q \<noteq> path \<longrightarrow> files w' q = files w q)
    \<and> (case res of
         Inl e \<Rightarrow> \<not> writeHandle w' \<and> \<not> readHandle w'
       | Inr s \<Rightarrow> tables s = t \<and> readDB s \<and> writeDB s \<and> writeHandle w' \<and> readHandle w' \<and> files w' path = fileOf t)"
proof -
  obtain mres f where m: "applyMigrations flt (files w path) = (mres, f)" by fastforce
  have f: "holds f t" "mres = Inr () \<Longrightarrow> f = fileOf t" using applyMigrations_holds [OF stored m] by auto
  then show ?thesis
    using call closed stored m path
    by (auto simp: Store_Open_def Let_def Store_Close_def split: if_splits option.splits sum.splits)
qed

text \<open>An in-memory database cannot be switched to WAL; SQLite then reports the mode \<open>memory\<close>.\<close>

theorem memory_database_does_not_open:
  assumes "journal memoryPath = ''memory''"
  shows "fst (Store_Open (\<lambda>_. None) journal '':memory:'' w) = Inl (JournalMode ''memory'')"
proof -
  have "trimSpace '':memory:'' \<noteq> ''''" "lowerString ''memory'' \<noteq> ''wal''" by code_simp+
  then show ?thesis using assms by (simp add: Store_Open_def configureDatabase_def openCall_def Let_def)
qed

end
