(* ===== verification/Server.thy ===== *)
theory Server
  imports History_API Store_Theorems
begin

text \<open>
  \<open>internal/server/documents.go\<close> and \<open>server.go\<close>: the pages, the creation of documents and
  the routes. \<open>readFile\<close> stands for the embedded files of package \<open>web\<close>.
\<close>

section \<open>Pages\<close>

definition servePage :: "(string \<Rightarrow> string option) \<Rightarrow> string \<Rightarrow> http_response" where
  "servePage readFile name =
     (case readFile name of
        None \<Rightarrow> httpError ''page not found'' 404
      | Some data \<Rightarrow> \<lparr>statusCode = 200, respHeaders = [(''Content-Type'', ''text/html; charset=utf-8'')], respBody = PageBody data\<rparr>)"

definition handleLandingPage :: "(string \<Rightarrow> string option) \<Rightarrow> string \<Rightarrow> http_response" where
  "handleLandingPage readFile path = (if path \<noteq> ''/'' then httpNotFound else servePage readFile ''index.html'')"

text \<open>\<open>DocumentService\<close>: the two operations the document routes need, on a state of its own.\<close>

record 's DocumentService =
  svcCreate :: "'s \<Rightarrow> (store_error + StoredDocument) \<times> 's"
  svcLoad :: "string \<Rightarrow> 's \<Rightarrow> store_error + LoadedDocument"

definition handleCreateDocument :: "'s DocumentService option \<Rightarrow> 's \<Rightarrow> http_response \<times> 's" where
  "handleCreateDocument service s =
     (case service of
        None \<Rightarrow> (httpError ''document service is not configured'' 503, s)
      | Some svc \<Rightarrow>
          (case svcCreate svc s of
             (Inl e, s') \<Rightarrow> (httpError ''could not create document'' 500, s')
           | (Inr d, s') \<Rightarrow> (httpJson 201 (JObject [(''slug'', JString (storedSlug d))]), s')))"

definition handleEditorPage ::
  "(string \<Rightarrow> string option) \<Rightarrow> time \<Rightarrow> time \<Rightarrow> time \<Rightarrow> 's DocumentService option \<Rightarrow> 's \<Rightarrow> string \<Rightarrow> SlugCache option
   \<Rightarrow> http_response \<times> SlugCache option" where
  "handleEditorPage readFile t1 t2 t3 service s slug slugCache =
     (case service of
        None \<Rightarrow> (httpNotFound, slugCache)
      | Some svc \<Rightarrow>
          if \<not> documentSlugPattern slug then (httpNotFound, slugCache)
          else case SlugCache_Lookup t1 t2 slugCache slug of
              (exists, True) \<Rightarrow> (if exists then servePage readFile ''editor.html'' else httpNotFound, slugCache)
            | (_, False) \<Rightarrow>
                (case svcLoad svc slug s of
                   Inl e \<Rightarrow>
                     if isDocumentNotFound e then (httpNotFound, SetMissing t3 slug slugCache)
                     else (httpError ''could not load document'' 500, slugCache)
                 | Inr l \<Rightarrow> (servePage readFile ''editor.html'', SetExists t3 slug slugCache)))"

definition handleHealth :: http_response where
  "handleHealth = \<lparr>statusCode = 200, respHeaders = [(''Content-Type'', ''text/plain; charset=utf-8'')],
     respBody = TextBody (''ok'' @ newline)\<rparr>"

section \<open>Wiring\<close>

text \<open>
  What the type tests of \<open>New\<close> say of a dependency; the dependencies are referred to by their
  position. A slug cache is found directly or through a provider.
\<close>

record dependency =
  isSlugCache :: bool
  providesSlugCache :: bool
  isMetrics :: bool
  isDocumentService :: bool
  isHistoryService :: bool
  isHandler :: bool

record wiring =
  wireService :: "nat option"
  wireHistory :: "nat option"
  wireWebsocket :: "nat option"
  wireMetrics :: "nat option"
  wireSlugs :: "nat option"

fun wireDependencies :: "nat \<Rightarrow> dependency list \<Rightarrow> wiring \<Rightarrow> wiring" where
  "wireDependencies i [] w = w"
| "wireDependencies i (d # ds) w =
     wireDependencies (Suc i) ds
       (if isSlugCache d then w\<lparr>wireSlugs := Some i\<rparr>
        else let w1 = (if providesSlugCache d then w\<lparr>wireSlugs := Some i\<rparr> else w)
             in if isMetrics d then w1\<lparr>wireMetrics := Some i\<rparr>
                else let w2 = (if isDocumentService d then w1\<lparr>wireService := Some i\<rparr> else w1);
                         w3 = (if isHistoryService d then w2\<lparr>wireHistory := Some i\<rparr> else w2)
                     in (if isHandler d then w3\<lparr>wireWebsocket := Some i\<rparr> else w3))"

datatype route =
  RouteHealth | RouteLanding | RouteAssets | RouteCreate "nat option" | RouteEditor "nat option" "nat option"
| RouteHistoryRange nat | RouteHistory nat | RouteWebsocket nat | RouteMetrics nat

definition registerDocumentRoutes :: "wiring \<Rightarrow> (string \<times> route) list" where
  "registerDocumentRoutes w =
     [(''GET /'', RouteLanding), (''GET /assets/'', RouteAssets), (''POST /documents'', RouteCreate (wireService w)),
      (''GET /d/{slug}'', RouteEditor (wireService w) (wireSlugs w))]"

definition registerHistoryRoutes :: "wiring \<Rightarrow> (string \<times> route) list" where
  "registerHistoryRoutes w =
     (case wireHistory w of
        None \<Rightarrow> []
      | Some i \<Rightarrow> [(''GET /api/documents/{slug}/history/range'', RouteHistoryRange i),
                   (''GET /api/documents/{slug}/history'', RouteHistory i)])"

definition Server_New :: "dependency list \<Rightarrow> (string \<times> route) list" where
  "Server_New deps =
     (let w = wireDependencies 0 deps
            \<lparr>wireService = None, wireHistory = None, wireWebsocket = None, wireMetrics = None, wireSlugs = None\<rparr>
      in [(''GET /healthz'', RouteHealth)] @ registerDocumentRoutes w @ registerHistoryRoutes w
         @ (case wireWebsocket w of None \<Rightarrow> [] | Some i \<Rightarrow> [(''GET /ws/{slug}'', RouteWebsocket i)])
         @ (case wireMetrics w of None \<Rightarrow> [] | Some i \<Rightarrow> [(''GET /metrics'', RouteMetrics i)]))"

text \<open>The program wires the database, the hub and the registry of metrics.\<close>

lemma main_wiring:
  "map fst (Server_New
     [\<lparr>isSlugCache = False, providesSlugCache = False, isMetrics = False, isDocumentService = True, isHistoryService = True, isHandler = False\<rparr>,
      \<lparr>isSlugCache = False, providesSlugCache = True, isMetrics = False, isDocumentService = False, isHistoryService = False, isHandler = True\<rparr>,
      \<lparr>isSlugCache = False, providesSlugCache = False, isMetrics = True, isDocumentService = False, isHistoryService = False, isHandler = True\<rparr>])
   = [''GET /healthz'', ''GET /'', ''GET /assets/'', ''POST /documents'', ''GET /d/{slug}'',
      ''GET /api/documents/{slug}/history/range'', ''GET /api/documents/{slug}/history'', ''GET /ws/{slug}'', ''GET /metrics'']"
  by (simp add: Server_New_def registerDocumentRoutes_def registerHistoryRoutes_def)

section \<open>Creating and opening a document\<close>

lemma handleEditorPage_found:
  assumes "documentSlugPattern slug" "svcLoad svc slug s = Inr l" "SlugCache_Lookup t1 t2 cache slug \<noteq> (False, True)"
  shows "fst (handleEditorPage readFile t1 t2 t3 (Some svc) s slug cache) = servePage readFile ''editor.html''"
  using assms by (cases "SlugCache_Lookup t1 t2 cache slug") (auto simp: handleEditorPage_def split: bool.splits)

text \<open>
  C40. What the create route answers can be opened: a successful creation is answered with
  status 201 and a slug that the routes and the hub accept; from then on, unless the slug cache
  still holds an earlier negative answer, the editor page of that slug is served, and a room that
  is opened for it starts with the empty document at sequence zero. A failed creation is answered
  with status 500 and leaves the store as it was.
\<close>

theorem created_document_opens:
  assumes wf: "wfTables (tables s)" "readDB s"
    and create: "CreateDocument flt stamp reads s = Some (res, s')"
    and svc: "svcCreate svc s = (res, s')" "svcLoad svc = LoadDocument noFaults"
  shows "case res of
      Inl e \<Rightarrow> handleCreateDocument (Some svc) s = (httpError ''could not create document'' 500, s)
    | Inr doc \<Rightarrow>
        handleCreateDocument (Some svc) s = (httpJson 201 (JObject [(''slug'', JString (storedSlug doc))]), s')
        \<and> validSlug (storedSlug doc)
        \<and> (SlugCache_Lookup t1 t2 cache (storedSlug doc) \<noteq> (False, True) \<longrightarrow>
             fst (handleEditorPage readFile t1 t2 t3 (Some svc) s' (storedSlug doc) cache) = servePage readFile ''editor.html'')
        \<and> (\<exists>l. svcLoad svc (storedSlug doc) s' = Inr l \<and> documentFromLoaded l = Inr New
             \<and> roomSequence (newRoom (storedSlug doc) (storedID l) New (storedVersion l) (loadedOperations l)) = 0)"
proof (cases res)
  case (Inl e)
  then show ?thesis using svc failed_creation [of flt stamp reads s e s'] create by (simp add: handleCreateDocument_def)
next
  case (Inr doc)
  let ?slug = "storedSlug doc"
  have made: "length ?slug = 12" "set ?slug \<subseteq> set slugAlphabet" and load: "svcLoad svc ?slug s' = Inr \<lparr>storedID = storedID doc,
      storedSlug = ?slug, storedTitle = '''', storedSnapshot = [], storedVersion = 0, loadedOperations = []\<rparr>"
    using created_document_loads [OF wf create [unfolded Inr]] svc(2) by simp_all
  have slug: "documentSlugPattern ?slug" using made by (rule documentSlugPattern_made)
  show ?thesis
    using load handleEditorPage_found [OF slug load] slug svc(1) Inr
    by (simp add: handleCreateDocument_def documentSlugPattern_validSlug documentFromLoaded_def BuildAt_def newRoom_def)
qed

text \<open>The store as the document service.\<close>

definition createReads :: "nat list option list" where
  "createReads = [Some [0, 255, 1, 2, 3, 4, 5, 6, 7, 8, 9, 10], Some [11, 12]]"

definition exampleService :: "Store DocumentService" where
  "exampleService = \<lparr>svcCreate = (\<lambda>s. the (CreateDocument noFaults ''now'' createReads s)), svcLoad = LoadDocument noFaults\<rparr>"

theorem created_document_opens_witness:
  "\<exists>s'. handleCreateDocument (Some exampleService) exampleStore = (httpJson 201 (JObject [(''slug'', JString ''0123456789AB'')]), s')
     \<and> fst (handleEditorPage (\<lambda>_. Some ''page'') 0 0 0 (Some exampleService) s' ''0123456789AB'' None)
       = servePage (\<lambda>_. Some ''page'') ''editor.html''"
proof -
  let ?call = "CreateDocument noFaults ''now'' createReads exampleStore"
  have "map_option (map_sum id storedSlug \<circ> fst) ?call = Some (Inr ''0123456789AB'')" by code_simp
  then obtain res s' where call: "?call = Some (res, s')" and "map_sum id storedSlug res = Inr ''0123456789AB''" by auto
  then obtain doc where doc: "res = Inr doc" "storedSlug doc = ''0123456789AB''" by (cases res) auto
  have wf: "wfTables (tables exampleStore)" "readDB exampleStore" using wfTables_example by simp_all
  have svc: "svcCreate exampleService exampleStore = (res, s')" "svcLoad exampleService = LoadDocument noFaults"
    by (simp_all add: exampleService_def call)
  have none: "SlugCache_Lookup 0 0 None ''0123456789AB'' \<noteq> (False, True)" by (simp add: SlugCache_Lookup_def)
  from created_document_opens [OF wf call svc, of 0 0 None "\<lambda>_. Some ''page''" 0] none show ?thesis
    by (auto simp: doc)
qed

end
