(* ===== verification/Gopad_Main.thy ===== *)
theory Gopad_Main
  imports Shutdown Config Store_Open Server
begin

text \<open>
  \<open>cmd/gopad/main.go\<close>: how the program starts and how it ends. Listening and the signals are
  events; their log entries are the texts of the messages.
\<close>

section \<open>Start\<close>

text \<open>What the type tests of the server find in the three dependencies the program passes.\<close>

definition mainDependencies :: "dependency list" where
  "mainDependencies =
     [\<lparr>isSlugCache = False, providesSlugCache = False, isMetrics = False, isDocumentService = True, isHistoryService = True, isHandler = False\<rparr>,
      \<lparr>isSlugCache = False, providesSlugCache = True, isMetrics = False, isDocumentService = False, isHistoryService = False, isHandler = True\<rparr>,
      \<lparr>isSlugCache = False, providesSlugCache = False, isMetrics = True, isDocumentService = False, isHistoryService = False, isHandler = True\<rparr>]"

record running =
  runStore :: Store
  runHub :: "(Store \<times> nat, store_error) Hub"
  runAddress :: string
  runRoutes :: "(string \<times> route) list"
  runPprof :: "string option"

definition mainStart ::
  "(int \<Rightarrow> nat \<Rightarrow> int \<Rightarrow> int) \<Rightarrow> environ \<Rightarrow> open_faults \<Rightarrow> (string \<Rightarrow> string) \<Rightarrow> db_world \<Rightarrow> (open_error + running) \<times> db_world" where
  "mainStart fraction getenv flt journal w =
     (case Store_Open flt journal (envOrDefault getenv ''GOPAD_DB_PATH'' ''gopad.db'') w of
        (Inl e, w1) \<Rightarrow> (Inl e, w1)
      | (Inr s, w1) \<Rightarrow>
          (Inr \<lparr>runStore = s, runHub = NewHub fraction getenv (Some (s, 0)), runAddress = envOrDefault getenv ''GOPAD_ADDR'' '':8080'',
                runRoutes = Server_New mainDependencies, runPprof = startPprofServer getenv\<rparr>, w1))"

section \<open>End\<close>

text \<open>
  The HTTP server stopped, with the error that says it was closed or another one; or a signal
  arrived, and the shutdown of the HTTP server returned an error or none.
\<close>

datatype main_event = ServerStopped bool | Interrupted "string option"

definition flushMessage :: "'e barrier_result \<Rightarrow> string list" where
  "flushMessage r = (case r of BarrierOk \<Rightarrow> [] | _ \<Rightarrow> [''flush persistence''])"

definition closeHub ::
  "bool \<Rightarrow> (('x, 'e) Hub \<Rightarrow> ('x, 'e) Hub) \<Rightarrow> (('x, 'e) Writer \<Rightarrow> ('x, 'e) Writer) \<Rightarrow> bool \<Rightarrow> bool \<Rightarrow> nat
   \<Rightarrow> ('x, 'e) Hub option \<Rightarrow> (string list \<times> ('x, 'e) Hub option) option" where
  "closeHub pick wait progress cancelled1 cancelled2 k hub =
     map_option (\<lambda>(r, h). (flushMessage r, h)) (CloseContext pick wait progress cancelled1 cancelled2 k hub)"

definition mainStop ::
  "bool \<Rightarrow> (('x, 'e) Hub \<Rightarrow> ('x, 'e) Hub) \<Rightarrow> (('x, 'e) Writer \<Rightarrow> ('x, 'e) Writer) \<Rightarrow> bool \<Rightarrow> bool \<Rightarrow> nat
   \<Rightarrow> main_event \<Rightarrow> ('x, 'e) Hub option \<Rightarrow> (string list \<times> ('x, 'e) Hub option) option" where
  "mainStop pick wait progress cancelled1 cancelled2 k ev hub =
     (case ev of
        ServerStopped isClosed \<Rightarrow>
          map_option (\<lambda>(l, h). ((if isClosed then [] else [''HTTP server stopped unexpectedly'']) @ l, h))
            (closeHub pick wait progress cancelled1 cancelled2 k hub)
      | Interrupted (Some e) \<Rightarrow> Some ([''shutdown requested'', ''HTTP server shutdown''], hub)
      | Interrupted None \<Rightarrow>
          map_option (\<lambda>(r, h). ([''shutdown requested''] @ flushMessage r @ [''server stopped''], h))
            (CloseContext pick wait progress cancelled1 cancelled2 k hub))"

text \<open>The deferred call that closes the database comes last.\<close>

definition mainEnd :: "open_faults \<Rightarrow> Store \<Rightarrow> db_world \<Rightarrow> string list \<times> db_world" where
  "mainEnd flt s w = (case Store_Close flt (Some s) w of (errs, w1) \<Rightarrow> (if errs = [] then [] else [''close database''], w1))"

section \<open>The program as a whole\<close>

lemma NewHubWithConfig_fresh: "\<exists>cl. NewHubWithConfig cfg w m sc = freshHub cfg w m sc cl"
  by (rule exI) (simp add: freshHub_def NewHubWithConfig_def)

lemma NewHub_fresh:
  "\<exists>cfg c cl. NewHub f getenv (Some x) = freshHub cfg (Some (NewWriterWithConfig x False c)) (Some Metrics_New) (Some DefaultSlugCache) cl
     \<and> hasObserver c"
proof -
  let ?cfg = "\<lparr>IdleTimeout = roomIdleTimeoutFromEnv f getenv, ClientQueueSize = defaultClientQueueSize,
     FanoutQueueSize = defaultFanoutQueueSize, FanoutWorkers = defaultFanoutWorkers,
     SnapshotOpThreshold = fst (SnapshotConfigFromEnv f getenv), SnapshotInterval = snd (SnapshotConfigFromEnv f getenv)\<rparr>"
  let ?c = "WriterConfigFromEnv f getenv True"
  have hub: "NewHub f getenv (Some x) = NewHubWithConfig ?cfg (Some (NewWriterWithConfig x False ?c)) (Some Metrics_New) (Some DefaultSlugCache)"
    by (simp add: NewHub_def case_prod_beta)
  have "hasObserver ?c" by (simp add: WriterConfigFromEnv_def Let_def)
  then show ?thesis
    unfolding hub using NewHubWithConfig_fresh by blast
qed

text \<open>
  The state after the start is one from which the runs of the hub begin: the tables are those the
  file held and well-formed, the hub is a fresh one over a fresh writer on them that reports to the
  metrics, and all routes are registered.
\<close>

theorem main_starts_fresh:
  assumes start: "mainStart fraction getenv flt journal w = (Inr p, w')"
    and stored: "holds (files w (envOrDefault getenv ''GOPAD_DB_PATH'' ''gopad.db'')) t"
    and path: "envOrDefault getenv ''GOPAD_DB_PATH'' ''gopad.db'' \<noteq> '':memory:''"
    and closed: "\<not> writeHandle w" "\<not> readHandle w"
  shows "tables (runStore p) = t \<and> wfTables t \<and> readDB (runStore p) \<and> writeDB (runStore p)
    \<and> (\<exists>cfg c cl. runHub p = freshHub cfg (Some (NewWriterWithConfig (runStore p, 0) False c)) (Some Metrics_New) (Some DefaultSlugCache) cl
          \<and> hasObserver c)
    \<and> map fst (runRoutes p) = [''GET /healthz'', ''GET /'', ''GET /assets/'', ''POST /documents'', ''GET /d/{slug}'',
      ''GET /api/documents/{slug}/history/range'', ''GET /api/documents/{slug}/history'', ''GET /ws/{slug}'', ''GET /metrics'']"
proof -
  obtain s where s: "Store_Open flt journal (envOrDefault getenv ''GOPAD_DB_PATH'' ''gopad.db'') w = (Inr s, w')"
      "runStore p = s" "runHub p = NewHub fraction getenv (Some (s, 0))" "runRoutes p = Server_New mainDependencies"
    using start by (auto simp: mainStart_def split: prod.splits sum.splits)
  have "tables s = t \<and> readDB s \<and> writeDB s"
    using open_keeps_data [OF stored _ closed s(1)] path by simp
  moreover have "wfTables t" using stored by (simp add: holds_def)
  moreover have "\<exists>cfg c cl. runHub p = freshHub cfg (Some (NewWriterWithConfig (s, 0) False c)) (Some Metrics_New) (Some DefaultSlugCache) cl
      \<and> hasObserver c"
    unfolding s(3) by (rule NewHub_fresh)
  moreover have "map fst (runRoutes p) = [''GET /healthz'', ''GET /'', ''GET /assets/'', ''POST /documents'', ''GET /d/{slug}'',
      ''GET /api/documents/{slug}/history/range'', ''GET /api/documents/{slug}/history'', ''GET /ws/{slug}'', ''GET /metrics'']"
    unfolding s(4) mainDependencies_def by (rule main_wiring)
  ultimately show ?thesis using s(2) by simp
qed

text \<open>
  When the shutdown of the HTTP server fails, the program returns without closing the hub: an
  operation that was accepted and is queued is not written, although the same state closes cleanly
  when that shutdown succeeds.
\<close>

theorem failed_http_shutdown_skips_flush:
  "mainStop True exampleTake (drainJobs 9) False False 7 (Interrupted (Some ''context deadline exceeded'')) (Some stopTyped)
     = Some ([''shutdown requested'', ''HTTP server shutdown''], Some stopTyped)
   \<and> documentLog (tables (fst (executor (the (hubWriter stopTyped))))) 1 = []
   \<and> map_option (map_prod id (map_option (\<lambda>h. map snd (documentLog (tables (fst (executor (the (hubWriter h))))) 1))))
       (mainStop True exampleTake (drainJobs 9) False False 7 (Interrupted None) (Some stopTyped))
     = Some ([''shutdown requested'', ''server stopped''], Some [insA])"
proof (intro conjI)
  show "documentLog (tables (fst (executor (the (hubWriter stopTyped))))) 1 = []" by code_simp
  show "map_option (map_prod id (map_option (\<lambda>h. map snd (documentLog (tables (fst (executor (the (hubWriter h))))) 1))))
       (mainStop True exampleTake (drainJobs 9) False False 7 (Interrupted None) (Some stopTyped))
     = Some ([''shutdown requested'', ''server stopped''], Some [insA])" by code_simp
qed (simp add: mainStop_def)

end
