(* ===== verification/Spec2Isabelle.thy ===== *)
theory Spec2Isabelle
  imports Crdt_Theorems Cache Writer_Liveness Metrics Durability Room_Registry Room_Eviction History_Theorems Gopad_Main
begin

text \<open>
  gopad is a collaborative plain-text editor written in Go. This development models the whole of
  the server, from the CRDT document to \<open>main\<close>, and proves what its parts promise. Names of files
  below are relative to \<open>src/\<close>.

  \<^bold>\<open>The program.\<close> A document is a set of characters with identities and anchors
  (\<open>internal/crdt\<close>); every edit is an operation that any replica may apply. The log of the
  operations and periodic snapshots are kept in SQLite (\<open>internal/store/store.go\<close>), behind a queue
  that batches writes (\<open>internal/store/writer.go\<close>). For each open document the hub
  (\<open>internal/realtime/hub.go\<close>) runs a room (\<open>room.go\<close>) that applies the operations of its clients
  (\<open>client.go\<close>), sends them on through a fan-out pool that all rooms share, and hands them to the
  writer. After the writer has saved a snapshot it reports the tombstones of the one before, and
  the room removes them from its document. The HTTP server (\<open>internal/server\<close>) creates documents,
  serves their pages and answers what a document was at an earlier point of its history
  (\<open>internal/history\<close>), using caches (\<open>internal/cache\<close>). \<open>cmd/gopad/main.go\<close> starts and ends it all.

  \<^bold>\<open>The theories.\<close>
  \<^item> \<open>Prelude\<close>: machine types, the fact collections, association lists for Go maps, and the
    interface \<open>op_log\<close> of a state that a log is replayed into.
  \<^item> \<open>Crdt_Document\<close>: \<open>crdt/document.go\<close> up to \<open>Compact\<close>; the record of a document, \<open>Apply\<close> and its
    parts, the errors, and the invariants \<open>wfDoc\<close> and \<open>rooted\<close>. It interprets \<open>op_log\<close>, and makes
    \<open>CharID\<close> a linear order.
  \<^item> \<open>Heap\<close>: \<open>container/heap\<close>, with the interface \<open>ready_queue\<close> that the topological sort needs;
    \<open>Greedy_Order\<close>: the reference order; \<open>Crdt_Snapshot\<close>: \<open>Snapshot\<close> and \<open>Text\<close>; \<open>Crdt_Topo\<close> and
    \<open>Crdt_Order\<close>: that the sort computes the reference order, and what a snapshot contains.
  \<^item> \<open>History\<close>: \<open>history/replay.go\<close>; \<open>Crdt_Theorems\<close>: the properties of documents and replay.
  \<^item> \<open>Cache\<close>: \<open>cache/cache.go\<close>, with the interface \<open>expiring_store\<close> between the cache and the cache
    of slugs.
  \<^item> \<open>Go_Strings\<close>, \<open>Json\<close>, \<open>Strconv\<close>, \<open>Http\<close>: what the sources use of Go's library: strings, the JSON
    form of structs, numbers and durations, responses.
  \<^item> \<open>Store\<close>: \<open>store/store.go\<close> with its SQL statements on the tables of the migration;
    \<open>Store_Log\<close>: the invariant of the tables and the log of a document; \<open>Store_Theorems\<close>;
    \<open>Store_Open\<close>: opening, migrating and closing the database.
  \<^item> \<open>Writer\<close>: \<open>store/writer.go\<close>, the producers and every branch of the goroutine over an executor;
    \<open>Writer_Log\<close>: runs of the writer and the interface \<open>durable_log\<close> of an executor that keeps logs;
    \<open>Writer_Theorems\<close> interprets it on the SQLite store; \<open>Writer_Liveness\<close>, \<open>Writer_Open\<close>.
  \<^item> \<open>Metrics\<close>: \<open>metrics/metrics.go\<close>; \<open>Protocol\<close>: \<open>realtime/protocol.go\<close> and the decoders of
    \<open>client.go\<close>.
  \<^item> \<open>Room\<close>: \<open>room.go\<close> and the queues of clients; \<open>Hub\<close>: \<open>hub.go\<close> and the loops of \<open>client.go\<close>.
  \<^item> \<open>Hub_Run\<close>: the step relation of the hub, and the interfaces \<open>hub_frame\<close> and its extension
    \<open>hub_frame_all\<close>: a relation between states that holds of the basic updates holds of every step.
    They are interpreted four times: in \<open>Room_Run\<close> for steps that change no document, in
    \<open>Room_Persistence\<close> for what a step does to the writer, in \<open>Room_Registry\<close> for the
    registry, in \<open>Room_Eviction\<close> for rooms that have ended. \<open>Room_Fanout\<close> describes a broadcast;
    \<open>Room_Theorems\<close> and \<open>Durability\<close> hold the properties.
  \<^item> \<open>Shutdown\<close>: the closing of the hub; \<open>Config\<close>: all that is read from the environment.
  \<^item> \<open>History_API\<close>: \<open>server/history.go\<close>; \<open>History_Theorems\<close>; \<open>Server\<close>: \<open>server/documents.go\<close> and
    \<open>server/server.go\<close>; \<open>Gopad_Main\<close>: \<open>cmd/gopad/main.go\<close>.

  \<^bold>\<open>How the code is represented.\<close> A struct is a record, a pointer an option where it may be nil and
  an address into a map of the state where it is shared (rooms and clients in the state of the
  hub). Errors are values of a sum type, with one constructor for every sentinel and every wrapped
  message. \<open>uint64\<close>, \<open>rune\<close> and \<open>time.Duration\<close> arithmetic that may wrap is kept at its width; row
  identities, sequence numbers and clock readings are unbounded integers. A Go map that is iterated
  is an association list whose order is the iteration order of that run. A mutex or a channel
  operation makes an atomic step; goroutines interleave as steps of \<open>writer_run\<close>, \<open>writer_steps\<close> and
  \<open>hub_run\<close>. The clock, random bytes, the failures of the database, what a connection reads and
  whether a write to it succeeds are arguments of the step, over all of which the theorems range.

  \<^bold>\<open>What is shown.\<close>
  \<^item> Documents (C1 to C13, C15). Replicas that accepted the same operations agree. \<open>Snapshot\<close> always
    returns; its heap-driven sort is the reference order; left anchors come first, right anchors
    last when there is no cycle. Snapshots restore, and replay from a snapshot is replay of the log.
    \<open>Apply\<close> fails exactly under its conditions and otherwise keeps the invariant. Compaction removes
    only tombstones and keeps the live text when nothing is anchored at them; C13 and C15 are
    concrete runs where it hides live text, and where right anchors reorder it.
  \<^item> Configuration (C16), caches (C17 to C19) and store (C20 to C23): sane settings for every
    environment; cached answers are the last results and are bounded; batches are atomic,
    snapshots load as saved, users and slugs are unique.
  \<^item> Writer (C24 to C28, C34). The log refines the sequence of accepted operations in every run;
    barriers make it durable and are answered; queue and batches are bounded; operations accepted
    behind a close are lost.
  \<^item> Rooms (C29, C30, C35 to C37). A client was sent the snapshot of its join and then exactly the
    operations of others, in order, and its replica agrees with the room; the registry is
    consistent; a full fan-out queue disconnects a room, and a join can meet a room that has ended.
  \<^item> The composition (C14, C31 to C33). Under any failures the log follows the rooms; a reload
    rebuilds the room; a close that returns without error, refusal or failed write leaves every
    accepted operation in the log; a dropped operation makes later ones unreadable.
  \<^item> Server (C38 to C40). A history answer is the text of the log at that point, cached or not; the
    rate limit lets through at most twice the burst in a window; a created document opens.
  Three theorems beside these state consequences of the code for a deployment:
  \<open>forged_header_bypasses_limit\<close>, \<open>memory_database_does_not_open\<close> and
  \<open>failed_http_shutdown_skips_flush\<close>.

  \<^bold>\<open>Bounds and fuel.\<close> Loops over data are structural or have a measure. The walk of \<open>Snapshot\<close> gets
  one level more than there are characters, and \<open>visit_enough\<close> shows that it then returns. The loop
  of a broadcast that removes clients gets the number of clients (\<open>broadcastLoop_fuel\<close>).
  \<open>CreateDocument\<close> tries as often as the code does, and has no result only when the supplied random
  bytes are used up. Calls that wait (\<open>Flush\<close>, \<open>Close\<close>, \<open>CloseContext\<close>) are \<open>None\<close> while they wait;
  C34 shows that the wait of a barrier ends.

  \<^bold>\<open>Not modelled.\<close> The WebSocket library and the upgrade of a connection, the matching of routes and
  the file server of \<open>net/http\<close>, listening, signals and the sink of the log are library code: their
  outcomes are arguments. \<open>time.Parse\<close>, the JSON form of times, the value of a decimal fraction in
  \<open>time.ParseDuration\<close> and the verb \<open>%g\<close> are parameters; the rounding of floating-point sums in
  \<open>metrics\<close> is left out. SQL is modelled by the statements that occur, not as a language. The
  interfaces \<open>Clock\<close> and \<open>Timer\<close> of the writer only wrap package \<open>time\<close>. One fan-out worker takes the
  jobs in order, as in the default configuration, and the closing of the pool is its draining. The
  embedded assets of \<open>web/embed.go\<close> hold no logic. The client in the browser is not Go and is
  not modelled.
\<close>

end
